(* ===== verification/Prelude.thy ===== *)
theory Prelude
  imports Main "HOL-Library.Word" "HOL-Library.Sublist" "HOL-Library.Multiset"
begin

text \<open>
  Shared vocabulary of the development: the error-or-value results of Go functions, signed
  64-bit arithmetic (Go's \<open>int\<close> and \<open>int64\<close> on every platform the project builds for),
  insertion-ordered deduplication and the list facts that several components use.

  \<^item> \<open>wrap64\<close> is the value a Go \<open>int64\<close> expression has after wrap-around; it is the
    signed reading of a 64-bit machine word (\<open>wrap64_word\<close>).
  \<^item> \<open>dedup_acc\<close> is the loop \<open>if !seen[x] { seen[x] = true; out = append(out, x) }\<close>,
    which occurs in many places of the repository.
  \<^item> the collections \<open>guard_simps\<close> and \<open>state_simps\<close> gather the unfolding facts of the
    small guards and of the state updates.
\<close>

named_theorems guard_simps
named_theorems state_simps

section \<open>Results\<close>

type_synonym ('e, 'a) result = "'e + 'a"

abbreviation is_ok :: "('e, 'a) result \<Rightarrow> bool" where
  "is_ok r \<equiv> \<not> isl r"

section \<open>Signed 64-bit integers\<close>

definition wrap64 :: "int \<Rightarrow> int" where
  "wrap64 x = (x + 2 ^ 63) mod 2 ^ 64 - 2 ^ 63"

section \<open>Deduplicating loops\<close>

fun dedup_acc :: "'a list \<Rightarrow> 'a list \<Rightarrow> 'a list" where
  "dedup_acc seen [] = []"
| "dedup_acc seen (x # xs) =
     (if x \<in> set seen then dedup_acc seen xs else x # dedup_acc (x # seen) xs)"

section \<open>Facts on 64-bit integers\<close>

lemma wrap64_word: "wrap64 x = sint (word_of_int x :: 64 word)"
  by (simp add: wrap64_def sint_sbintrunc' signed_take_bit_eq_take_bit_shift take_bit_eq_mod)

lemma wrap64_id [simp]: "- (2 ^ 63) \<le> x \<Longrightarrow> x < 2 ^ 63 \<Longrightarrow> wrap64 x = x"
  by (simp add: wrap64_def)

lemma wrap64_lower: "- (2 ^ 63) \<le> wrap64 x"
  by (simp add: wrap64_def)

lemma wrap64_upper: "wrap64 x < 2 ^ 63"
proof -
  have "(x + 2 ^ 63) mod 2 ^ 64 < (2 :: int) ^ 64" by simp
  then show ?thesis by (simp add: wrap64_def)
qed

lemma wrap64_wrap64 [simp]: "wrap64 (wrap64 x) = wrap64 x"
  by (rule wrap64_id [OF wrap64_lower wrap64_upper])

lemma wrap64_mod: "wrap64 x mod 2 ^ 64 = x mod 2 ^ 64"
  unfolding wrap64_def by (simp add: mod_diff_left_eq)

lemma wrap64_cong: "x mod 2 ^ 64 = y mod 2 ^ 64 \<Longrightarrow> wrap64 x = wrap64 y"
  unfolding wrap64_def by (metis mod_add_left_eq)

lemma wrap64_add_left [simp]: "wrap64 (wrap64 x + y) = wrap64 (x + y)"
  by (rule wrap64_cong) (metis mod_add_left_eq wrap64_mod)

lemma wrap64_add_right [simp]: "wrap64 (x + wrap64 y) = wrap64 (x + y)"
  using wrap64_add_left [of y x] by (simp add: add.commute)

lemma wrap64_mult_add [simp]: "wrap64 (wrap64 x * k + y) = wrap64 (x * k + y)"
  by (rule wrap64_cong) (metis mod_add_left_eq mod_mult_left_eq wrap64_mod)

section \<open>Facts on deduplication\<close>

lemma set_dedup_acc: "set (dedup_acc seen xs) = set xs - set seen"
  by (induction seen xs rule: dedup_acc.induct) auto

lemma distinct_dedup_acc: "distinct (dedup_acc seen xs)"
  by (induction seen xs rule: dedup_acc.induct) (auto simp: set_dedup_acc)

lemma dedup_acc_subseq: "subseq (dedup_acc seen xs) xs"
  by (induction seen xs rule: dedup_acc.induct) auto

lemma dedup_acc_distinct: "distinct xs \<Longrightarrow> set xs \<inter> set seen = {} \<Longrightarrow> dedup_acc seen xs = xs"
  by (induction seen xs rule: dedup_acc.induct) auto

section \<open>Facts on lists and options\<close>

lemma find_SomeD: "find P xs = Some x \<Longrightarrow> x \<in> set xs \<and> P x"
  by (auto simp: find_Some_iff)

lemma find_append: "find P (xs @ ys) = (case find P xs of Some x \<Rightarrow> Some x | None \<Rightarrow> find P ys)"
  by (induction xs) auto

text \<open>A loop over an integer range that stops at the first hit finds the least one.\<close>

lemma find_upt_Some: "find P [a..<b] = Some p \<longleftrightarrow> a \<le> p \<and> p < b \<and> P p \<and> (\<forall>q. a \<le> q \<and> q < p \<longrightarrow> \<not> P q)"
proof
  assume "find P [a..<b] = Some p"
  then obtain i where i: "i < b - a" "P (a + i)" "p = a + i" "\<And>j. j < i \<Longrightarrow> \<not> P (a + j)"
    by (fastforce simp: find_Some_iff)
  then show "a \<le> p \<and> p < b \<and> P p \<and> (\<forall>q. a \<le> q \<and> q < p \<longrightarrow> \<not> P q)"
    by (auto dest: le_Suc_ex)
next
  assume h: "a \<le> p \<and> p < b \<and> P p \<and> (\<forall>q. a \<le> q \<and> q < p \<longrightarrow> \<not> P q)"
  then show "find P [a..<b] = Some p"
    by (auto simp: find_Some_iff intro!: exI [of _ "p - a"])
qed

lemma length_filter_all_le: "(\<And>x. x \<in> set xs \<Longrightarrow> P x \<Longrightarrow> Q x) \<Longrightarrow> length (filter P xs) \<le> length (filter Q xs)"
  by (induction xs) auto

lemma drop_length_minus_suffix: "suffix (drop n xs) xs"
  by (simp add: suffix_drop)

section \<open>Runs of a stateful object\<close>

text \<open>The contract of an object that changes by one operation per event: a relation between the
  events so far and its state that the initial state has and every operation keeps. It holds after
  every run.\<close>

locale traced =
  fixes init :: "'s" and step :: "'s \<Rightarrow> 'e \<Rightarrow> 's" and rel :: "'e list \<Rightarrow> 's \<Rightarrow> bool"
  assumes rel_init: "rel [] init"
    and rel_step: "rel es s \<Longrightarrow> rel (es @ [e]) (step s e)"
begin

lemma rel_run: "rel es (foldl step init es)"
  by (induction es rule: rev_induct) (simp_all add: rel_init rel_step)

lemma rel_run_from: "rel es s \<Longrightarrow> rel (es @ fs) (foldl step s fs)"
proof (induction fs arbitrary: es s)
  case Nil
  then show ?case by simp
next
  case (Cons f fs)
  from Cons.IH [OF rel_step [OF Cons.prems, of f]] show ?case by simp
qed

end

text \<open>The events after the last one that satisfies \<open>P\<close>, newest first.\<close>

definition since :: "('e \<Rightarrow> bool) \<Rightarrow> 'e list \<Rightarrow> 'e list" where
  "since P es = takeWhile (\<lambda>e. \<not> P e) (rev es)"

lemma since_snoc [simp]: "since P (es @ [e]) = (if P e then [] else e # since P es)"
  by (simp add: since_def)

lemma since_Nil [simp]: "since P [] = []"
  by (simp add: since_def)

definition last_n :: "nat \<Rightarrow> 'a list \<Rightarrow> 'a list" where
  "last_n n xs = drop (length xs - n) xs"

lemma length_last_n [simp]: "length (last_n n xs) = min n (length xs)"
  by (simp add: last_n_def)

lemma last_n_all [simp]: "length xs \<le> n \<Longrightarrow> last_n n xs = xs"
  by (simp add: last_n_def)

lemma last_n_append: "last_n n (xs @ ys) = last_n (n - length ys) xs @ last_n n ys"
  by (cases "length ys \<le> n") (simp_all add: last_n_def)

lemma last_n_last_n: "last_n n (last_n n xs @ ys) = last_n n (xs @ ys)"
  by (cases "length xs \<le> n") (simp_all add: last_n_def add.commute)

end
