(* ===== verification/Go_Strings.thy ===== *)
theory Go_Strings
  imports Prelude
begin

text \<open>
  The parts of Go's \<open>strings\<close> and \<open>path/filepath\<close> packages that the modelled code calls.
  A Go string is a sequence of bytes and so is a HOL \<open>string\<close> (a \<open>char\<close> is one byte).
  Case mapping and white space are those of ASCII, which is what the packages compute on
  ASCII text; paths are Unix paths.
\<close>

section \<open>Characters\<close>

abbreviation char_code :: "char \<Rightarrow> nat" where
  "char_code c \<equiv> of_char c"

definition is_digit :: "char \<Rightarrow> bool" where
  "is_digit c \<longleftrightarrow> 48 \<le> char_code c \<and> char_code c \<le> 57"

definition is_lower_alpha :: "char \<Rightarrow> bool" where
  "is_lower_alpha c \<longleftrightarrow> 97 \<le> char_code c \<and> char_code c \<le> 122"

definition is_upper_alpha :: "char \<Rightarrow> bool" where
  "is_upper_alpha c \<longleftrightarrow> 65 \<le> char_code c \<and> char_code c \<le> 90"

definition is_space :: "char \<Rightarrow> bool" where
  "is_space c \<longleftrightarrow> char_code c = 32 \<or> (9 \<le> char_code c \<and> char_code c \<le> 13)"

definition lower_char :: "char \<Rightarrow> char" where
  "lower_char c = (if is_upper_alpha c then char_of (char_code c + 32) else c)"

definition upper_char :: "char \<Rightarrow> char" where
  "upper_char c = (if is_lower_alpha c then char_of (char_code c - 32) else c)"

definition newline :: char where
  "newline = char_of (10 :: nat)"

section \<open>The strings package\<close>

definition ToLower :: "string \<Rightarrow> string" where
  "ToLower s = map lower_char s"

definition ToUpper :: "string \<Rightarrow> string" where
  "ToUpper s = map upper_char s"

definition TrimLeftSpace :: "string \<Rightarrow> string" where
  "TrimLeftSpace s = dropWhile is_space s"

definition TrimSpace :: "string \<Rightarrow> string" where
  "TrimSpace s = rev (dropWhile is_space (rev (dropWhile is_space s)))"

definition HasPrefix :: "string \<Rightarrow> string \<Rightarrow> bool" where
  "HasPrefix s p = prefix p s"

definition HasSuffix :: "string \<Rightarrow> string \<Rightarrow> bool" where
  "HasSuffix s p = suffix p s"

fun Contains :: "string \<Rightarrow> string \<Rightarrow> bool" where
  "Contains [] p = (p = [])"
| "Contains (c # s) p = (prefix p (c # s) \<or> Contains s p)"

definition TrimPrefix :: "string \<Rightarrow> string \<Rightarrow> string" where
  "TrimPrefix s p = (if HasPrefix s p then drop (length p) s else s)"

definition TrimSuffix :: "string \<Rightarrow> string \<Rightarrow> string" where
  "TrimSuffix s p = (if suffix p s then take (length s - length p) s else s)"

fun split_acc :: "char \<Rightarrow> string \<Rightarrow> string \<Rightarrow> string list" where
  "split_acc sep acc [] = [rev acc]"
| "split_acc sep acc (c # s) =
     (if c = sep then rev acc # split_acc sep [] s else split_acc sep (c # acc) s)"

text \<open>\<open>strings.Split\<close> with a separator of one byte, the only separators the code uses.\<close>

definition Split :: "string \<Rightarrow> char \<Rightarrow> string list" where
  "Split s sep = split_acc sep [] s"

fun Join :: "string list \<Rightarrow> string \<Rightarrow> string" where
  "Join [] sep = []"
| "Join [x] sep = x"
| "Join (x # y # ys) sep = x @ sep @ Join (y # ys) sep"

text \<open>\<open>strings.Replace(s, old, new, 1)\<close>: the leftmost occurrence.\<close>

fun Replace1 :: "string \<Rightarrow> string \<Rightarrow> string \<Rightarrow> string" where
  "Replace1 [] old new = (if old = [] then new else [])"
| "Replace1 (c # s) old new =
     (if prefix old (c # s) then new @ drop (length old) (c # s)
      else c # Replace1 s old new)"

text \<open>\<open>strings.Count\<close>: non-overlapping occurrences, left to right; for the empty pattern
  one more than the number of characters.\<close>

function count_from :: "string \<Rightarrow> string \<Rightarrow> nat" where
  "count_from [] p = 0"
| "count_from (c # s) p =
     (if p \<noteq> [] \<and> prefix p (c # s) then Suc (count_from (drop (length p) (c # s)) p)
      else count_from s p)"
  by pat_completeness auto
termination
  by (relation "measure (\<lambda>(s, p). length s)") (auto simp: neq_Nil_conv)

definition Count :: "string \<Rightarrow> string \<Rightarrow> nat" where
  "Count s p = (if p = [] then length s + 1 else count_from s p)"

text \<open>\<open>strings.ReplaceAll(s, "\r\n", "\n")\<close>, the only use of \<open>ReplaceAll\<close> in the modelled code.\<close>

fun normalize_crlf :: "string \<Rightarrow> string" where
  "normalize_crlf [] = []"
| "normalize_crlf [c] = [c]"
| "normalize_crlf (c # d # s) =
     (if char_code c = 13 \<and> d = newline then newline # normalize_crlf s
      else c # normalize_crlf (d # s))"

text \<open>\<open>strings.Fields\<close>: the maximal runs of characters that are no white space.\<close>

fun fields_acc :: "string \<Rightarrow> string \<Rightarrow> string list" where
  "fields_acc acc [] = (if acc = [] then [] else [rev acc])"
| "fields_acc acc (c # s) =
     (if is_space c then (if acc = [] then fields_acc [] s else rev acc # fields_acc [] s)
      else fields_acc (c # acc) s)"

definition Fields :: "string \<Rightarrow> string list" where
  "Fields s = fields_acc [] s"

definition EqualFold :: "string \<Rightarrow> string \<Rightarrow> bool" where
  "EqualFold s t \<longleftrightarrow> ToLower s = ToLower t"

section \<open>The path/filepath package\<close>

definition slash :: char where
  "slash = CHR ''/''"

text \<open>\<open>filepath.Base\<close>: the last element; \<open>"."\<close> for the empty path, \<open>"/"\<close> for slashes only.\<close>

definition Base :: "string \<Rightarrow> string" where
  "Base path =
     (if path = [] then ''.''
      else let p = rev (dropWhile (\<lambda>c. c = slash) (rev path));
               b = rev (takeWhile (\<lambda>c. c \<noteq> slash) (rev p))
           in if b = [] then ''/'' else b)"

text \<open>\<open>filepath.Clean\<close>: the kept elements, innermost first.\<close>

fun clean_elems :: "bool \<Rightarrow> string list \<Rightarrow> string list \<Rightarrow> string list" where
  "clean_elems rooted out [] = rev out"
| "clean_elems rooted out (e # es) =
     (if e = [] \<or> e = ''.'' then clean_elems rooted out es
      else if e = ''..'' then
        (if out \<noteq> [] \<and> hd out \<noteq> ''..'' then clean_elems rooted (tl out) es
         else if rooted then clean_elems rooted out es
         else clean_elems rooted (e # out) es)
      else clean_elems rooted (e # out) es)"

definition Clean :: "string \<Rightarrow> string" where
  "Clean path =
     (let rooted = (path \<noteq> [] \<and> hd path = slash);
          body = Join (clean_elems rooted [] (Split path slash)) [slash];
          res = (if rooted then [slash] else []) @ body
      in if res = [] then ''.'' else res)"

text \<open>\<open>filepath.Ext\<close>: from the last dot of the last element on.\<close>

definition Ext :: "string \<Rightarrow> string" where
  "Ext path =
     (let e = takeWhile (\<lambda>c. c \<noteq> slash) (rev path)
      in if CHR ''.'' \<in> set e then CHR ''.'' # rev (takeWhile (\<lambda>c. c \<noteq> CHR ''.'') e) else [])"

text \<open>\<open>filepath.Dir\<close>: all but the last element, cleaned.\<close>

definition Dir :: "string \<Rightarrow> string" where
  "Dir path = Clean (rev (dropWhile (\<lambda>c. c \<noteq> slash) (rev path)))"

section \<open>Pieces of regular expressions\<close>

text \<open>The class \<open>\s\<close> of Go regular expressions.\<close>

definition re_space :: "char \<Rightarrow> bool" where
  "re_space c \<longleftrightarrow> char_code c \<in> {9, 10, 12, 13, 32}"

definition word_char :: "char \<Rightarrow> bool" where
  "word_char c \<longleftrightarrow> is_lower_alpha c \<or> is_upper_alpha c \<or> is_digit c \<or> c = CHR ''_''"

text \<open>Each piece consumes a prefix and returns the rest. The classes used never contain the first
  character of what follows them, so the longest match is the only one that can succeed.\<close>

definition re_lit :: "string \<Rightarrow> string \<Rightarrow> string option" where
  "re_lit p s = (if prefix p s then Some (drop (length p) s) else None)"

definition re_star :: "(char \<Rightarrow> bool) \<Rightarrow> string \<Rightarrow> string option" where
  "re_star P s = Some (dropWhile P s)"

definition re_plus :: "(char \<Rightarrow> bool) \<Rightarrow> string \<Rightarrow> string option" where
  "re_plus P s = (if s \<noteq> [] \<and> P (hd s) then Some (dropWhile P s) else None)"

fun re_seq :: "(string \<Rightarrow> string option) list \<Rightarrow> string \<Rightarrow> string option" where
  "re_seq [] s = Some s"
| "re_seq (r # rs) s = (case r s of None \<Rightarrow> None | Some s' \<Rightarrow> re_seq rs s')"

section \<open>Sorting\<close>

text \<open>Go's string order: bytewise lexicographic.\<close>

fun string_less :: "string \<Rightarrow> string \<Rightarrow> bool" where
  "string_less s [] = False"
| "string_less [] (d # t) = True"
| "string_less (c # s) (d # t) =
     (char_code c < char_code d \<or> (c = d \<and> string_less s t))"

text \<open>\<open>%d\<close>.\<close>

definition digit_char :: "nat \<Rightarrow> char" where
  "digit_char d = char_of (48 + d)"

fun dec :: "nat \<Rightarrow> string" where
  "dec n = (if n < 10 then [digit_char n] else dec (n div 10) @ [digit_char (n mod 10)])"

declare dec.simps [simp del]

definition fmt_d :: "int \<Rightarrow> string" where
  "fmt_d n = (if n < 0 then CHR ''-'' # dec (nat (- n)) else dec (nat n))"

text \<open>\<open>sort.SliceStable\<close> as insertion from the right, which keeps equal elements in order.\<close>

fun insert_stable :: "('a \<Rightarrow> 'a \<Rightarrow> bool) \<Rightarrow> 'a \<Rightarrow> 'a list \<Rightarrow> 'a list" where
  "insert_stable lt x [] = [x]"
| "insert_stable lt x (y # ys) = (if lt y x then y # insert_stable lt x ys else x # y # ys)"

fun sort_stable :: "('a \<Rightarrow> 'a \<Rightarrow> bool) \<Rightarrow> 'a list \<Rightarrow> 'a list" where
  "sort_stable lt [] = []"
| "sort_stable lt (x # xs) = insert_stable lt x (sort_stable lt xs)"

section \<open>Facts\<close>

lemma mset_insert_stable: "mset (insert_stable lt x xs) = add_mset x (mset xs)"
  by (induction lt x xs rule: insert_stable.induct) auto

lemma mset_sort_stable [simp]: "mset (sort_stable lt xs) = mset xs"
  by (induction lt xs rule: sort_stable.induct) (auto simp: mset_insert_stable)

lemma set_sort_stable [simp]: "set (sort_stable lt xs) = set xs"
  using mset_sort_stable [of lt xs] mset_eq_setD by blast

lemma distinct_sort_stable [simp]: "distinct (sort_stable lt xs) \<longleftrightarrow> distinct xs"
  using mset_sort_stable [of lt xs] mset_eq_imp_distinct_iff by blast

lemma sort_stable_sorted_wrt:
  assumes "\<And>a b. lt a b \<Longrightarrow> \<not> lt b a" "\<And>a b c. \<not> lt b a \<Longrightarrow> \<not> lt c b \<Longrightarrow> \<not> lt c a"
  shows "sorted_wrt (\<lambda>a b. \<not> lt b a) (sort_stable lt xs)"
proof -
  have "sorted_wrt (\<lambda>a b. \<not> lt b a) (insert_stable lt x ys)" if "sorted_wrt (\<lambda>a b. \<not> lt b a) ys" for x ys
    using that
  proof (induction ys)
    case (Cons y ys)
    have "set (insert_stable lt x ys) = insert x (set ys)" by (metis mset_insert_stable set_mset_add_mset_insert set_mset_mset)
    moreover from Cons.prems have "\<forall>z \<in> set ys. \<not> lt z x" if "\<not> lt y x" using assms(2) [OF that] by simp
    ultimately show ?case using Cons assms(1) [of y x] by simp
  qed simp
  then show ?thesis by (induction xs) simp_all
qed

lemma string_less_trans: "string_less s t \<Longrightarrow> string_less t u \<Longrightarrow> string_less s u"
proof (induction s t arbitrary: u rule: string_less.induct)
  case (1 s)
  then show ?case by simp
next
  case (2 d t)
  then show ?case by (cases u) auto
next
  case (3 c s d t)
  then show ?case by (cases u) (auto dest: order.strict_trans)
qed

lemma string_less_total: "s \<noteq> t \<Longrightarrow> \<not> string_less s t \<Longrightarrow> string_less t s"
  by (induction s t rule: string_less.induct) (auto simp: neq_Nil_conv not_less order.order_iff_strict)

lemma Contains_sublist: "Contains s p \<longleftrightarrow> sublist p s"
proof (induction s)
  case Nil
  then show ?case by simp
next
  case (Cons c s)
  then show ?case by (auto simp: sublist_Cons_right)
qed

lemma Contains_empty [simp]: "Contains s []"
  by (simp add: Contains_sublist)

lemma Contains_refl [simp]: "Contains s s"
  by (simp add: Contains_sublist)

lemma length_TrimSpace: "length (TrimSpace s) \<le> length s"
proof -
  have "length (TrimSpace s) \<le> length (dropWhile is_space s)"
    unfolding TrimSpace_def by (metis length_dropWhile_le length_rev)
  also have "\<dots> \<le> length s" by (rule length_dropWhile_le)
  finally show ?thesis .
qed

lemma dropWhile_idem: "dropWhile P (dropWhile P xs) = dropWhile P xs"
  by (induction xs) auto

lemma hd_dropWhile_rev:
  "xs = [] \<or> \<not> P (hd xs) \<Longrightarrow> dropWhile P (rev (dropWhile P (rev xs))) = rev (dropWhile P (rev xs))"
proof (induction xs rule: rev_induct)
  case Nil
  then show ?case by simp
next
  case (snoc x xs)
  then show ?case by (cases xs) (auto simp: dropWhile_eq_self_iff)
qed

lemma TrimSpace_idem [simp]: "TrimSpace (TrimSpace s) = TrimSpace s"
proof -
  let ?t = "dropWhile is_space s"
  have "?t = [] \<or> \<not> is_space (hd ?t)"
    by (metis hd_dropWhile)
  then have "dropWhile is_space (TrimSpace s) = TrimSpace s"
    unfolding TrimSpace_def by (rule hd_dropWhile_rev)
  then have "TrimSpace (TrimSpace s) = rev (dropWhile is_space (rev (TrimSpace s)))"
    unfolding TrimSpace_def by simp
  also have "\<dots> = TrimSpace s"
    unfolding TrimSpace_def by (simp add: dropWhile_idem)
  finally show ?thesis .
qed

lemma split_acc_not_Nil [simp]: "split_acc sep acc s \<noteq> []"
  by (induction sep acc s rule: split_acc.induct) auto

lemma Split_not_Nil [simp]: "Split s sep \<noteq> []"
  by (simp add: Split_def)

lemma Join_Cons: "xs \<noteq> [] \<Longrightarrow> Join (x # xs) sep = x @ sep @ Join xs sep"
  by (cases xs) auto

lemma Join_append:
  "xs \<noteq> [] \<Longrightarrow> ys \<noteq> [] \<Longrightarrow> Join (xs @ ys) sep = Join xs sep @ sep @ Join ys sep"
proof (induction xs)
  case Nil
  then show ?case by simp
next
  case (Cons x xs)
  then show ?case by (cases "xs = []") (auto simp: Join_Cons)
qed

lemma Join_split_acc: "Join (split_acc sep acc s) [sep] = rev acc @ s"
  by (induction sep acc s rule: split_acc.induct) (auto simp: Join_Cons)

text \<open>Splitting and joining with the same separator is the identity.\<close>

lemma Join_Split [simp]: "Join (Split s sep) [sep] = s"
  by (simp add: Split_def Join_split_acc)

lemma split_acc_no_sep: "l \<in> set (split_acc sep acc s) \<Longrightarrow> sep \<notin> set acc \<Longrightarrow> sep \<notin> set l"
  by (induction sep acc s rule: split_acc.induct) (auto split: if_splits)

lemma Split_no_sep: "l \<in> set (Split s sep) \<Longrightarrow> sep \<notin> set l"
  by (auto simp: Split_def dest: split_acc_no_sep)

lemma split_acc_append_no_sep:
  "sep \<notin> set x \<Longrightarrow> split_acc sep acc (x @ sep # s) = (rev acc @ x) # split_acc sep [] s"
  by (induction x arbitrary: acc) auto

lemma split_acc_end: "sep \<notin> set x \<Longrightarrow> split_acc sep acc x = [rev acc @ x]"
  by (induction x arbitrary: acc) auto

lemma Split_Join:
  "xs \<noteq> [] \<Longrightarrow> (\<forall>x \<in> set xs. sep \<notin> set x) \<Longrightarrow> Split (Join xs [sep]) sep = xs"
proof (induction xs)
  case Nil
  then show ?case by simp
next
  case (Cons x xs)
  then show ?case
    by (cases "xs = []")
      (auto simp: Split_def Join_Cons split_acc_end split_acc_append_no_sep)
qed

lemma Replace1_not_contained: "\<not> Contains s old \<Longrightarrow> Replace1 s old new = s"
  by (induction s) auto

lemma Replace1_split:
  "Contains s old \<Longrightarrow> \<exists>us vs. s = us @ old @ vs \<and> Replace1 s old new = us @ new @ vs"
proof (induction s)
  case Nil
  then show ?case by auto
next
  case (Cons c s)
  show ?case
  proof (cases "prefix old (c # s)")
    case True
    then obtain vs where vs: "c # s = old @ vs" by (auto simp: prefix_def)
    have "Replace1 (c # s) old new = new @ drop (length old) (c # s)" using True by simp
    with vs show ?thesis by (intro exI [of _ "[]"] exI [of _ vs]) (simp del: Replace1.simps)
  next
    case False
    with Cons.prems have "Contains s old" by simp
    from Cons.IH [OF this] obtain us vs
      where "s = us @ old @ vs" "Replace1 s old new = us @ new @ vs" by blast
    with False show ?thesis by (intro exI [of _ "c # us"] exI [of _ vs]) auto
  qed
qed

lemma count_from_pos_iff: "p \<noteq> [] \<Longrightarrow> 0 < count_from s p \<longleftrightarrow> Contains s p"
  by (induction s p rule: count_from.induct) auto

lemma Count_pos: "0 < Count s p \<longleftrightarrow> Contains s p"
  by (auto simp: Count_def count_from_pos_iff)

lemma ToLower_idem [simp]: "ToLower (ToLower s) = ToLower s"
proof -
  have "lower_char (lower_char c) = lower_char c" for c
    by (auto simp: lower_char_def is_upper_alpha_def)
  then show ?thesis by (simp add: ToLower_def)
qed

lemma length_ToLower [simp]: "length (ToLower s) = length s"
  by (simp add: ToLower_def)

end
