(* ===== verification/Domain.thy ===== *)
theory Domain
  imports Go_Strings
begin

text \<open>
  The data model of \<open>src/pkg/domain\<close>: tasks, agents, stories, review records and the state
  record that the orchestrator persists, and the operations the package defines on them
  (the bounded action log, the state summary, the token breakdown).

  String-typed Go enumerations are datatypes with the Go constants as constructors. A
  \<open>time.Time\<close> is a natural number whose 0 is Go's zero time, so that \<open>IsZero\<close> is
  \<open>t = 0\<close>, \<open>Before\<close> is \<open><\<close> and \<open>After\<close> is \<open>>\<close>; a pointer field is an option; a nil
  slice is the empty list. A decoded JSON value of type \<open>any\<close> is a tree of \<open>gany\<close>.
\<close>

section \<open>Tasks\<close>

type_synonym gtime = nat

datatype TaskStatus = TaskPending | TaskInProgress | TaskSuccess | TaskFailed
  | TaskConflictBlocked | TaskConflictFailed | TaskInterrupted | TaskDeferred | TaskSkipped

datatype ChangeType = ChangeTypeFeature | ChangeTypeFix | ChangeTypeBreaking

datatype FailureStage = FailureStageAntiStub | FailureStageLinter | FailureStageUnitTest
  | FailureStageE2E | FailureStageGitCommit | FailureStageQA

record TaskFailureEnvelope =
  env_Stage :: FailureStage
  env_Command :: string
  env_ExitCode :: int
  env_Stdout :: string
  env_Stderr :: string
  env_FailingFiles :: "string list"
  env_WorktreeDiff :: string
  env_Timestamp :: gtime

record Task =
  task_ID :: string
  task_Title :: string
  task_Description :: string
  task_Status :: TaskStatus
  task_ChangeType :: ChangeType
  task_AssignedTo :: string
  task_Progress :: int
  task_DependsOn :: "string list"
  task_TargetFiles :: "string list"
  task_PartialChangelog :: "string list"
  task_FailureLog :: string
  task_FailureEnvelope :: "TaskFailureEnvelope option"
  task_RecoveryDirective :: string
  task_UserDirectives :: "string list"
  task_StallCount :: int
  task_LastResortUsed :: bool
  task_FallbackUsed :: bool
  task_Retries :: int
  task_MaxRetries :: int
  task_StoryID :: string
  task_Complexity :: string
  task_ModelUpgrades :: int
  task_ParentTaskID :: string
  task_InputTokens :: int
  task_OutputTokens :: int
  task_TokensUsed :: int
  task_StartedAt :: "gtime option"
  task_CompletedAt :: "gtime option"
  task_CreatedAt :: gtime
  task_UpdatedAt :: gtime

text \<open>The Go zero value of a task with the given identifier, title and status set, as a
  composite literal leaves the other fields.\<close>

definition mk_task :: "string \<Rightarrow> string \<Rightarrow> TaskStatus \<Rightarrow> Task" where
  "mk_task i t st = \<lparr>task_ID = i, task_Title = t, task_Description = [], task_Status = st,
     task_ChangeType = ChangeTypeFeature, task_AssignedTo = [], task_Progress = 0,
     task_DependsOn = [], task_TargetFiles = [], task_PartialChangelog = [],
     task_FailureLog = [], task_FailureEnvelope = None, task_RecoveryDirective = [],
     task_UserDirectives = [], task_StallCount = 0, task_LastResortUsed = False,
     task_FallbackUsed = False, task_Retries = 0, task_MaxRetries = 0, task_StoryID = [],
     task_Complexity = [], task_ModelUpgrades = 0, task_ParentTaskID = [],
     task_InputTokens = 0, task_OutputTokens = 0, task_TokensUsed = 0,
     task_StartedAt = None, task_CompletedAt = None, task_CreatedAt = 0, task_UpdatedAt = 0\<rparr>"

section \<open>Agents, stories and bookkeeping records\<close>

datatype ValidationType = ValidationCommand | ValidationFileExists | ValidationFileContent

record ValidationCriterion =
  crit_ID :: string
  crit_Type :: ValidationType
  crit_Expression :: string
  crit_Description :: string
  crit_Passed :: bool
  crit_ErrorLog :: string

datatype AgentRole = AgentRolePlanner | AgentRoleGenerator | AgentRoleTester | AgentRoleQA
  | AgentRoleResolver | AgentRoleUnblocker | AgentRoleLastResort | AgentRoleFallback
  | AgentRoleAuditor

datatype AgentStatus = AgentIdle | AgentWorking | AgentCompleted

record Agent =
  agent_ID :: string
  agent_Name :: string
  agent_Role :: AgentRole
  agent_Status :: AgentStatus
  agent_TaskID :: string
  agent_StartedAt :: gtime
  agent_CompletedAt :: gtime
  agent_InputTokens :: int
  agent_OutputTokens :: int
  agent_TokensUsed :: int
  agent_LastError :: string

record FileInfo =
  file_Path :: string
  file_Size :: int
  file_LastModified :: gtime

datatype BuildStatus = BuildPassing | BuildFailing | BuildUnknown

record StateMetadata =
  meta_InputSource :: string
  meta_InputPath :: string
  meta_IntegrationBranch :: string
  meta_FeatureName :: string
  meta_BaseBranch :: string
  meta_ProjectVersion :: string
  meta_TotalInputTokens :: int
  meta_TotalOutputTokens :: int
  meta_TotalTokensUsed :: int

datatype StoryStatus = StoryIdle | StoryPending | StoryRunning | StorySuccess | StoryFailed
  | StoryPaused | StoryCancelled | StoryDeferred

record Story =
  story_ID :: string
  story_StateID :: string
  story_Title :: string
  story_FilePath :: string
  story_Status :: StoryStatus
  story_StartedAt :: "gtime option"
  story_CompletedAt :: "gtime option"
  story_InputTokens :: int
  story_OutputTokens :: int
  story_TokensUsed :: int
  story_CreatedAt :: gtime
  story_UpdatedAt :: gtime

record StoryOrder =
  order_ID :: string
  order_Prompt :: string
  order_StoryPath :: string
  order_Status :: string
  order_CreatedAt :: gtime
  order_UpdatedAt :: gtime

record Clarification =
  clar_ID :: string
  clar_Question :: string
  clar_Answer :: string
  clar_Resolved :: bool
  clar_AskedAt :: gtime
  clar_TaskID :: string

text \<open>Decoded JSON values (\<open>any\<close>); a number carries its integer value.\<close>

datatype gany = GNil | GBool bool | GNum int | GStr string | GList "gany list"
  | GMap "(string \<times> gany) list"

record Action =
  act_ID :: string
  act_Timestamp :: gtime
  act_Tool :: string
  act_Args :: "(string \<times> gany) list"
  act_Reasoning :: string
  act_Result :: string
  act_Success :: bool

section \<open>Public contracts and quality reviews\<close>

record PublicContract =
  pc_ID :: string
  pc_Interface :: string
  pc_ApplicablePathPrefixes :: "string list"
  pc_AllowedExecutables :: "string list"
  pc_ExitCodes :: "int list"
  pc_StdoutContains :: "string list"
  pc_StderrPrefixes :: "string list"
  pc_HTTPMethod :: string
  pc_HTTPPath :: string
  pc_HTTPBody :: string
  pc_ExpectedStatus :: int
  pc_ExpectedResponseBody :: string
  pc_BrunoBru :: string
  pc_RequestFormat :: string
  pc_RequestFrames :: "string list"
  pc_RequestExamples :: "string list"

record StoryContract =
  sc_StoryID :: string
  sc_SourcePath :: string
  sc_SourceSHA256 :: string
  sc_PublicContracts :: "PublicContract list"

datatype ReviewStatus = ReviewWorking | ReviewPass | ReviewFindings | ReviewSkipped
  | ReviewInconclusive | ReviewBudgetExhausted | ReviewError | ReviewInterrupted

record ArtifactManifestEntry =
  am_Path :: string
  am_SHA256 :: string

record ReviewPhase =
  rp_ID :: string
  rp_StoryID :: string
  rp_TaskID :: string
  rp_Role :: string
  rp_ArtifactID :: string
  rp_ArtifactManifest :: "ArtifactManifestEntry list"
  rp_Attempt :: int
  rp_Status :: ReviewStatus
  rp_TerminalReason :: string
  rp_StartedAt :: gtime
  rp_DeadlineAt :: gtime
  rp_CompletedAt :: gtime
  rp_InputTokens :: int
  rp_OutputTokens :: int
  rp_TokensUsed :: int

record QAStep =
  qs_Command :: "string list"
  qs_Stdin :: string
  qs_ExpectedExitCode :: int
  qs_StdoutContains :: "string list"
  qs_StderrPrefix :: string

record QAScenario =
  qsc_ID :: string
  qsc_ReviewPhaseID :: string
  qsc_PublicContractID :: string
  qsc_Name :: string
  qsc_Fingerprint :: string
  qsc_Steps :: "QAStep list"
  qsc_Status :: ReviewStatus
  qsc_Evidence :: string

record QAFinding =
  qf_ID :: string
  qf_ReviewPhaseID :: string
  qf_TaskID :: string
  qf_ArtifactID :: string
  qf_ScenarioFingerprint :: string
  qf_PublicContractID :: string
  qf_Severity :: string
  qf_Expected :: string
  qf_Actual :: string
  qf_Evidence :: string
  qf_Disposition :: string

section \<open>The state record\<close>

record State =
  st_ID :: string
  st_ProjectPath :: string
  st_Version :: int
  st_Clarifications :: "Clarification list"
  st_ValidationCriteria :: "ValidationCriterion list"
  st_Stories :: "Story list"
  st_Tasks :: "Task list"
  st_ActiveAgents :: "Agent list"
  st_Files :: "FileInfo list"
  st_BuildStatus :: BuildStatus
  st_LastActions :: "Action list"
  st_Metadata :: StateMetadata
  st_StoryStatus :: StoryStatus
  st_StoryError :: string
  st_StoryContracts :: "StoryContract list"
  st_ReviewPhases :: "ReviewPhase list"
  st_QAScenarios :: "QAScenario list"
  st_QAFindings :: "QAFinding list"
  st_Orders :: "StoryOrder list"

definition empty_metadata :: StateMetadata where
  "empty_metadata = \<lparr>meta_InputSource = [], meta_InputPath = [], meta_IntegrationBranch = [],
     meta_FeatureName = [], meta_BaseBranch = [], meta_ProjectVersion = [],
     meta_TotalInputTokens = 0, meta_TotalOutputTokens = 0, meta_TotalTokensUsed = 0\<rparr>"

text \<open>A state with the given tasks and every other field at its Go zero value.\<close>

definition mk_state :: "Task list \<Rightarrow> State" where
  "mk_state ts = \<lparr>st_ID = [], st_ProjectPath = [], st_Version = 0, st_Clarifications = [],
     st_ValidationCriteria = [], st_Stories = [], st_Tasks = ts, st_ActiveAgents = [],
     st_Files = [], st_BuildStatus = BuildUnknown, st_LastActions = [],
     st_Metadata = empty_metadata, st_StoryStatus = StoryIdle, st_StoryError = [],
     st_StoryContracts = [], st_ReviewPhases = [], st_QAScenarios = [], st_QAFindings = [],
     st_Orders = []\<rparr>"

section \<open>The bounded action log\<close>

definition MaxLastActions :: nat where
  "MaxLastActions = 200"

definition MaxActionResultChars :: nat where
  "MaxActionResultChars = 4000"

text \<open>The marker starts with the three UTF-8 bytes of the ellipsis character.\<close>

definition truncationMarker :: string where
  "truncationMarker = map char_of [226, 128, 166 :: nat] @ ''[truncated]''"

definition TruncateActionResult :: "string \<Rightarrow> string" where
  "TruncateActionResult result =
     (if length result \<le> MaxActionResultChars then result
      else let keep = MaxActionResultChars - length truncationMarker
           in truncationMarker @ drop (length result - keep) result)"

text \<open>\<open>uuid\<close> is the fresh identifier that \<open>uuid.New()\<close> supplies.\<close>

definition AppendAction :: "string \<Rightarrow> State \<Rightarrow> Action \<Rightarrow> State" where
  "AppendAction uuid state action =
     (let a1 = (if act_ID action = [] then action\<lparr>act_ID := uuid\<rparr> else action);
          a2 = a1\<lparr>act_Result := TruncateActionResult (act_Result a1)\<rparr>;
          acts = st_LastActions state @ [a2]
      in state\<lparr>st_LastActions :=
           (if length acts > MaxLastActions then drop (length acts - MaxLastActions) acts
            else acts)\<rparr>)"

section \<open>State summaries\<close>

definition IsTerminal :: "StoryStatus \<Rightarrow> bool" where
  "IsTerminal s \<longleftrightarrow> s = StorySuccess \<or> s = StoryFailed"

record StateSummary =
  sum_ID :: string
  sum_FeatureName :: string
  sum_InputPath :: string
  sum_IntegrationBranch :: string
  sum_BaseBranch :: string
  sum_StoryStatus :: StoryStatus
  sum_StoryError :: string
  sum_BuildStatus :: BuildStatus
  sum_Version :: int
  sum_TotalTasks :: nat
  sum_TaskCounts :: "TaskStatus \<Rightarrow> nat"
  sum_CreatedAt :: gtime
  sum_UpdatedAt :: gtime

definition summarize_task :: "StateSummary \<Rightarrow> Task \<Rightarrow> StateSummary" where
  "summarize_task sm t =
     (let sm1 = sm\<lparr>sum_TaskCounts := (sum_TaskCounts sm)
                     (task_Status t := Suc (sum_TaskCounts sm (task_Status t)))\<rparr>;
          sm2 = (if sum_CreatedAt sm1 = 0
                   \<or> (task_CreatedAt t \<noteq> 0 \<and> task_CreatedAt t < sum_CreatedAt sm1)
                 then sm1\<lparr>sum_CreatedAt := task_CreatedAt t\<rparr> else sm1)
      in if sum_UpdatedAt sm2 < task_UpdatedAt t then sm2\<lparr>sum_UpdatedAt := task_UpdatedAt t\<rparr>
         else sm2)"

definition SummarizeState :: "State \<Rightarrow> StateSummary" where
  "SummarizeState s =
     foldl summarize_task
       \<lparr>sum_ID = st_ID s, sum_FeatureName = meta_FeatureName (st_Metadata s),
        sum_InputPath = meta_InputPath (st_Metadata s),
        sum_IntegrationBranch = meta_IntegrationBranch (st_Metadata s),
        sum_BaseBranch = meta_BaseBranch (st_Metadata s),
        sum_StoryStatus = st_StoryStatus s, sum_StoryError = st_StoryError s,
        sum_BuildStatus = st_BuildStatus s, sum_Version = st_Version s,
        sum_TotalTasks = length (st_Tasks s), sum_TaskCounts = (\<lambda>_. 0),
        sum_CreatedAt = 0, sum_UpdatedAt = 0\<rparr>
       (st_Tasks s)"

section \<open>Facts on the action log\<close>

lemma length_truncationMarker [simp]: "length truncationMarker = 14"
  by (simp add: truncationMarker_def)

lemma length_TruncateActionResult: "length (TruncateActionResult r) \<le> MaxActionResultChars"
  by (simp add: TruncateActionResult_def MaxActionResultChars_def Let_def)

lemma TruncateActionResult_idem: "TruncateActionResult (TruncateActionResult r) = TruncateActionResult r"
  using length_TruncateActionResult [of r] by (simp add: TruncateActionResult_def [of "TruncateActionResult r"])

lemma length_AppendAction: "length (st_LastActions (AppendAction u s a)) \<le> MaxLastActions"
  by (simp add: AppendAction_def Let_def MaxLastActions_def)

section \<open>Facts on state summaries\<close>

lemma summarize_counts:
  "sum_TaskCounts (foldl summarize_task sm ts) k
   = sum_TaskCounts sm k + length (filter (\<lambda>t. task_Status t = k) ts)"
  by (induction ts arbitrary: sm) (auto simp: summarize_task_def Let_def)

lemma summarize_updated:
  "sum_UpdatedAt (foldl summarize_task sm ts) = Max (insert (sum_UpdatedAt sm) (task_UpdatedAt ` set ts))"
proof (induction ts arbitrary: sm)
  case Nil
  then show ?case by simp
next
  case (Cons t ts)
  have "sum_UpdatedAt (summarize_task sm t) = max (sum_UpdatedAt sm) (task_UpdatedAt t)"
    by (auto simp: summarize_task_def Let_def)
  with Cons.IH [of "summarize_task sm t"] show ?case
    by (cases "ts = []") (auto simp: Max_insert max.assoc max.commute max.left_commute)
qed

end
