(* ===== verification/Story_Ids.thy ===== *)
theory Story_Ids
  imports Go_Strings
begin

text \<open>
  Story and task identifiers: the regular expression \<open>(?i)US-(\d+)\<close> that finds a story number
  in a path (\<open>story_dag_scheduler.go\<close>), the story index of the task scheduler
  (\<open>scheduler.go\<close>) and the syntactic tests on dependency strings (\<open>task_dependencies.go\<close>).
\<close>

section \<open>Story identifiers\<close>

text \<open>The leftmost match of the expression: the digits of its group.\<close>

fun storyIDFromPathRE :: "string \<Rightarrow> string option" where
  "storyIDFromPathRE [] = None"
| "storyIDFromPathRE (c # s) =
     (if prefix ''us-'' (ToLower (c # s)) \<and> takeWhile is_digit (drop 3 (c # s)) \<noteq> []
      then Some (takeWhile is_digit (drop 3 (c # s)))
      else storyIDFromPathRE s)"

text \<open>\<open>fmt.Sprintf("US-%03s", m)\<close> pads the digits on the left with zeros to width three.\<close>

definition pad3 :: "string \<Rightarrow> string" where
  "pad3 s = replicate (3 - length s) (CHR ''0'') @ s"

definition ExtractStoryID :: "string \<Rightarrow> string" where
  "ExtractStoryID path =
     (case storyIDFromPathRE (Base path) of Some m \<Rightarrow> ''US-'' @ pad3 m | None \<Rightarrow> [])"

definition digit_val :: "char \<Rightarrow> int" where
  "digit_val c = int (char_code c) - 48"

fun digits_val :: "int \<Rightarrow> string \<Rightarrow> int" where
  "digits_val acc [] = acc"
| "digits_val acc (c # s) = digits_val (acc * 10 + digit_val c) s"

text \<open>\<open>strconv.Atoi\<close> fails on a number beyond the range of \<open>int\<close>; the caller then returns 0.\<close>

definition ExtractStorySequence :: "string \<Rightarrow> int" where
  "ExtractStorySequence pathOrID =
     (case storyIDFromPathRE (Base pathOrID) of
        Some m \<Rightarrow> (if digits_val 0 m < 2 ^ 63 then digits_val 0 m else 0)
      | None \<Rightarrow> 0)"

text \<open>The scheduler's own story index: every digit of the identifier, accumulated in an
  \<open>int\<close> that wraps around.\<close>

fun story_index_acc :: "int \<Rightarrow> string \<Rightarrow> int" where
  "story_index_acc num [] = num"
| "story_index_acc num (c # s) =
     story_index_acc (if is_digit c then wrap64 (num * 10 + digit_val c) else num) s"

definition parseStoryIndex :: "string \<Rightarrow> int" where
  "parseStoryIndex storyID = (if storyID = [] then 0 else story_index_acc 0 storyID)"

section \<open>Dependency references\<close>

definition isTaskReference :: "string \<Rightarrow> bool" where
  "isTaskReference dep =
     (let upper = ToUpper (TrimSpace dep)
      in Contains upper ''-TASK-'' \<or> Contains upper ''TASK-'' \<or> HasPrefix upper ''TASK-'')"

definition isStoryReference :: "string \<Rightarrow> bool" where
  "isStoryReference dep =
     (if isTaskReference dep then False
      else HasPrefix (ToUpper dep) ''US-'' \<or> Contains (ToUpper dep) ''US-''
        \<or> HasPrefix (ToLower dep) ''roadmap/'')"

section \<open>Facts\<close>

lemma storyIDFromPathRE_digits:
  "storyIDFromPathRE s = Some m \<Longrightarrow> m \<noteq> [] \<and> (\<forall>c \<in> set m. is_digit c)"
  by (induction s) (auto split: if_splits dest: set_takeWhileD)

lemma story_index_acc_digits:
  "\<forall>c \<in> set s. is_digit c \<Longrightarrow> story_index_acc (wrap64 a) s = wrap64 (digits_val a s)"
  by (induction s arbitrary: a) (auto simp: digits_val.simps)

lemma digits_val_pad0: "digits_val 0 (replicate n (CHR ''0'') @ s) = digits_val 0 s"
  by (induction n) (auto simp: digit_val_def)

lemma is_digit_bounds: "is_digit c \<Longrightarrow> 0 \<le> digit_val c \<and> digit_val c \<le> 9"
  by (auto simp: is_digit_def digit_val_def)

lemma digits_val_nonneg: "\<forall>c \<in> set s. is_digit c \<Longrightarrow> 0 \<le> a \<Longrightarrow> 0 \<le> digits_val a s"
  by (induction s arbitrary: a) (auto dest: is_digit_bounds)

end
