(* ===== verification/File_Locks.thy ===== *)
theory File_Locks
  imports Prelude
begin

text \<open>
  The file lock registry of \<open>src/pkg/services/scheduler.go\<close>. Its mutex makes each method one
  atomic step, so the registry is a map from file paths to the task that holds them and each
  method is a function on that map.

  The locale \<open>lock_table\<close> states what the task scheduler relies on; its lemmas say that a
  grant is exclusive and survives the grants to other tasks. The registry interprets it.
\<close>

section \<open>The registry\<close>

type_synonym locks = "string \<rightharpoonup> string"

definition NewFileLockRegistry :: locks where
  "NewFileLockRegistry = Map.empty"

definition TryAcquireLocks :: "locks \<Rightarrow> string \<Rightarrow> string list \<Rightarrow> bool \<times> locks" where
  "TryAcquireLocks locks taskID files =
     (if list_ex (\<lambda>file. case locks file of Some holder \<Rightarrow> holder \<noteq> taskID | None \<Rightarrow> False) files
      then (False, locks)
      else (True, fold (\<lambda>file m. m(file \<mapsto> taskID)) files locks))"

definition ReleaseLocks :: "locks \<Rightarrow> string \<Rightarrow> locks" where
  "ReleaseLocks locks taskID =
     (\<lambda>file. case locks file of Some holder \<Rightarrow> if holder = taskID then None else Some holder
                             | None \<Rightarrow> None)"

section \<open>The contract of a lock table\<close>

locale lock_table =
  fixes acquire :: "'s \<Rightarrow> 't \<Rightarrow> 'f list \<Rightarrow> bool \<times> 's"
    and release :: "'s \<Rightarrow> 't \<Rightarrow> 's"
    and holder :: "'s \<Rightarrow> 'f \<Rightarrow> 't option"
  assumes grant_iff: "fst (acquire s t fs) \<longleftrightarrow> (\<forall>f \<in> set fs. holder s f = None \<or> holder s f = Some t)"
    and grant_holder: "fst (acquire s t fs) \<Longrightarrow>
      holder (snd (acquire s t fs)) f = (if f \<in> set fs then Some t else holder s f)"
    and refuse_same: "\<not> fst (acquire s t fs) \<Longrightarrow> snd (acquire s t fs) = s"
    and release_holder: "holder (release s t) f = (if holder s f = Some t then None else holder s f)"
begin

definition owns :: "'s \<Rightarrow> 't \<Rightarrow> 'f list \<Rightarrow> bool" where
  "owns s t fs \<longleftrightarrow> (\<forall>f \<in> set fs. holder s f = Some t)"

lemma owns_after_grant: "fst (acquire s t fs) \<Longrightarrow> owns (snd (acquire s t fs)) t fs"
  by (simp add: owns_def grant_holder)

lemma grant_excludes: "owns s t fs \<Longrightarrow> fst (acquire s t' fs') \<Longrightarrow> t \<noteq> t' \<Longrightarrow> set fs \<inter> set fs' = {}"
  by (auto simp: owns_def grant_iff)

lemma owns_kept: "owns s t fs \<Longrightarrow> owns (snd (acquire s t' fs')) t fs"
  by (cases "fst (acquire s t' fs')") (auto simp: owns_def grant_holder grant_iff refuse_same)

lemma owns_disjoint: "owns s t fs \<Longrightarrow> owns s t' fs' \<Longrightarrow> t \<noteq> t' \<Longrightarrow> set fs \<inter> set fs' = {}"
  by (auto simp: owns_def)

lemma owns_release_other: "owns s t fs \<Longrightarrow> t \<noteq> t' \<Longrightarrow> owns (release s t') t fs"
  by (auto simp: owns_def release_holder)

lemma release_frees: "fst (acquire s t' fs) \<or> (\<exists>f \<in> set fs. \<exists>h. holder s f = Some h \<and> h \<noteq> t \<and> h \<noteq> t')
    \<or> fst (acquire (release s t) t' fs)"
  by (auto simp: grant_iff release_holder)

end

section \<open>The registry is a lock table\<close>

lemma fold_lock_upd:
  "fold (\<lambda>file m. m(file \<mapsto> t)) files locks f = (if f \<in> set files then Some t else locks f)"
  by (induction files arbitrary: locks) auto

lemma TryAcquireLocks_granted:
  "fst (TryAcquireLocks l t fs) \<longleftrightarrow> (\<forall>f \<in> set fs. l f = None \<or> l f = Some t)"
proof -
  have "(case l f of Some holder \<Rightarrow> holder \<noteq> t | None \<Rightarrow> False) \<longleftrightarrow> \<not> (l f = None \<or> l f = Some t)" for f
    by (cases "l f") auto
  then show ?thesis by (auto simp: TryAcquireLocks_def list_ex_iff)
qed

interpretation registry: lock_table TryAcquireLocks ReleaseLocks "\<lambda>l. l"
proof unfold_locales
  show "fst (TryAcquireLocks s t fs) \<longleftrightarrow> (\<forall>f \<in> set fs. s f = None \<or> s f = Some t)" for s t fs
    by (rule TryAcquireLocks_granted)
  show "fst (TryAcquireLocks s t fs) \<Longrightarrow>
      snd (TryAcquireLocks s t fs) f = (if f \<in> set fs then Some t else s f)" for s t fs f
    by (auto simp: TryAcquireLocks_def fold_lock_upd split: if_splits)
  show "\<not> fst (TryAcquireLocks s t fs) \<Longrightarrow> snd (TryAcquireLocks s t fs) = s" for s t fs
    by (auto simp: TryAcquireLocks_def split: if_splits)
  show "ReleaseLocks s t f = (if s f = Some t then None else s f)" for s t f
    by (auto simp: ReleaseLocks_def split: option.splits)
qed

end
