(* ===== verification/Task_Dag.thy ===== *)
theory Task_Dag
  imports Domain Story_Ids
begin

text \<open>
  \<open>ResolveAndSortTasks\<close> of \<open>src/pkg/services/dag.go\<close>: dependency strings are resolved to task
  identifiers, then a depth-first search with three colours (0 unvisited, 1 on the stack,
  2 finished) emits the tasks in post-order and reports a cycle when it meets a task that is
  still on the stack.

  The recursive closure \<open>dfs\<close> of the Go code is modelled with fuel. Each nested call turns one
  more task identifier from 0 to 1, so the number of tasks is enough fuel; \<open>dfs_spec\<close> proves
  that under this bound the fuel never runs out, that success leaves a topological order and
  that a reported cycle is a real one.
\<close>

section \<open>The model\<close>

datatype dag_error = DuplicateTitle string | UnresolvedPrerequisite string string
  | CycleDetected string | DagOutOfFuel

fun build_titleMap :: "Task list \<Rightarrow> (string \<rightharpoonup> string) \<Rightarrow> dag_error + (string \<rightharpoonup> string)" where
  "build_titleMap [] m = Inr m"
| "build_titleMap (t # ts) m =
     (case m (task_Title t) of
        Some existingID \<Rightarrow>
          if existingID \<noteq> task_ID t then Inl (DuplicateTitle (task_Title t))
          else build_titleMap ts (m(task_Title t \<mapsto> task_ID t))
      | None \<Rightarrow> build_titleMap ts (m(task_Title t \<mapsto> task_ID t)))"

definition idMap :: "Task list \<Rightarrow> (string \<rightharpoonup> string)" where
  "idMap ts = (\<lambda>i. if i \<in> set (map task_ID ts) then Some i else None)"

fun resolve_deps ::
  "(string \<rightharpoonup> string) \<Rightarrow> (string \<rightharpoonup> string) \<Rightarrow> string \<Rightarrow> string list \<Rightarrow> dag_error + string list" where
  "resolve_deps titles ids title [] = Inr []"
| "resolve_deps titles ids title (dep # deps) =
     (case titles dep of
        Some i \<Rightarrow> map_sum id ((#) i) (resolve_deps titles ids title deps)
      | None \<Rightarrow>
         (case ids dep of
            Some i \<Rightarrow> map_sum id ((#) i) (resolve_deps titles ids title deps)
          | None \<Rightarrow>
              if isTaskReference dep \<and> ExtractStoryID dep \<noteq> []
              then resolve_deps titles ids title deps
              else Inl (UnresolvedPrerequisite title dep)))"

fun build_adj ::
  "(string \<rightharpoonup> string) \<Rightarrow> (string \<rightharpoonup> string) \<Rightarrow> Task list \<Rightarrow> (string \<Rightarrow> string list)
   \<Rightarrow> dag_error + (string \<Rightarrow> string list)" where
  "build_adj titles ids [] adj = Inr adj"
| "build_adj titles ids (t # ts) adj =
     (case resolve_deps titles ids (task_Title t) (task_DependsOn t) of
        Inl e \<Rightarrow> Inl e
      | Inr deps \<Rightarrow> build_adj titles ids ts (adj(task_ID t := deps)))"

type_synonym dfs_state = "(string \<Rightarrow> nat) \<times> string list"

fun dfs :: "nat \<Rightarrow> (string \<Rightarrow> string list) \<Rightarrow> string \<Rightarrow> dfs_state \<Rightarrow> dag_error + dfs_state"
  and dfs_deps ::
    "nat \<Rightarrow> (string \<Rightarrow> string list) \<Rightarrow> string \<Rightarrow> string list \<Rightarrow> dfs_state \<Rightarrow> dag_error + dfs_state"
where
  "dfs 0 adj node st = Inl DagOutOfFuel"
| "dfs (Suc n) adj node st =
     (case dfs_deps n adj node (adj node) ((fst st)(node := 1), snd st) of
        Inl e \<Rightarrow> Inl e
      | Inr st' \<Rightarrow> Inr ((fst st')(node := 2), snd st' @ [node]))"
| "dfs_deps n adj node [] st = Inr st"
| "dfs_deps n adj node (dep # deps) st =
     (if fst st dep = 1 then Inl (CycleDetected node)
      else if fst st dep = 0 then
        (case dfs n adj dep st of
           Inl e \<Rightarrow> Inl e
         | Inr st' \<Rightarrow> dfs_deps n adj node deps st')
      else dfs_deps n adj node deps st)"

fun dfs_tasks :: "nat \<Rightarrow> (string \<Rightarrow> string list) \<Rightarrow> string list \<Rightarrow> dfs_state \<Rightarrow> dag_error + dfs_state" where
  "dfs_tasks n adj [] st = Inr st"
| "dfs_tasks n adj (i # is) st =
     (if fst st i = 0 then
        (case dfs n adj i st of Inl e \<Rightarrow> Inl e | Inr st' \<Rightarrow> dfs_tasks n adj is st')
      else dfs_tasks n adj is st)"

text \<open>\<open>taskMap\<close>: the last task with an identifier wins, as repeated map assignment does.\<close>

definition taskMap :: "Task list \<Rightarrow> (string \<rightharpoonup> Task)" where
  "taskMap ts = map_of (rev (map (\<lambda>t. (task_ID t, t)) ts))"

definition ResolveAndSortTasks :: "Task list \<Rightarrow> dag_error + Task list" where
  "ResolveAndSortTasks tasks =
     (case build_titleMap tasks Map.empty of
        Inl e \<Rightarrow> Inl e
      | Inr titles \<Rightarrow>
         (case build_adj titles (idMap tasks) tasks (\<lambda>_. []) of
            Inl e \<Rightarrow> Inl e
          | Inr adj \<Rightarrow>
             (case dfs_tasks (length tasks) adj (map task_ID tasks) (\<lambda>_. 0, []) of
                Inl e \<Rightarrow> Inl e
              | Inr st \<Rightarrow> Inr (map (\<lambda>i. the (taskMap tasks i)) (snd st)))))"

text \<open>Sample plans for the witnesses: a task before its prerequisite, and a two-task cycle.\<close>

definition sample_base :: Task where
  "sample_base = mk_task ''T1'' ''base'' TaskPending"

definition sample_top :: Task where
  "sample_top = (mk_task ''T2'' ''top'' TaskPending)\<lparr>task_DependsOn := [''base'', ''US-001-TASK-9'']\<rparr>"

definition sample_cycle :: "Task list" where
  "sample_cycle = [sample_base\<lparr>task_DependsOn := [''T2'']\<rparr>, sample_top]"

section \<open>Topological orders\<close>

definition topo :: "('a \<Rightarrow> 'a list) \<Rightarrow> 'a list \<Rightarrow> bool" where
  "topo adj xs \<longleftrightarrow> (\<forall>i < length xs. set (adj (xs ! i)) \<subseteq> set (take i xs))"

lemma topo_Nil [simp]: "topo adj []"
  by (simp add: topo_def)

lemma topo_snoc [simp]: "topo adj (xs @ [x]) \<longleftrightarrow> topo adj xs \<and> set (adj x) \<subseteq> set xs"
  by (auto simp: topo_def nth_append less_Suc_eq)

definition edges :: "('a \<Rightarrow> 'a list) \<Rightarrow> ('a \<times> 'a) set" where
  "edges adj = {(u, d). d \<in> set (adj u)}"

text \<open>A topological order excludes cycles among its elements.\<close>

lemma topo_edge_earlier:
  assumes "topo adj xs" "distinct xs" "i < length xs" "(xs ! i, d) \<in> (edges adj)\<^sup>+"
  shows "d \<in> set (take i xs)"
  using assms(4)
proof (induction rule: trancl_induct)
  case (base d)
  with assms(1,3) show ?case by (auto simp: topo_def edges_def)
next
  case (step d e)
  then obtain j where j: "j < i" "j < length xs" "d = xs ! j"
    by (auto simp: in_set_conv_nth)
  with step.hyps(2) assms(1) have "e \<in> set (take j xs)"
    by (auto simp: topo_def edges_def)
  with j(1) show ?case using set_take_subset_set_take [of j i xs] by auto
qed

lemma topo_acyclic: "topo adj xs \<Longrightarrow> distinct xs \<Longrightarrow> x \<in> set xs \<Longrightarrow> (x, x) \<notin> (edges adj)\<^sup>+"
proof
  assume a: "topo adj xs" "distinct xs" "x \<in> set xs" "(x, x) \<in> (edges adj)\<^sup>+"
  then obtain i where i: "i < length xs" "x = xs ! i" by (auto simp: in_set_conv_nth)
  with a have "xs ! i \<in> set (take i xs)" by (metis topo_edge_earlier)
  with i a(2) show False by (auto simp: in_set_conv_nth nth_eq_iff_index_eq)
qed

section \<open>The depth-first search\<close>

text \<open>The search invariant: three colours, the output lists the finished nodes once each, in
  topological order.\<close>

definition dfs_inv :: "(string \<Rightarrow> string list) \<Rightarrow> dfs_state \<Rightarrow> bool" where
  "dfs_inv adj st \<longleftrightarrow> (\<forall>x. fst st x \<le> 2) \<and> set (snd st) = {x. fst st x = 2}
     \<and> distinct (snd st) \<and> topo adj (snd st)"

definition greys :: "dfs_state \<Rightarrow> string set" where
  "greys st = {x. fst st x = 1}"

definition whites :: "string set \<Rightarrow> dfs_state \<Rightarrow> string set" where
  "whites U st = {x \<in> U. fst st x = 0}"

text \<open>What a search from a white node may answer: a later state with the same stack, or a cycle.\<close>

definition dfs_post ::
  "(string \<Rightarrow> string list) \<Rightarrow> string set \<Rightarrow> dfs_state \<Rightarrow> (dag_error + dfs_state) \<Rightarrow> bool" where
  "dfs_post adj U st r \<longleftrightarrow>
     (case r of
        Inl e \<Rightarrow> \<exists>c. e = CycleDetected c \<and> (c, c) \<in> (edges adj)\<^sup>+
      | Inr st' \<Rightarrow> dfs_inv adj st' \<and> greys st' = greys st \<and> set (snd st) \<subseteq> set (snd st')
          \<and> whites U st' \<subseteq> whites U st \<and> set (snd st') \<subseteq> set (snd st) \<union> U)"

lemma dfs_post_trans:
  "dfs_post adj U st (Inr st') \<Longrightarrow> dfs_post adj U st' r \<Longrightarrow> dfs_post adj U st r"
  by (auto simp: dfs_post_def split: sum.splits)

lemma not_grey_white: "dfs_inv adj st \<Longrightarrow> fst st d \<noteq> 1 \<Longrightarrow> fst st d \<noteq> 0 \<Longrightarrow> d \<in> set (snd st)"
proof -
  assume a: "dfs_inv adj st" "fst st d \<noteq> 1" "fst st d \<noteq> 0"
  then have "fst st d \<le> 2" by (simp add: dfs_inv_def)
  with a(2,3) have "fst st d = 2" by arith
  with a(1) show ?thesis by (simp add: dfs_inv_def)
qed

abbreviation closed_under :: "(string \<Rightarrow> string list) \<Rightarrow> string set \<Rightarrow> bool" where
  "closed_under adj U \<equiv> finite U \<and> (\<forall>u \<in> U. set (adj u) \<subseteq> U)"

lemma dfs_enter:
  assumes "closed_under adj U" "node \<in> U" "fst st node = 0" "dfs_inv adj st"
    and "card (whites U st) \<le> Suc n"
  defines "st1 \<equiv> ((fst st)(node := 1), snd st)"
  shows "dfs_inv adj st1" "card (whites U st1) \<le> n" "greys st1 = insert node (greys st)"
proof -
  have "whites U st1 = whites U st - {node}"
    by (auto simp: whites_def st1_def)
  moreover have "node \<in> whites U st" "finite (whites U st)"
    using assms by (auto simp: whites_def)
  ultimately show "card (whites U st1) \<le> n" using assms(5) by (simp add: card_Diff_singleton)
  show "dfs_inv adj st1" "greys st1 = insert node (greys st)"
    using assms(3,4) by (auto simp: dfs_inv_def greys_def st1_def split: if_splits)
qed

lemma dfs_leave:
  assumes "node \<in> U" "fst st node = 0" "dfs_post adj U ((fst st)(node := 1), snd st) (Inr st')"
    and "set (adj node) \<subseteq> set (snd st')"
  shows "dfs_post adj U st (Inr ((fst st')(node := 2), snd st' @ [node]))"
proof -
  have inv: "dfs_inv adj st'" and g: "greys st' = insert node (greys st)"
    using assms(2,3) by (auto simp: dfs_post_def greys_def)
  then have "fst st' node = 1" by (auto simp: greys_def)
  then have "node \<notin> set (snd st')" using inv by (auto simp: dfs_inv_def)
  then have "dfs_inv adj ((fst st')(node := 2), snd st' @ [node])"
    using inv assms(4) by (auto simp: dfs_inv_def)
  moreover have "greys ((fst st')(node := 2), snd st' @ [node]) = greys st"
    using g assms(2) by (auto simp: greys_def split: if_splits)
  ultimately show ?thesis
    using assms by (auto simp: dfs_post_def whites_def)
qed

lemma trancl_edge: "d \<in> set (adj u) \<Longrightarrow> (g, u) \<in> (edges adj)\<^sup>* \<Longrightarrow> (g, d) \<in> (edges adj)\<^sup>+"
  by (rule rtrancl_into_trancl1) (auto simp: edges_def)

lemma dfs_spec:
  shows "closed_under adj U \<Longrightarrow> node \<in> U \<Longrightarrow> fst st node = 0 \<Longrightarrow> dfs_inv adj st
      \<Longrightarrow> card (whites U st) \<le> n \<Longrightarrow> \<forall>g \<in> greys st. (g, node) \<in> (edges adj)\<^sup>+
      \<Longrightarrow> dfs_post adj U st (dfs n adj node st)
        \<and> (\<forall>st'. dfs n adj node st = Inr st' \<longrightarrow> node \<in> set (snd st'))"
    and "closed_under adj U \<Longrightarrow> node \<in> U \<Longrightarrow> set deps \<subseteq> set (adj node) \<Longrightarrow> dfs_inv adj st
      \<Longrightarrow> card (whites U st) \<le> n \<Longrightarrow> \<forall>g \<in> greys st. (g, node) \<in> (edges adj)\<^sup>*
      \<Longrightarrow> dfs_post adj U st (dfs_deps n adj node deps st)
        \<and> (\<forall>st'. dfs_deps n adj node deps st = Inr st' \<longrightarrow> set deps \<subseteq> set (snd st'))"
proof (induction n adj node st and n adj node deps st rule: dfs_dfs_deps.induct)
  case (1 adj node st)
  then have "node \<in> whites U st" "finite (whites U st)" by (auto simp: whites_def)
  with 1 show ?case by auto
next
  case (2 n adj node st)
  let ?st1 = "((fst st)(node := 1), snd st)"
  note enter = dfs_enter [OF 2(2-6)]
  have "\<forall>g \<in> greys ?st1. (g, node) \<in> (edges adj)\<^sup>*"
    using enter(3) 2(7) by (auto intro: trancl_into_rtrancl)
  from 2(1) [OF 2(2,3) subset_refl enter(1,2) this]
  have post: "dfs_post adj U ?st1 (dfs_deps n adj node (adj node) ?st1)"
    and fin: "\<And>st'. dfs_deps n adj node (adj node) ?st1 = Inr st' \<Longrightarrow> set (adj node) \<subseteq> set (snd st')"
    by auto
  show ?case
  proof (cases "dfs_deps n adj node (adj node) ?st1")
    case (Inl e)
    with post show ?thesis by (simp add: dfs_post_def)
  next
    case (Inr st')
    have "dfs_post adj U st (Inr ((fst st')(node := 2), snd st' @ [node]))"
      using dfs_leave [OF 2(3,4)] post fin Inr by metis
    with Inr show ?thesis by simp
  qed
next
  case (3 n adj node st)
  then show ?case by (simp add: dfs_post_def)
next
  case (4 n adj node dep deps st)
  have dep: "dep \<in> set (adj node)" "dep \<in> U" and deps: "set deps \<subseteq> set (adj node)"
    using 4(4-6) by auto
  consider (grey) "fst st dep = 1" | (white) "fst st dep = 0" | (black) "fst st dep \<noteq> 1" "fst st dep \<noteq> 0"
    by blast
  then show ?case
  proof cases
    case grey
    then have "(node, node) \<in> (edges adj)\<^sup>+"
      using 4(9) dep(1) by (auto simp: greys_def edges_def intro: rtrancl_into_trancl2)
    with grey show ?thesis by (simp add: dfs_post_def)
  next
    case white
    have "\<forall>g \<in> greys st. (g, dep) \<in> (edges adj)\<^sup>+" using 4(9) trancl_edge [of dep adj node, OF dep(1)] by blast
    with 4(1) white dep 4(4,7,8)
    have post: "dfs_post adj U st (dfs n adj dep st)"
      and fin: "\<And>st'. dfs n adj dep st = Inr st' \<Longrightarrow> dep \<in> set (snd st')" by auto
    show ?thesis
    proof (cases "dfs n adj dep st")
      case (Inl e)
      with post white show ?thesis by (simp add: dfs_post_def)
    next
      case (Inr st')
      with post have post': "dfs_post adj U st (Inr st')" by simp
      then have inv: "dfs_inv adj st'" and gr: "greys st' = greys st"
        and wh: "whites U st' \<subseteq> whites U st" by (auto simp: dfs_post_def)
      have "finite (whites U st)" using 4(4) by (auto simp: whites_def)
      with wh 4(8) have "card (whites U st') \<le> n" by (meson card_mono le_trans)
      with 4(2) [of st'] white Inr 4(4,5,9) deps inv gr
      have r: "dfs_post adj U st' (dfs_deps n adj node deps st')"
        and rd: "\<And>st''. dfs_deps n adj node deps st' = Inr st'' \<Longrightarrow> set deps \<subseteq> set (snd st'')"
        by auto
      have "set (snd st') \<subseteq> set (snd st'')" if "dfs_deps n adj node deps st' = Inr st''" for st''
        using r that by (simp add: dfs_post_def)
      with dfs_post_trans [OF post' r] rd fin Inr white show ?thesis by fastforce
    qed
  next
    case black
    then have "dep \<in> set (snd st)" using 4(7) not_grey_white by blast
    moreover have r: "dfs_post adj U st (dfs_deps n adj node deps st)"
      and rd: "\<And>st''. dfs_deps n adj node deps st = Inr st'' \<Longrightarrow> set deps \<subseteq> set (snd st'')"
      using 4(3) black 4(4,5,7,8,9) deps by auto
    ultimately show ?thesis using black by (fastforce simp: dfs_post_def)
  qed
qed

lemma dfs_tasks_spec:
  "closed_under adj U \<Longrightarrow> set is \<subseteq> U \<Longrightarrow> dfs_inv adj st \<Longrightarrow> greys st = {}
   \<Longrightarrow> card (whites U st) \<le> n
   \<Longrightarrow> dfs_post adj U st (dfs_tasks n adj is st)
     \<and> (\<forall>st'. dfs_tasks n adj is st = Inr st' \<longrightarrow> set is \<subseteq> set (snd st'))"
proof (induction n adj "is" st rule: dfs_tasks.induct)
  case (1 n adj st)
  then show ?case by (simp add: dfs_post_def)
next
  case (2 n adj i "is" st)
  show ?case
  proof (cases "fst st i = 0")
    case True
    have first: "dfs_post adj U st (dfs n adj i st)"
      and fin: "\<And>st'. dfs n adj i st = Inr st' \<Longrightarrow> i \<in> set (snd st')"
      using dfs_spec(1) [where adj = adj and U = U and node = i and st = st and n = n] True 2(3-7) by auto
    have rest: "dfs_post adj U st' (dfs_tasks n adj is st')
        \<and> (\<forall>st''. dfs_tasks n adj is st' = Inr st'' \<longrightarrow> set is \<subseteq> set (snd st''))"
      if "dfs_post adj U st (Inr st')" "dfs n adj i st = Inr st'" for st'
    proof (rule 2(1) [OF True that(2)])
      show "card (whites U st') \<le> n"
        using that(1) 2(3,7) card_mono [of "whites U st" "whites U st'"]
        by (auto simp: dfs_post_def whites_def)
    qed (use that(1) 2(3,4,6) in \<open>auto simp: dfs_post_def\<close>)
    show ?thesis
    proof (cases "dfs n adj i st")
      case (Inl e)
      with first True show ?thesis by (simp add: dfs_post_def)
    next
      case (Inr st')
      with rest [of st'] first have r: "dfs_post adj U st' (dfs_tasks n adj is st')"
        and rd: "\<And>st''. dfs_tasks n adj is st' = Inr st'' \<Longrightarrow> set is \<subseteq> set (snd st'')" by auto
      have "set (snd st') \<subseteq> set (snd st'')" if "dfs_tasks n adj is st' = Inr st''" for st''
        using r that by (simp add: dfs_post_def)
      with dfs_post_trans [of adj U st st'] first r rd fin Inr True show ?thesis by fastforce
    qed
  next
    case False
    have "fst st i \<noteq> 1" using 2(6) by (auto simp: greys_def)
    with False 2(5) have "i \<in> set (snd st)" by (metis not_grey_white)
    moreover have r: "dfs_post adj U st (dfs_tasks n adj is st)"
      and rd: "\<And>st'. dfs_tasks n adj is st = Inr st' \<Longrightarrow> set is \<subseteq> set (snd st')"
      using 2(2) [OF False 2(3)] 2(4-7) by auto
    moreover have "set (snd st) \<subseteq> set (snd st')" if "dfs_tasks n adj is st = Inr st'" for st'
      using r that by (simp add: dfs_post_def)
    ultimately show ?thesis using False by auto
  qed
qed

section \<open>Resolution of dependency strings\<close>

text \<open>A dependency names the task with that title, or else the task with that identifier.\<close>

definition names :: "Task list \<Rightarrow> string \<Rightarrow> Task \<Rightarrow> bool" where
  "names ts dep u \<longleftrightarrow> u \<in> set ts \<and>
     (task_Title u = dep \<or> (task_ID u = dep \<and> dep \<notin> task_Title ` set ts))"

definition dep_rel :: "Task list \<Rightarrow> (string \<times> string) set" where
  "dep_rel ts = {(task_ID t, task_ID u) | t u dep. t \<in> set ts \<and> dep \<in> set (task_DependsOn t) \<and> names ts dep u}"

definition external_dep :: "string \<Rightarrow> bool" where
  "external_dep dep \<longleftrightarrow> isTaskReference dep \<and> ExtractStoryID dep \<noteq> []"

definition resolvable :: "Task list \<Rightarrow> string \<Rightarrow> bool" where
  "resolvable ts dep \<longleftrightarrow> (\<exists>u. names ts dep u) \<or> external_dep dep"

lemma build_titleMap_keeps: "build_titleMap ts m = Inr m' \<Longrightarrow> m x = Some i \<Longrightarrow> m' x = Some i"
proof (induction ts m rule: build_titleMap.induct)
  case (2 t ts m)
  from 2(3,4) have "(m(task_Title t \<mapsto> task_ID t)) x = Some i"
    by (auto split: option.splits if_splits)
  with 2 show ?case by (auto split: option.splits if_splits simp del: fun_upd_apply)
qed simp

lemma build_titleMap_entry:
  "build_titleMap ts m = Inr m' \<Longrightarrow> t \<in> set ts \<Longrightarrow> m' (task_Title t) = Some (task_ID t)"
  by (induction ts m rule: build_titleMap.induct)
    (auto split: option.splits if_splits intro: build_titleMap_keeps)

lemma build_titleMap_origin:
  "build_titleMap ts m = Inr m' \<Longrightarrow> m' x = Some i
   \<Longrightarrow> m x = Some i \<or> (\<exists>t \<in> set ts. task_Title t = x \<and> task_ID t = i)"
  by (induction ts m rule: build_titleMap.induct) (auto split: option.splits if_splits)

lemma build_titleMap_ok:
  "\<forall>t \<in> set ts. m (task_Title t) = None \<Longrightarrow> distinct (map task_Title ts)
   \<Longrightarrow> \<exists>m'. build_titleMap ts m = Inr m'"
proof (induction ts m rule: build_titleMap.induct)
  case (2 t ts m)
  from 2(4) have "\<forall>u \<in> set ts. task_Title u \<noteq> task_Title t" by (auto simp: image_iff)
  with 2(3) have "\<forall>u \<in> set ts. (m(task_Title t \<mapsto> task_ID t)) (task_Title u) = None" by simp
  with 2 show ?case by (simp del: fun_upd_apply)
qed simp

text \<open>A duplicate title is that of two tasks with different identifiers.\<close>

lemma build_titleMap_clash:
  "build_titleMap ts m = Inl e \<Longrightarrow> (\<And>x i. m x = Some i \<Longrightarrow> \<exists>t \<in> set pre. task_Title t = x \<and> task_ID t = i)
     \<Longrightarrow> \<exists>t \<in> set (pre @ ts). \<exists>u \<in> set (pre @ ts). e = DuplicateTitle (task_Title u) \<and> task_Title t = task_Title u \<and> task_ID t \<noteq> task_ID u"
proof (induction ts arbitrary: m pre)
  case (Cons t ts)
  show ?case
  proof (cases "\<exists>i. m (task_Title t) = Some i \<and> i \<noteq> task_ID t")
    case True
    then obtain i where i: "m (task_Title t) = Some i" "i \<noteq> task_ID t" by blast
    from Cons.prems(2) [OF i(1)] obtain x where "x \<in> set pre" "task_Title x = task_Title t" "task_ID x = i" by blast
    with i Cons.prems(1) show ?thesis by auto
  next
    case False
    with Cons.prems(1) have run: "build_titleMap ts (m(task_Title t \<mapsto> task_ID t)) = Inl e" by (auto split: option.splits)
    have "\<exists>u \<in> set (pre @ [t]). task_Title u = x \<and> task_ID u = i" if "(m(task_Title t \<mapsto> task_ID t)) x = Some i" for x i
      using that Cons.prems(2) [of x i] by (auto split: if_splits)
    from Cons.IH [OF run this] show ?thesis by simp
  qed
qed simp

lemma build_titleMap_error:
  "build_titleMap ts Map.empty = Inl e \<Longrightarrow> \<exists>t \<in> set ts. \<exists>u \<in> set ts. e = DuplicateTitle (task_Title u)
     \<and> task_Title t = task_Title u \<and> task_ID t \<noteq> task_ID u"
  using build_titleMap_clash [of ts Map.empty e "[]"] by simp

lemma titleMap_Some_iff:
  "build_titleMap ts Map.empty = Inr m
   \<Longrightarrow> m x = Some i \<longleftrightarrow> (\<exists>t \<in> set ts. task_Title t = x \<and> task_ID t = i)"
  using build_titleMap_origin [of ts Map.empty m x i] build_titleMap_entry [of ts Map.empty m] by fastforce

lemma titleMap_None_iff:
  "build_titleMap ts Map.empty = Inr m \<Longrightarrow> m x = None \<longleftrightarrow> x \<notin> task_Title ` set ts"
  using titleMap_Some_iff [of ts m x] by (cases "m x") auto

lemma set_resolve_deps:
  "resolve_deps T I title deps = Inr ds
   \<Longrightarrow> set ds = {i. \<exists>dep \<in> set deps. T dep = Some i \<or> (T dep = None \<and> I dep = Some i)}"
  by (induction T I title deps arbitrary: ds rule: resolve_deps.induct)
    (auto split: option.splits if_splits sum.splits simp: map_sum_def)

lemma resolve_deps_ok_iff:
  "(\<exists>ds. resolve_deps T I title deps = Inr ds)
   \<longleftrightarrow> (\<forall>dep \<in> set deps. T dep \<noteq> None \<or> I dep \<noteq> None \<or> external_dep dep)"
proof (induction T I title deps rule: resolve_deps.induct)
  case (1 T I title)
  then show ?case by simp
next
  case (2 T I title dep deps)
  have ms: "(\<exists>ds. map_sum id ((#) i) r = Inr ds) \<longleftrightarrow> (\<exists>ds. r = Inr ds)" for i and r :: "dag_error + string list"
    by (cases r) auto
  show ?case using 2 by (auto simp: ms external_dep_def split: option.splits)
qed

lemma resolve_deps_error:
  "resolve_deps T I title deps = Inl e \<Longrightarrow> \<exists>dep \<in> set deps. e = UnresolvedPrerequisite title dep
     \<and> T dep = None \<and> I dep = None \<and> \<not> external_dep dep"
proof (induction T I title deps rule: resolve_deps.induct)
  case (2 T I title dep deps)
  have ms: "map_sum id ((#) i) r = Inl e \<longleftrightarrow> r = Inl e" for i and r :: "dag_error + string list"
    by (cases r) auto
  from 2 show ?case by (auto simp: ms external_dep_def split: option.splits if_splits)
qed simp

lemma build_adj_origin:
  "build_adj T I ts adj = Inr adj' \<Longrightarrow> adj' u = adj u \<or>
     (\<exists>t \<in> set ts. task_ID t = u \<and> resolve_deps T I (task_Title t) (task_DependsOn t) = Inr (adj' u))"
  by (induction T I ts adj rule: build_adj.induct) (fastforce split: sum.splits if_splits)+

lemma build_adj_other: "build_adj T I ts adj = Inr adj' \<Longrightarrow> u \<notin> task_ID ` set ts \<Longrightarrow> adj' u = adj u"
  by (induction T I ts adj rule: build_adj.induct) (auto split: sum.splits)

lemma build_adj_entry:
  "build_adj T I ts adj = Inr adj' \<Longrightarrow> distinct (map task_ID ts) \<Longrightarrow> t \<in> set ts
   \<Longrightarrow> resolve_deps T I (task_Title t) (task_DependsOn t) = Inr (adj' (task_ID t))"
  by (induction T I ts adj rule: build_adj.induct)
    (auto split: sum.splits dest: build_adj_other)

lemma build_adj_error:
  "build_adj T I ts adj = Inl e
   \<Longrightarrow> \<exists>t \<in> set ts. resolve_deps T I (task_Title t) (task_DependsOn t) = Inl e"
  by (induction T I ts adj rule: build_adj.induct) (auto split: sum.splits)

section \<open>The sorted task list\<close>

lemma ResolveAndSortTasks_OkE:
  assumes "ResolveAndSortTasks ts = Inr out"
  obtains titles adj st where "build_titleMap ts Map.empty = Inr titles"
    and "build_adj titles (idMap ts) ts (\<lambda>_. []) = Inr adj"
    and "dfs_tasks (length ts) adj (map task_ID ts) (\<lambda>_. 0, []) = Inr st"
    and "out = map (\<lambda>i. the (taskMap ts i)) (snd st)"
  using assms by (auto simp: ResolveAndSortTasks_def split: sum.splits)

lemma idMap_Some_iff: "idMap ts x = Some i \<longleftrightarrow> i = x \<and> x \<in> task_ID ` set ts"
  by (auto simp: idMap_def)

lemma resolves_names:
  assumes "build_titleMap ts Map.empty = Inr titles"
  shows "(titles dep = Some i \<or> (titles dep = None \<and> idMap ts dep = Some i))
    \<longleftrightarrow> (\<exists>u. names ts dep u \<and> task_ID u = i)"
  using titleMap_Some_iff [OF assms, of dep i] titleMap_None_iff [OF assms, of dep]
  by (auto simp: idMap_Some_iff names_def)

lemma unresolved_names:
  assumes "build_titleMap ts Map.empty = Inr titles"
  shows "titles dep = None \<and> idMap ts dep = None \<longleftrightarrow> (\<forall>u. \<not> names ts dep u)"
  using titleMap_None_iff [OF assms, of dep] by (auto simp: idMap_def names_def)

lemma set_resolved:
  assumes "build_titleMap ts Map.empty = Inr titles"
    and "resolve_deps titles (idMap ts) title deps = Inr ds"
  shows "set ds = {task_ID u | u dep. dep \<in> set deps \<and> names ts dep u}"
  using set_resolve_deps [OF assms(2)] resolves_names [OF assms(1)] by auto

lemma edges_sound:
  assumes "build_titleMap ts Map.empty = Inr titles"
    and "build_adj titles (idMap ts) ts (\<lambda>_. []) = Inr adj"
  shows "edges adj \<subseteq> dep_rel ts"
proof
  fix e assume "e \<in> edges adj"
  then obtain u d where e: "e = (u, d)" and d: "d \<in> set (adj u)" by (auto simp: edges_def)
  with build_adj_origin [OF assms(2), of u] obtain t
    where "t \<in> set ts" "task_ID t = u"
      "resolve_deps titles (idMap ts) (task_Title t) (task_DependsOn t) = Inr (adj u)" by auto
  with set_resolved [OF assms(1)] d e show "e \<in> dep_rel ts" by (fastforce simp: dep_rel_def)
qed

lemma edges_complete:
  assumes "build_titleMap ts Map.empty = Inr titles"
    and "build_adj titles (idMap ts) ts (\<lambda>_. []) = Inr adj"
    and "distinct (map task_ID ts)" "t \<in> set ts" "dep \<in> set (task_DependsOn t)" "names ts dep u"
  shows "task_ID u \<in> set (adj (task_ID t))"
  using set_resolved [OF assms(1) build_adj_entry [OF assms(2-4)]] assms(5,6) by auto

lemma adj_closed:
  assumes "build_titleMap ts Map.empty = Inr titles"
    and "build_adj titles (idMap ts) ts (\<lambda>_. []) = Inr adj"
  shows "closed_under adj (task_ID ` set ts)"
  using edges_sound [OF assms] by (auto simp: edges_def dep_rel_def names_def)

lemma dfs_run:
  assumes "build_titleMap ts Map.empty = Inr titles"
    and "build_adj titles (idMap ts) ts (\<lambda>_. []) = Inr adj"
  shows "dfs_post adj (task_ID ` set ts) (\<lambda>_. 0, [])
      (dfs_tasks (length ts) adj (map task_ID ts) (\<lambda>_. 0, []))"
    and "dfs_tasks (length ts) adj (map task_ID ts) (\<lambda>_. 0, []) = Inr st
      \<Longrightarrow> set (snd st) = task_ID ` set ts \<and> dfs_inv adj st"
proof -
  let ?U = "task_ID ` set ts" and ?st = "((\<lambda>_. 0, []) :: dfs_state)"
  have "card (whites ?U ?st) \<le> length ts"
    using card_length [of "map task_ID ts"] by (simp add: whites_def)
  then have r: "dfs_post adj ?U ?st (dfs_tasks (length ts) adj (map task_ID ts) ?st)
      \<and> (\<forall>st'. dfs_tasks (length ts) adj (map task_ID ts) ?st = Inr st'
            \<longrightarrow> set (map task_ID ts) \<subseteq> set (snd st'))"
    by (intro dfs_tasks_spec adj_closed [OF assms]) (auto simp: dfs_inv_def greys_def)
  then show "dfs_post adj ?U ?st (dfs_tasks (length ts) adj (map task_ID ts) ?st)" by simp
  show "set (snd st) = ?U \<and> dfs_inv adj st"
    if "dfs_tasks (length ts) adj (map task_ID ts) ?st = Inr st"
    using r that by (auto simp: dfs_post_def)
qed

lemma taskMap_distinct: "distinct (map task_ID ts) \<Longrightarrow> t \<in> set ts \<Longrightarrow> taskMap ts (task_ID t) = Some t"
  unfolding taskMap_def by (rule map_of_is_SomeI) (auto simp: comp_def rev_map [symmetric])

lemma task_ID_taskMap: "i \<in> task_ID ` set ts \<Longrightarrow> task_ID (the (taskMap ts i)) = i \<and> the (taskMap ts i) \<in> set ts"
proof -
  assume "i \<in> task_ID ` set ts"
  then have "taskMap ts i \<noteq> None" by (auto simp: taskMap_def map_of_eq_None_iff image_iff)
  then obtain t where "taskMap ts i = Some t" by auto
  then show ?thesis by (auto simp: taskMap_def dest!: map_of_SomeD)
qed

text \<open>The identifiers of the answer are the depth-first order.\<close>

lemma ResolveAndSortTasks_ids:
  assumes "ResolveAndSortTasks ts = Inr out"
  obtains titles adj where "build_titleMap ts Map.empty = Inr titles"
    and "build_adj titles (idMap ts) ts (\<lambda>_. []) = Inr adj"
    and "set (map task_ID out) = task_ID ` set ts" "distinct (map task_ID out)"
    and "topo adj (map task_ID out)" "set out \<subseteq> set ts"
proof -
  from assms obtain titles adj st where t: "build_titleMap ts Map.empty = Inr titles"
    and a: "build_adj titles (idMap ts) ts (\<lambda>_. []) = Inr adj"
    and d: "dfs_tasks (length ts) adj (map task_ID ts) (\<lambda>_. 0, []) = Inr st"
    and o: "out = map (\<lambda>i. the (taskMap ts i)) (snd st)"
    by (rule ResolveAndSortTasks_OkE)
  from dfs_run(2) [OF t a d] have s: "set (snd st) = task_ID ` set ts" and inv: "dfs_inv adj st"
    by auto
  have "map task_ID out = snd st"
    unfolding o map_map by (rule map_idI) (use s task_ID_taskMap in auto)
  moreover have "set out \<subseteq> set ts" unfolding o using s task_ID_taskMap by auto
  ultimately show ?thesis using that [OF t a] s inv by (auto simp: dfs_inv_def)
qed

lemma ResolveAndSortTasks_mset:
  assumes "ResolveAndSortTasks ts = Inr out" "distinct (map task_ID ts)"
  shows "mset out = mset ts"
proof -
  from assms(1) obtain titles adj where ids: "set (map task_ID out) = task_ID ` set ts"
      "distinct (map task_ID out)"
    and sub: "set out \<subseteq> set ts" by (rule ResolveAndSortTasks_ids)
  have "set ts \<subseteq> set out"
  proof
    fix t assume t: "t \<in> set ts"
    then have "task_ID t \<in> task_ID ` set out" using ids(1) by simp
    then obtain u where "u \<in> set out" "task_ID u = task_ID t" by auto
    with t sub assms(2) have "u = t" by (meson distinct_map inj_on_eq_iff subsetD)
    with \<open>u \<in> set out\<close> show "t \<in> set out" by simp
  qed
  with sub ids(2) assms(2) show ?thesis
    by (auto simp: distinct_map set_eq_iff_mset_eq_distinct [symmetric])
qed

lemma sort_error_cases:
  assumes "ResolveAndSortTasks ts = Inl e"
  shows "build_titleMap ts Map.empty = Inl e
    \<or> (\<exists>t \<in> set ts. \<exists>dep \<in> set (task_DependsOn t).
         e = UnresolvedPrerequisite (task_Title t) dep \<and> \<not> resolvable ts dep)
    \<or> (\<exists>c. e = CycleDetected c \<and> (c, c) \<in> (dep_rel ts)\<^sup>+)"
proof (cases "build_titleMap ts Map.empty")
  case (Inl e')
  with assms show ?thesis by (simp add: ResolveAndSortTasks_def)
next
  case t: (Inr titles)
  show ?thesis
  proof (cases "build_adj titles (idMap ts) ts (\<lambda>_. [])")
    case (Inl e')
    with assms t have "e' = e" by (simp add: ResolveAndSortTasks_def)
    with build_adj_error [OF Inl] obtain u where u: "u \<in> set ts"
      "resolve_deps titles (idMap ts) (task_Title u) (task_DependsOn u) = Inl e" by auto
    from resolve_deps_error [OF u(2)] obtain dep where dep: "dep \<in> set (task_DependsOn u)"
      "e = UnresolvedPrerequisite (task_Title u) dep" "titles dep = None \<and> idMap ts dep = None"
      "\<not> external_dep dep" by auto
    from dep(3,4) have "\<not> resolvable ts dep" unfolding unresolved_names [OF t] resolvable_def by blast
    with u(1) dep(1,2) show ?thesis by blast
  next
    case a: (Inr adj)
    with t assms have "dfs_tasks (length ts) adj (map task_ID ts) (\<lambda>_. 0, []) = Inl e"
      by (auto simp: ResolveAndSortTasks_def split: sum.splits)
    with dfs_run(1) [OF t a] obtain c where "e = CycleDetected c" "(c, c) \<in> (edges adj)\<^sup>+"
      by (auto simp: dfs_post_def)
    with trancl_mono [OF _ edges_sound [OF t a]] show ?thesis by blast
  qed
qed

section \<open>Properties\<close>

text \<open>C1: When every task has its own identifier and the sort succeeds, the answer is a
  permutation of the input in which every task that a dependency names (by title, or by
  identifier when no task has that title) stands before the task that depends on it.\<close>

theorem sort_topological:
  assumes "ResolveAndSortTasks ts = Inr out" and "distinct (map task_ID ts)"
  shows "mset out = mset ts \<and>
    (\<forall>i < length out. \<forall>dep \<in> set (task_DependsOn (out ! i)). \<forall>j < length out.
       names ts dep (out ! j) \<longrightarrow> j < i)"
proof (intro conjI allI ballI impI)
  show "mset out = mset ts" using assms by (rule ResolveAndSortTasks_mset)
  from assms(1) obtain titles adj where t: "build_titleMap ts Map.empty = Inr titles"
    and a: "build_adj titles (idMap ts) ts (\<lambda>_. []) = Inr adj"
    and d: "distinct (map task_ID out)" and topo: "topo adj (map task_ID out)"
    and sub: "set out \<subseteq> set ts" by (rule ResolveAndSortTasks_ids)
  fix i dep j
  assume i: "i < length out" "dep \<in> set (task_DependsOn (out ! i))" "j < length out"
    "names ts dep (out ! j)"
  then have "task_ID (out ! j) \<in> set (adj (task_ID (out ! i)))"
    using edges_complete [OF t a assms(2)] sub nth_mem by blast
  with topo i(1) have "task_ID (out ! j) \<in> set (take i (map task_ID out))"
    by (auto simp: topo_def)
  then obtain k where "k < i" "task_ID (out ! j) = map task_ID out ! k"
    using i(1) by (auto simp: in_set_conv_nth)
  then have "k < length out" "map task_ID out ! j = map task_ID out ! k" using i(1,3) by auto
  with d i(3) have "j = k" by (metis length_map nth_eq_iff_index_eq)
  with \<open>k < i\<close> show "j < i" by simp
qed

lemma sample_sorted: "ResolveAndSortTasks [sample_top, sample_base] = Inr [sample_base, sample_top]"
  by code_simp

theorem sort_topological_witness:
  "ResolveAndSortTasks [sample_top, sample_base] = Inr [sample_base, sample_top]
   \<and> mset [sample_base, sample_top] = mset [sample_top, sample_base] \<and> (0 :: nat) < 1"
proof -
  have d: "distinct (map task_ID [sample_top, sample_base])" by code_simp
  have "''base'' \<in> set (task_DependsOn ([sample_base, sample_top] ! 1))"
    "names [sample_top, sample_base] ''base'' ([sample_base, sample_top] ! 0)"
    by (simp_all add: sample_base_def sample_top_def mk_task_def names_def)
  with sort_topological [OF sample_sorted d] sample_sorted show ?thesis by force
qed

text \<open>C17: Every failure of the sort is one of three and each is justified: two tasks with one title and different identifiers, a
  dependency that names no task and is no reference to another story's task, or a genuine
  cycle through the reported task. The search never runs out of fuel.\<close>

theorem sort_error_justified:
  assumes "ResolveAndSortTasks ts = Inl e"
  shows "(\<exists>t \<in> set ts. \<exists>u \<in> set ts. e = DuplicateTitle (task_Title u) \<and> task_Title t = task_Title u \<and> task_ID t \<noteq> task_ID u)
    \<or> (\<exists>t \<in> set ts. \<exists>dep \<in> set (task_DependsOn t).
         e = UnresolvedPrerequisite (task_Title t) dep \<and> \<not> resolvable ts dep)
    \<or> (\<exists>c. e = CycleDetected c \<and> (c, c) \<in> (dep_rel ts)\<^sup>+)"
  using sort_error_cases [OF assms] build_titleMap_error by blast

theorem sort_error_justified_witness:
  "ResolveAndSortTasks sample_cycle = Inl (CycleDetected ''T2'')
   \<and> (''T2'', ''T2'') \<in> (dep_rel sample_cycle)\<^sup>+"
proof -
  have e: "ResolveAndSortTasks sample_cycle = Inl (CycleDetected ''T2'')" by code_simp
  with sort_error_justified [OF e] show ?thesis by auto
qed

text \<open>C14: On tasks with distinct identifiers and titles whose dependencies all resolve, the sort
  succeeds exactly when the dependency relation has no cycle.\<close>

theorem sort_succeeds_iff_acyclic:
  assumes "distinct (map task_ID ts)" "distinct (map task_Title ts)"
    and "\<forall>t \<in> set ts. \<forall>dep \<in> set (task_DependsOn t). resolvable ts dep"
  shows "(\<exists>out. ResolveAndSortTasks ts = Inr out) \<longleftrightarrow> acyclic (dep_rel ts)"
proof
  assume "\<exists>out. ResolveAndSortTasks ts = Inr out"
  then obtain out where "ResolveAndSortTasks ts = Inr out" by blast
  then obtain titles adj where t: "build_titleMap ts Map.empty = Inr titles"
    and a: "build_adj titles (idMap ts) ts (\<lambda>_. []) = Inr adj"
    and ids: "set (map task_ID out) = task_ID ` set ts"
    and d: "distinct (map task_ID out)" and topo: "topo adj (map task_ID out)"
    by (rule ResolveAndSortTasks_ids)
  have "dep_rel ts \<subseteq> edges adj"
    using edges_complete [OF t a assms(1)] by (auto simp: dep_rel_def edges_def)
  then have sub: "(dep_rel ts)\<^sup>+ \<subseteq> (edges adj)\<^sup>+" by (auto intro: trancl_mono)
  have "x \<in> task_ID ` set ts" if "(x, x) \<in> (dep_rel ts)\<^sup>+" for x
    using tranclD [OF that] by (auto simp: dep_rel_def)
  with sub ids topo_acyclic [OF topo d] show "acyclic (dep_rel ts)"
    unfolding acyclic_def by blast
next
  assume ac: "acyclic (dep_rel ts)"
  obtain titles where t: "build_titleMap ts Map.empty = Inr titles"
    using build_titleMap_ok [of ts Map.empty] assms(2) by auto
  show "\<exists>out. ResolveAndSortTasks ts = Inr out"
  proof (cases "ResolveAndSortTasks ts")
    case (Inl e)
    from sort_error_cases [OF Inl] t assms(3) ac show ?thesis by (auto simp: acyclic_def)
  qed auto
qed

theorem sort_succeeds_iff_acyclic_witness:
  "acyclic (dep_rel [sample_top, sample_base])"
proof -
  let ?ts = "[sample_top, sample_base]"
  have d: "distinct (map task_ID ?ts)" "distinct (map task_Title ?ts)" by code_simp+
  have "names ?ts ''base'' sample_base"
    by (simp add: names_def sample_base_def sample_top_def mk_task_def)
  moreover have "external_dep ''US-001-TASK-9''" by code_simp
  ultimately have r: "\<forall>t \<in> set ?ts. \<forall>dep \<in> set (task_DependsOn t). resolvable ?ts dep"
    by (auto simp: resolvable_def sample_base_def sample_top_def mk_task_def)
  show ?thesis using sort_succeeds_iff_acyclic [OF d r] sample_sorted by blast
qed

end
