(* ===== verification/Task_Scheduler.thy ===== *)
theory Task_Scheduler
  imports Domain Story_Ids File_Locks
begin

text \<open>
  The task scheduler of \<open>src/pkg/services/scheduler.go\<close>: the dependency index with its exact,
  normalised and substring resolution, and \<open>GetReadyTasks\<close>, which computes the tasks blocked by
  unresolved clarifications, the dependencies and the story barrier of each task, and picks
  tasks while worker slots and file locks last. The lock registry is threaded through, because
  the selection acquires the locks of the tasks it returns.

  \<open>clar_blocked\<close> is the reference definition of the blocked tasks; \<open>propagate_iff\<close> shows
  that the loop of the code computes it.
\<close>

section \<open>The dependency index\<close>

definition normalizeDependencyToken :: "string \<Rightarrow> string" where
  "normalizeDependencyToken str = filter (\<lambda>r. is_lower_alpha r \<or> is_digit r) (ToLower str)"

record dependencyIndexEntry =
  entry_id :: string
  entry_normID :: string
  entry_normTitle :: string

record dependencyIndex =
  idx_exact :: "string \<rightharpoonup> string"
  idx_normalized :: "string \<rightharpoonup> string"
  idx_entries :: "dependencyIndexEntry list"

text \<open>\<open>if _, ok := m[k]; !ok { m[k] = v }\<close>: the first task wins.\<close>

definition put_absent :: "(string \<rightharpoonup> string) \<Rightarrow> string \<Rightarrow> string \<Rightarrow> (string \<rightharpoonup> string)" where
  "put_absent m k v = (case m k of None \<Rightarrow> m(k \<mapsto> v) | Some _ \<Rightarrow> m)"

definition index_task :: "dependencyIndex \<Rightarrow> Task \<Rightarrow> dependencyIndex" where
  "index_task idx t =
     (let normID = normalizeDependencyToken (task_ID t);
          normTitle = normalizeDependencyToken (task_Title t);
          exact = put_absent (put_absent (idx_exact idx) (task_ID t) (task_ID t))
                    (task_Title t) (task_ID t);
          n1 = (if normID \<noteq> [] then put_absent (idx_normalized idx) normID (task_ID t)
                else idx_normalized idx);
          n2 = (if normTitle \<noteq> [] then put_absent n1 normTitle (task_ID t) else n1)
      in \<lparr>idx_exact = exact, idx_normalized = n2,
          idx_entries = idx_entries idx @
            [\<lparr>entry_id = task_ID t, entry_normID = normID, entry_normTitle = normTitle\<rparr>]\<rparr>)"

definition newDependencyIndex :: "Task list \<Rightarrow> dependencyIndex" where
  "newDependencyIndex tasks =
     foldl index_task \<lparr>idx_exact = Map.empty, idx_normalized = Map.empty, idx_entries = []\<rparr> tasks"

definition entry_matches :: "string \<Rightarrow> dependencyIndexEntry \<Rightarrow> bool" where
  "entry_matches normDep e \<longleftrightarrow>
     Contains (entry_normTitle e) normDep \<or> Contains normDep (entry_normTitle e)
     \<or> Contains (entry_normID e) normDep \<or> Contains normDep (entry_normID e)"

definition resolve :: "dependencyIndex \<Rightarrow> string \<Rightarrow> string option" where
  "resolve idx dep =
     (case idx_exact idx dep of
        Some i \<Rightarrow> Some i
      | None \<Rightarrow>
         (let normDep = normalizeDependencyToken dep
          in if normDep = [] then None
             else case idx_normalized idx normDep of
                    Some i \<Rightarrow> Some i
                  | None \<Rightarrow> map_option entry_id (find (entry_matches normDep) (idx_entries idx))))"

text \<open>The idiom \<open>depID := dep; if r, found := resolve(dep); found { depID = r }\<close>.\<close>

definition resolve_or_self :: "dependencyIndex \<Rightarrow> string \<Rightarrow> string" where
  "resolve_or_self idx dep = (case resolve idx dep of Some i \<Rightarrow> i | None \<Rightarrow> dep)"

section \<open>Tasks blocked by clarifications\<close>

text \<open>The map \<open>blocked\<close> only ever stores \<open>true\<close>, so it is the set of its keys. \<open>None\<close> stands
  for the early return on an unresolved clarification without a task.\<close>

fun initial_blocked ::
  "dependencyIndex \<Rightarrow> Clarification list \<Rightarrow> string set \<Rightarrow> string set option" where
  "initial_blocked idx [] blocked = Some blocked"
| "initial_blocked idx (c # cs) blocked =
     (if clar_Resolved c then initial_blocked idx cs blocked
      else if clar_TaskID c = [] then None
      else let b1 = insert (clar_TaskID c) blocked
           in initial_blocked idx cs
                (case resolve idx (clar_TaskID c) of Some i \<Rightarrow> insert i b1 | None \<Rightarrow> b1))"

fun block_pass :: "dependencyIndex \<Rightarrow> Task list \<Rightarrow> string set \<Rightarrow> string set \<times> bool" where
  "block_pass idx [] blocked = (blocked, False)"
| "block_pass idx (t # ts) blocked =
     (if task_ID t \<in> blocked then block_pass idx ts blocked
      else if list_ex (\<lambda>dep. resolve_or_self idx dep \<in> blocked) (task_DependsOn t)
      then (fst (block_pass idx ts (insert (task_ID t) blocked)), True)
      else block_pass idx ts blocked)"

lemma block_pass_mono: "x \<in> blocked \<Longrightarrow> x \<in> fst (block_pass idx ts blocked)"
  by (induction idx ts blocked rule: block_pass.induct) auto

lemma block_pass_changed:
  "snd (block_pass idx ts blocked) \<Longrightarrow>
     length (filter (\<lambda>t. task_ID t \<notin> fst (block_pass idx ts blocked)) ts)
     < length (filter (\<lambda>t. task_ID t \<notin> blocked) ts)"
proof (induction idx ts blocked rule: block_pass.induct)
  case (1 idx blocked)
  then show ?case by simp
next
  case (2 idx t ts blocked)
  let ?b = "insert (task_ID t) blocked"
  have *: "length (filter (\<lambda>u. task_ID u \<notin> fst (block_pass idx ts ?b)) ts)
      \<le> length (filter (\<lambda>u. task_ID u \<notin> blocked) ts)"
    by (rule length_filter_all_le) (metis block_pass_mono insertI2)
  have "task_ID t \<in> fst (block_pass idx ts ?b)" by (rule block_pass_mono) simp
  with 2 * show ?case by (auto split: if_splits dest: block_pass_mono)
qed

function propagate :: "dependencyIndex \<Rightarrow> Task list \<Rightarrow> string set \<Rightarrow> string set" where
  "propagate idx ts blocked =
     (let r = block_pass idx ts blocked in if snd r then propagate idx ts (fst r) else fst r)"
  by pat_completeness auto
termination
  by (relation "measure (\<lambda>(idx, ts, b). length (filter (\<lambda>t. task_ID t \<notin> b) ts))")
    (auto dest: block_pass_changed)

declare propagate.simps [simp del]

section \<open>Dependencies and the story barrier\<close>

definition statusMap :: "Task list \<Rightarrow> (string \<rightharpoonup> TaskStatus)" where
  "statusMap ts = map_of (rev (map (\<lambda>t. (task_ID t, task_Status t)) ts))"

definition earlier_story_done :: "Task list \<Rightarrow> Task \<Rightarrow> string \<Rightarrow> bool" where
  "earlier_story_done ts t depID =
     (let depStoryID = ExtractStoryID depID
      in depStoryID \<noteq> [] \<and>
         (let depStoryIndex = parseStoryIndex depStoryID;
              tStoryIndex = parseStoryIndex (task_StoryID t)
          in depStoryIndex > 0 \<and> (tStoryIndex = 0 \<or> depStoryIndex < tStoryIndex)
             \<and> list_ex (\<lambda>other. task_StoryID other = depStoryID) ts
             \<and> list_all (\<lambda>other. task_StoryID other = depStoryID
                             \<longrightarrow> task_Status other = TaskSuccess) ts))"

definition dep_met :: "dependencyIndex \<Rightarrow> Task list \<Rightarrow> Task \<Rightarrow> string \<Rightarrow> bool" where
  "dep_met idx ts t dep =
     (let depID = resolve_or_self idx dep
      in case statusMap ts depID of
           Some status \<Rightarrow> status = TaskSuccess
         | None \<Rightarrow> earlier_story_done ts t depID)"

definition hasCrossStoryDep :: "dependencyIndex \<Rightarrow> Task list \<Rightarrow> Task \<Rightarrow> bool" where
  "hasCrossStoryDep idx ts t =
     list_ex (\<lambda>dep. list_ex (\<lambda>other.
         task_ID other = resolve_or_self idx dep \<and> task_StoryID other \<noteq> []
         \<and> parseStoryIndex (task_StoryID other) > 0
         \<and> parseStoryIndex (task_StoryID other) < parseStoryIndex (task_StoryID t)) ts)
       (task_DependsOn t)"

definition milestone_met :: "dependencyIndex \<Rightarrow> Task list \<Rightarrow> Task \<Rightarrow> bool" where
  "milestone_met idx ts t =
     (if task_StoryID t \<noteq> [] \<and> parseStoryIndex (task_StoryID t) > 0 \<and> \<not> hasCrossStoryDep idx ts t
      then list_all (\<lambda>other.
             task_StoryID other \<noteq> [] \<and> task_ID other \<noteq> task_ID t
             \<and> parseStoryIndex (task_StoryID other) > 0
             \<and> parseStoryIndex (task_StoryID other) < parseStoryIndex (task_StoryID t)
             \<longrightarrow> task_Status other = TaskSuccess) ts
      else True)"

definition depsMet :: "dependencyIndex \<Rightarrow> Task list \<Rightarrow> Task \<Rightarrow> bool" where
  "depsMet idx ts t \<longleftrightarrow> list_all (dep_met idx ts t) (task_DependsOn t) \<and> milestone_met idx ts t"

section \<open>Selection\<close>

definition retryable :: "Task \<Rightarrow> bool" where
  "retryable t \<longleftrightarrow> (task_Status t = TaskPending \<or> task_Status t = TaskFailed)
     \<and> \<not> (task_Status t = TaskFailed \<and> task_Retries t \<ge> task_MaxRetries t)"

fun select_ready ::
  "(Task \<Rightarrow> bool) \<Rightarrow> int \<Rightarrow> Task list \<Rightarrow> locks \<Rightarrow> Task list \<Rightarrow> Task list \<times> locks" where
  "select_ready ok slots [] locks ready = (ready, locks)"
| "select_ready ok slots (t # ts) locks ready =
     (if ok t then
        (case TryAcquireLocks locks (task_ID t) (task_TargetFiles t) of
           (True, locks') \<Rightarrow>
             (if int (length (ready @ [t])) \<ge> slots then (ready @ [t], locks')
              else select_ready ok slots ts locks' (ready @ [t]))
         | (False, locks') \<Rightarrow> select_ready ok slots ts locks' ready)
      else select_ready ok slots ts locks ready)"

definition activeCount :: "State \<Rightarrow> int" where
  "activeCount state = int (length (filter (\<lambda>a. agent_Status a = AgentWorking) (st_ActiveAgents state)))"

definition eligible :: "State \<Rightarrow> string set \<Rightarrow> Task \<Rightarrow> bool" where
  "eligible state blocked t \<longleftrightarrow> retryable t \<and> task_ID t \<notin> blocked
     \<and> depsMet (newDependencyIndex (st_Tasks state)) (st_Tasks state) t"

definition GetReadyTasks :: "State \<Rightarrow> int \<Rightarrow> locks \<Rightarrow> Task list \<times> locks" where
  "GetReadyTasks state concurrencyLimit locks =
     (let depIndex = newDependencyIndex (st_Tasks state)
      in case initial_blocked depIndex (st_Clarifications state) {} of
           None \<Rightarrow> ([], locks)
         | Some b0 \<Rightarrow>
            (let blocked = propagate depIndex (st_Tasks state) b0;
                 availableSlots = concurrencyLimit - activeCount state
             in if availableSlots \<le> 0 then ([], locks)
                else select_ready (eligible state blocked) availableSlots (st_Tasks state) locks []))"

text \<open>A sample plan of two stories for the witnesses: the first story is done, the second has two
  pending tasks, of which only the second depends on the first story explicitly.\<close>

definition sample_done :: Task where
  "sample_done = (mk_task ''US-001-TASK-1'' ''core'' TaskSuccess)\<lparr>task_StoryID := ''US-001''\<rparr>"

definition sample_plain :: Task where
  "sample_plain = (mk_task ''US-002-TASK-1'' ''api'' TaskPending)
     \<lparr>task_StoryID := ''US-002'', task_TargetFiles := [''api.go'']\<rparr>"

definition sample_linked :: Task where
  "sample_linked = (mk_task ''US-002-TASK-2'' ''cli'' TaskPending)
     \<lparr>task_StoryID := ''US-002'', task_TargetFiles := [''cli.go''],
      task_DependsOn := [''core'']\<rparr>"

definition sample_plan :: State where
  "sample_plan = mk_state [sample_done, sample_plain, sample_linked]"

section \<open>Reference definition of the blocked tasks\<close>

inductive clar_blocked :: "dependencyIndex \<Rightarrow> Task list \<Rightarrow> Clarification list \<Rightarrow> string \<Rightarrow> bool"
  for idx ts cs where
  asked: "c \<in> set cs \<Longrightarrow> \<not> clar_Resolved c \<Longrightarrow> clar_blocked idx ts cs (clar_TaskID c)"
| asked_resolved: "c \<in> set cs \<Longrightarrow> \<not> clar_Resolved c \<Longrightarrow> resolve idx (clar_TaskID c) = Some i
    \<Longrightarrow> clar_blocked idx ts cs i"
| depends: "t \<in> set ts \<Longrightarrow> dep \<in> set (task_DependsOn t)
    \<Longrightarrow> clar_blocked idx ts cs (resolve_or_self idx dep) \<Longrightarrow> clar_blocked idx ts cs (task_ID t)"

lemma initial_blocked_None_iff:
  "initial_blocked idx cs b = None \<longleftrightarrow> (\<exists>c \<in> set cs. \<not> clar_Resolved c \<and> clar_TaskID c = [])"
  by (induction idx cs b rule: initial_blocked.induct) (auto simp: Let_def)

lemma initial_blocked_Some:
  "initial_blocked idx cs b = Some b' \<Longrightarrow> i \<in> b' \<longleftrightarrow> i \<in> b \<or>
     (\<exists>c \<in> set cs. \<not> clar_Resolved c \<and> (clar_TaskID c = i \<or> resolve idx (clar_TaskID c) = Some i))"
proof (induction idx cs b rule: initial_blocked.induct)
  case (2 idx c cs b)
  then show ?case by (cases "resolve idx (clar_TaskID c)") (auto split: if_splits simp: Let_def)
qed simp

definition dep_closed :: "dependencyIndex \<Rightarrow> Task list \<Rightarrow> string set \<Rightarrow> bool" where
  "dep_closed idx ts P \<longleftrightarrow> (\<forall>t \<in> set ts. \<forall>dep \<in> set (task_DependsOn t).
     resolve_or_self idx dep \<in> P \<longrightarrow> task_ID t \<in> P)"

lemma block_pass_sound: "b \<subseteq> P \<Longrightarrow> dep_closed idx ts P \<Longrightarrow> fst (block_pass idx ts b) \<subseteq> P"
proof (induction idx ts b rule: block_pass.induct)
  case (2 idx t ts b)
  have "task_ID t \<in> P" if "list_ex (\<lambda>dep. resolve_or_self idx dep \<in> b) (task_DependsOn t)"
    using that 2(4,5) by (auto simp: list_ex_iff dep_closed_def)
  moreover have "dep_closed idx ts P" using 2(5) by (simp add: dep_closed_def)
  ultimately show ?case using 2 by simp
qed simp

lemma block_pass_unchanged:
  "\<not> snd (block_pass idx ts b) \<Longrightarrow> fst (block_pass idx ts b) = b \<and> dep_closed idx ts b"
proof (induction idx ts b rule: block_pass.induct)
  case (1 idx b)
  then show ?case by (simp add: dep_closed_def)
next
  case (2 idx t ts b)
  then have same: "block_pass idx (t # ts) b = block_pass idx ts b"
    and head: "task_ID t \<in> b \<or> \<not> list_ex (\<lambda>dep. resolve_or_self idx dep \<in> b) (task_DependsOn t)"
    by (auto split: if_splits)
  have "fst (block_pass idx ts b) = b \<and> dep_closed idx ts b"
    using 2 by (cases "task_ID t \<in> b") (auto split: if_splits)
  with head same show ?case by (auto simp: dep_closed_def list_ex_iff)
qed

lemma propagate_sound: "b \<subseteq> P \<Longrightarrow> dep_closed idx ts P \<Longrightarrow> propagate idx ts b \<subseteq> P"
proof (induction idx ts b rule: propagate.induct)
  case (1 idx ts b)
  from 1(2,3) have "fst (block_pass idx ts b) \<subseteq> P" by (rule block_pass_sound)
  with 1 show ?case by (simp add: propagate.simps [of idx ts b] Let_def)
qed

lemma propagate_closed: "b \<subseteq> propagate idx ts b \<and> dep_closed idx ts (propagate idx ts b)"
proof (induction idx ts b rule: propagate.induct)
  case (1 idx ts b)
  have "b \<subseteq> fst (block_pass idx ts b)" using block_pass_mono by blast
  with 1 block_pass_unchanged [of idx ts b] show ?case
    by (auto simp: propagate.simps [of idx ts b] Let_def)
qed

lemma propagate_iff:
  assumes "initial_blocked idx cs {} = Some b0"
  shows "i \<in> propagate idx ts b0 \<longleftrightarrow> clar_blocked idx ts cs i"
proof
  have b0: "b0 \<subseteq> Collect (clar_blocked idx ts cs)"
    using initial_blocked_Some [OF assms] by (auto intro: clar_blocked.intros)
  have "dep_closed idx ts (Collect (clar_blocked idx ts cs))"
    by (auto simp: dep_closed_def intro: clar_blocked.depends)
  from propagate_sound [OF b0 this] show "i \<in> propagate idx ts b0 \<Longrightarrow> clar_blocked idx ts cs i" by auto
  note closed = propagate_closed [of b0 idx ts, unfolded dep_closed_def]
  show "clar_blocked idx ts cs i \<Longrightarrow> i \<in> propagate idx ts b0"
  proof (induction rule: clar_blocked.induct)
    case (asked c)
    then show ?case using initial_blocked_Some [OF assms, of "clar_TaskID c"] closed by blast
  next
    case (asked_resolved c i)
    then show ?case using initial_blocked_Some [OF assms, of i] closed by blast
  next
    case (depends t dep)
    then show ?case using closed by blast
  qed
qed

section \<open>The index agrees with a linear scan\<close>

text \<open>The resolution without the memoised maps: scan the tasks for an exact match, then for a
  normalised match, then for a substring match.\<close>

definition resolve_scan :: "Task list \<Rightarrow> string \<Rightarrow> string option" where
  "resolve_scan ts dep =
     (case find (\<lambda>t. task_ID t = dep \<or> task_Title t = dep) ts of
        Some t \<Rightarrow> Some (task_ID t)
      | None \<Rightarrow>
         (let n = normalizeDependencyToken dep
          in if n = [] then None
             else case find (\<lambda>t. normalizeDependencyToken (task_ID t) = n
                              \<or> normalizeDependencyToken (task_Title t) = n) ts of
                    Some t \<Rightarrow> Some (task_ID t)
                  | None \<Rightarrow> map_option task_ID
                      (find (\<lambda>t. let nt = normalizeDependencyToken (task_Title t);
                                    ni = normalizeDependencyToken (task_ID t)
                                in Contains nt n \<or> Contains n nt \<or> Contains ni n \<or> Contains n ni) ts)))"

lemma newDependencyIndex_snoc:
  "newDependencyIndex (ts @ [t]) = index_task (newDependencyIndex ts) t"
  by (simp add: newDependencyIndex_def)

lemma newDependencyIndex_Nil:
  "newDependencyIndex [] = \<lparr>idx_exact = Map.empty, idx_normalized = Map.empty, idx_entries = []\<rparr>"
  by (simp add: newDependencyIndex_def)

lemma idx_exact_scan:
  "idx_exact (newDependencyIndex ts) k
   = map_option task_ID (find (\<lambda>t. task_ID t = k \<or> task_Title t = k) ts)"
proof (induction ts rule: rev_induct)
  case Nil
  then show ?case by (simp add: newDependencyIndex_Nil)
next
  case (snoc t ts)
  have "idx_exact (newDependencyIndex (ts @ [t])) k =
      put_absent (put_absent (idx_exact (newDependencyIndex ts)) (task_ID t) (task_ID t))
        (task_Title t) (task_ID t) k"
    by (simp add: newDependencyIndex_snoc index_task_def Let_def)
  with snoc show ?case
    by (auto simp: put_absent_def find_append split: option.splits)
qed

lemma idx_normalized_scan:
  "k \<noteq> [] \<Longrightarrow> idx_normalized (newDependencyIndex ts) k
   = map_option task_ID (find (\<lambda>t. normalizeDependencyToken (task_ID t) = k
                                 \<or> normalizeDependencyToken (task_Title t) = k) ts)"
proof (induction ts rule: rev_induct)
  case Nil
  then show ?case by (simp add: newDependencyIndex_Nil)
next
  case (snoc t ts)
  let ?n = "idx_normalized (newDependencyIndex ts)"
  let ?i = "normalizeDependencyToken (task_ID t)" and ?t = "normalizeDependencyToken (task_Title t)"
  have "idx_normalized (newDependencyIndex (ts @ [t])) k =
      (let n1 = (if ?i \<noteq> [] then put_absent ?n ?i (task_ID t) else ?n)
       in if ?t \<noteq> [] then put_absent n1 ?t (task_ID t) else n1) k"
    by (simp add: newDependencyIndex_snoc index_task_def Let_def)
  with snoc show ?case
    by (auto simp: put_absent_def find_append Let_def split: option.splits)
qed

lemma idx_entries_scan:
  "idx_entries (newDependencyIndex ts) =
     map (\<lambda>t. \<lparr>entry_id = task_ID t, entry_normID = normalizeDependencyToken (task_ID t),
               entry_normTitle = normalizeDependencyToken (task_Title t)\<rparr>) ts"
  by (induction ts rule: rev_induct)
    (simp_all add: newDependencyIndex_Nil newDependencyIndex_snoc index_task_def Let_def)

lemma find_map: "find P (map f xs) = map_option f (find (P \<circ> f) xs)"
  by (induction xs) auto

lemma resolve_eq_scan: "resolve (newDependencyIndex ts) dep = resolve_scan ts dep"
proof (cases "find (\<lambda>t. task_ID t = dep \<or> task_Title t = dep) ts")
  case (Some t)
  then show ?thesis by (simp add: resolve_def resolve_scan_def idx_exact_scan)
next
  case None
  then show ?thesis
    by (auto simp: resolve_def resolve_scan_def idx_exact_scan idx_normalized_scan
        idx_entries_scan find_map comp_def entry_matches_def Let_def option.map_comp split: option.splits)
qed

section \<open>The selection loop\<close>

lemma select_ready_subseq:
  "\<exists>more. fst (select_ready ok slots ts l ready) = ready @ more \<and> subseq more (filter ok ts)"
proof (induction ok slots ts l ready rule: select_ready.induct)
  case (1 ok slots l ready)
  then show ?case by simp
next
  case (2 ok slots t ts l ready)
  show ?case
  proof (cases "ok t")
    case False
    with 2(3) show ?thesis by simp
  next
    case True
    obtain b l' where a: "TryAcquireLocks l (task_ID t) (task_TargetFiles t) = (b, l')" by force
    show ?thesis
    proof (cases b)
      case b: True
      show ?thesis
      proof (cases "int (length (ready @ [t])) \<ge> slots")
        case True
        with \<open>ok t\<close> a b show ?thesis by (intro exI [of _ "[t]"]) simp
      next
        case False
        with 2(1) [OF True a [symmetric]] b obtain more
          where "fst (select_ready ok slots ts l' (ready @ [t])) = (ready @ [t]) @ more"
            "subseq more (filter ok ts)" by auto
        with \<open>ok t\<close> a b False show ?thesis by (intro exI [of _ "t # more"]) simp
      qed
    next
      case b: False
      with 2(2) [OF True a [symmetric]] obtain more
        where "fst (select_ready ok slots ts l' ready) = ready @ more"
          "subseq more (filter ok ts)" by auto
      with \<open>ok t\<close> a b show ?thesis by (intro exI [of _ more]) auto
    qed
  qed
qed

lemma select_ready_bound:
  "int (length ready) < slots \<Longrightarrow> int (length (fst (select_ready ok slots ts l ready))) \<le> slots"
  by (induction ok slots ts l ready rule: select_ready.induct)
    (auto split: prod.splits bool.splits)

lemma select_ready_owns:
  "\<forall>t \<in> set ready. registry.owns l (task_ID t) (task_TargetFiles t)
   \<Longrightarrow> \<forall>t \<in> set (fst (select_ready ok slots ts l ready)).
        registry.owns (snd (select_ready ok slots ts l ready)) (task_ID t) (task_TargetFiles t)"
proof (induction ok slots ts l ready rule: select_ready.induct)
  case (1 ok slots l ready)
  then show ?case by simp
next
  case (2 ok slots t ts l ready)
  obtain b l' where a: "TryAcquireLocks l (task_ID t) (task_TargetFiles t) = (b, l')" by force
  have "\<forall>u \<in> set ready. registry.owns l' (task_ID u) (task_TargetFiles u)"
    using 2(4) registry.owns_kept a by (metis snd_conv)
  moreover have "registry.owns l' (task_ID t) (task_TargetFiles t)" if b
    using registry.owns_after_grant [of l "task_ID t" "task_TargetFiles t"] a that by simp
  ultimately show ?case using 2 a by (cases b) auto
qed

lemma select_ready_progress:
  "\<exists>t \<in> set ts. ok t \<and> fst (TryAcquireLocks l (task_ID t) (task_TargetFiles t))
   \<Longrightarrow> fst (select_ready ok slots ts l []) \<noteq> []"
proof (induction ts)
  case (Cons u ts)
  have start: "fst (select_ready ok slots ts l' [u]) \<noteq> []" for l'
    using select_ready_subseq [of ok slots ts l' "[u]"] by auto
  show ?case
  proof (cases "ok u \<and> fst (TryAcquireLocks l (task_ID u) (task_TargetFiles u))")
    case True
    with start show ?thesis by (auto split: prod.splits bool.splits)
  next
    case False
    then have "fst (select_ready ok slots (u # ts) l []) = fst (select_ready ok slots ts l [])"
      using registry.refuse_same [of l "task_ID u" "task_TargetFiles u"]
      by (auto split: prod.splits bool.splits)
    with Cons False show ?thesis by auto
  qed
qed simp

section \<open>What a returned task satisfies\<close>

abbreviation task_index :: "State \<Rightarrow> dependencyIndex" where
  "task_index state \<equiv> newDependencyIndex (st_Tasks state)"

lemma ready_elem:
  assumes "t \<in> set (fst (GetReadyTasks state limit l))"
  shows "t \<in> set (st_Tasks state)" "retryable t" "depsMet (task_index state) (st_Tasks state) t"
    "\<not> clar_blocked (task_index state) (st_Tasks state) (st_Clarifications state) (task_ID t)"
proof -
  let ?idx = "task_index state"
  obtain b0 where b0: "initial_blocked ?idx (st_Clarifications state) {} = Some b0"
    and sel: "t \<in> set (fst (select_ready (eligible state (propagate ?idx (st_Tasks state) b0))
      (limit - activeCount state) (st_Tasks state) l []))"
    using assms by (auto simp: GetReadyTasks_def Let_def split: option.splits if_splits)
  obtain more where "t \<in> set more"
    "subseq more (filter (eligible state (propagate ?idx (st_Tasks state) b0)) (st_Tasks state))"
    using sel select_ready_subseq by (metis append_Nil)
  then have "t \<in> set (filter (eligible state (propagate ?idx (st_Tasks state) b0)) (st_Tasks state))"
    using list_emb_set by (metis notin_set_nthsI subseq_conv_nths)
  then show "t \<in> set (st_Tasks state)" "retryable t" "depsMet ?idx (st_Tasks state) t"
    "\<not> clar_blocked ?idx (st_Tasks state) (st_Clarifications state) (task_ID t)"
    using propagate_iff [OF b0] by (auto simp: eligible_def)
qed

lemma statusMap_distinct:
  "distinct (map task_ID ts) \<Longrightarrow> u \<in> set ts \<Longrightarrow> statusMap ts (task_ID u) = Some (task_Status u)"
  unfolding statusMap_def by (rule map_of_is_SomeI) (auto simp: comp_def rev_map [symmetric])

section \<open>Properties\<close>

text \<open>C4: A task is dispatched only if it is pending or failed with a retry left, it is not
  blocked, even transitively, by an unresolved clarification, and every task of the plan that
  one of its dependencies resolves to has succeeded.\<close>

theorem ready_tasks_sound:
  assumes "t \<in> set (fst (GetReadyTasks state limit l))" and "distinct (map task_ID (st_Tasks state))"
  shows "t \<in> set (st_Tasks state)
    \<and> (task_Status t = TaskPending \<or> task_Status t = TaskFailed \<and> task_Retries t < task_MaxRetries t)
    \<and> \<not> clar_blocked (task_index state) (st_Tasks state) (st_Clarifications state) (task_ID t)
    \<and> (\<forall>dep \<in> set (task_DependsOn t). \<forall>u \<in> set (st_Tasks state).
         resolve_or_self (task_index state) dep = task_ID u \<longrightarrow> task_Status u = TaskSuccess)"
  using ready_elem [OF assms(1)] statusMap_distinct [OF assms(2)]
  by (fastforce simp: retryable_def depsMet_def dep_met_def list_all_iff Let_def)

lemma sample_ready:
  "sample_plain \<in> set (fst (GetReadyTasks sample_plan 2 Map.empty))"
  "sample_linked \<in> set (fst (GetReadyTasks sample_plan 2 Map.empty))"
  by code_simp+

lemma sample_distinct: "distinct (map task_ID (st_Tasks sample_plan))"
  by code_simp

theorem ready_tasks_sound_witness:
  "sample_linked \<in> set (fst (GetReadyTasks sample_plan 2 Map.empty))
   \<and> \<not> clar_blocked (task_index sample_plan) (st_Tasks sample_plan)
        (st_Clarifications sample_plan) (task_ID sample_linked)
   \<and> task_Status sample_done = TaskSuccess"
proof -
  have r: "resolve_or_self (task_index sample_plan) ''core'' = task_ID sample_done" by code_simp
  have m: "''core'' \<in> set (task_DependsOn sample_linked)" "sample_done \<in> set (st_Tasks sample_plan)"
    by code_simp+
  show ?thesis
    using ready_tasks_sound [OF sample_ready(2) sample_distinct] sample_ready(2) r m by blast
qed

text \<open>The number of tasks handed out never exceeds the free worker slots, and nothing is
  handed out when no slot is free.\<close>

theorem ready_tasks_within_slots:
  "int (length (fst (GetReadyTasks state limit l))) \<le> max 0 (limit - activeCount state)"
proof (cases "0 < limit - activeCount state")
  case True
  then have "int (length (fst (select_ready ok (limit - activeCount state) ts l [])))
      \<le> limit - activeCount state" for ok ts
    by (intro select_ready_bound) simp
  with True show ?thesis by (simp add: GetReadyTasks_def Let_def split: option.split)
next
  case False
  then show ?thesis by (simp add: GetReadyTasks_def Let_def split: option.split)
qed

text \<open>C11: After a scheduling round every returned task holds the lock of each of its target
  files, so two returned tasks with different identifiers never share a target file.\<close>

theorem ready_tasks_exclusive:
  assumes "t \<in> set (fst (GetReadyTasks state limit l))"
    and "u \<in> set (fst (GetReadyTasks state limit l))" and "task_ID t \<noteq> task_ID u"
  shows "(\<forall>f \<in> set (task_TargetFiles t). snd (GetReadyTasks state limit l) f = Some (task_ID t))
    \<and> set (task_TargetFiles t) \<inter> set (task_TargetFiles u) = {}"
proof -
  let ?r = "GetReadyTasks state limit l"
  have owns: "\<forall>v \<in> set (fst ?r). registry.owns (snd ?r) (task_ID v) (task_TargetFiles v)"
    using select_ready_owns [of "[]"] by (simp add: GetReadyTasks_def Let_def split: option.splits)
  with assms(1) have "\<forall>f \<in> set (task_TargetFiles t). snd ?r f = Some (task_ID t)"
    by (simp add: registry.owns_def)
  moreover have "set (task_TargetFiles t) \<inter> set (task_TargetFiles u) = {}"
    by (rule registry.owns_disjoint [OF bspec [OF owns assms(1)] bspec [OF owns assms(2)] assms(3)])
  ultimately show ?thesis by blast
qed

theorem ready_tasks_exclusive_witness:
  "snd (GetReadyTasks sample_plan 2 Map.empty) ''api.go'' = Some (task_ID sample_plain)
   \<and> set (task_TargetFiles sample_plain) \<inter> set (task_TargetFiles sample_linked) = {}"
proof -
  have d: "task_ID sample_plain \<noteq> task_ID sample_linked" by code_simp
  have "''api.go'' \<in> set (task_TargetFiles sample_plain)" by code_simp
  with ready_tasks_exclusive [OF sample_ready d] show ?thesis by blast
qed

text \<open>C18: The scheduler makes progress: with no project-wide clarification open and a free slot,
  a task that is retryable, unblocked, has its dependencies and story barrier met and its
  files free leads to at least one dispatched task.\<close>

theorem ready_tasks_progress:
  assumes "\<forall>c \<in> set (st_Clarifications state). clar_Resolved c \<or> clar_TaskID c \<noteq> []"
    and "activeCount state < limit" and "t \<in> set (st_Tasks state)" and "retryable t"
    and "\<not> clar_blocked (task_index state) (st_Tasks state) (st_Clarifications state) (task_ID t)"
    and "depsMet (task_index state) (st_Tasks state) t"
    and "\<forall>f \<in> set (task_TargetFiles t). l f = None \<or> l f = Some (task_ID t)"
  shows "fst (GetReadyTasks state limit l) \<noteq> []"
proof -
  let ?idx = "task_index state"
  obtain b0 where b0: "initial_blocked ?idx (st_Clarifications state) {} = Some b0"
    using assms(1) initial_blocked_None_iff [of ?idx "st_Clarifications state" "{}"] by fastforce
  have "eligible state (propagate ?idx (st_Tasks state) b0) t"
    using assms(4-6) propagate_iff [OF b0] by (simp add: eligible_def)
  with assms(3,7) have "\<exists>u \<in> set (st_Tasks state). eligible state (propagate ?idx (st_Tasks state) b0) u
      \<and> fst (TryAcquireLocks l (task_ID u) (task_TargetFiles u))"
    using TryAcquireLocks_granted by blast
  from select_ready_progress [OF this] b0 assms(2) show ?thesis by (simp add: GetReadyTasks_def Let_def)
qed

theorem ready_tasks_progress_witness: "fst (GetReadyTasks sample_plan 1 Map.empty) \<noteq> []"
proof -
  have none: "st_Clarifications sample_plan = []" by code_simp
  have "\<not> clar_blocked i ts [] x" for i ts x
  proof
    assume "clar_blocked i ts [] x"
    then show False by induction auto
  qed
  with none have nb: "\<not> clar_blocked (task_index sample_plan) (st_Tasks sample_plan)
      (st_Clarifications sample_plan) (task_ID sample_linked)" by simp
  have c: "\<forall>c \<in> set (st_Clarifications sample_plan). clar_Resolved c \<or> clar_TaskID c \<noteq> []"
    by (simp add: none)
  have h: "activeCount sample_plan < 1" "sample_linked \<in> set (st_Tasks sample_plan)"
    "retryable sample_linked" "depsMet (task_index sample_plan) (st_Tasks sample_plan) sample_linked"
    by code_simp+
  show ?thesis by (rule ready_tasks_progress [OF c h(1-3) nb h(4)]) simp
qed

text \<open>The story barrier: a dispatched task of story number \<open>k\<close> that depends on no task of an
  earlier story runs only when every task of every earlier story has succeeded.\<close>

theorem story_barrier:
  assumes "t \<in> set (fst (GetReadyTasks state limit l))"
    and "\<not> hasCrossStoryDep (task_index state) (st_Tasks state) t"
    and "u \<in> set (st_Tasks state)" and "task_ID u \<noteq> task_ID t"
    and "0 < parseStoryIndex (task_StoryID u)"
    and "parseStoryIndex (task_StoryID u) < parseStoryIndex (task_StoryID t)"
  shows "task_Status u = TaskSuccess"
proof -
  have "task_StoryID t \<noteq> []" "task_StoryID u \<noteq> []" using assms(5,6) by (auto simp: parseStoryIndex_def)
  moreover have "milestone_met (task_index state) (st_Tasks state) t"
    using ready_elem(3) [OF assms(1)] by (simp add: depsMet_def)
  ultimately show ?thesis using assms by (auto simp: milestone_met_def list_all_iff)
qed

theorem story_barrier_witness: "task_Status sample_done = TaskSuccess"
proof -
  have h: "\<not> hasCrossStoryDep (task_index sample_plan) (st_Tasks sample_plan) sample_plain"
    "sample_done \<in> set (st_Tasks sample_plan)" "task_ID sample_done \<noteq> task_ID sample_plain"
    "0 < parseStoryIndex (task_StoryID sample_done)"
    "parseStoryIndex (task_StoryID sample_done) < parseStoryIndex (task_StoryID sample_plain)"
    by code_simp+
  show ?thesis by (rule story_barrier [OF sample_ready(1) h])
qed

text \<open>The memoised index resolves a dependency string exactly as a scan over the task list
  does: first exact match, else first normalised match, else first substring match.\<close>

theorem index_equals_scan: "resolve (newDependencyIndex ts) dep = resolve_scan ts dep"
  by (rule resolve_eq_scan)

text \<open>A task whose title normalises to nothing (a title of symbols or of non-Latin letters)
  captures references: every dependency string with a letter or digit then resolves to some
  task, however unrelated, so that no dependency is reported as missing any more.\<close>

theorem blank_title_captures_references:
  assumes "t \<in> set ts" and "normalizeDependencyToken (task_Title t) = []"
    and "normalizeDependencyToken dep \<noteq> []"
  shows "\<exists>u \<in> set ts. resolve (newDependencyIndex ts) dep = Some (task_ID u)"
proof -
  let ?n = "normalizeDependencyToken dep"
  let ?P = "\<lambda>t. let nt = normalizeDependencyToken (task_Title t);
      ni = normalizeDependencyToken (task_ID t)
    in Contains nt ?n \<or> Contains ?n nt \<or> Contains ni ?n \<or> Contains ?n ni"
  have "?P t" using assms(2) by simp
  with assms(1) have "find ?P ts \<noteq> None" by (auto simp: find_None_iff)
  with assms(3) show ?thesis
    unfolding resolve_eq_scan by (auto simp: resolve_scan_def Let_def dest: find_SomeD split: option.splits)
qed

theorem blank_title_captures_references_witness:
  "\<exists>u \<in> set [mk_task ''T1'' ''---'' TaskPending].
     resolve (newDependencyIndex [mk_task ''T1'' ''---'' TaskPending]) ''missing'' = Some (task_ID u)"
proof -
  let ?t = "mk_task ''T1'' ''---'' TaskPending"
  have n: "normalizeDependencyToken (task_Title ?t) = []" "normalizeDependencyToken ''missing'' \<noteq> []"
    by code_simp+
  show ?thesis by (rule blank_title_captures_references [OF _ n]) simp
qed

end
