(* ===== verification/Story_Dag.thy ===== *)
theory Story_Dag
  imports Story_Ids
begin

text \<open>
  The story scheduler of \<open>src/pkg/services/story_dag_scheduler.go\<close>: the dependency declaration
  parsed from a story's markdown, the graph that \<open>AddStory\<close> builds, and the loop of
  \<open>Execute\<close>. The loop body holds the scheduler's mutex while it dispatches and every worker
  goroutine holds it while it reports, so an execution is a sequence of atomic steps
  (\<open>exec_step\<close>): a dispatch round, a story that succeeds, a story that fails. The order of the
  reports is not determined, hence a relation. \<open>exec_result\<close> lists the ways the loop returns.

  The YAML decoder is a parameter (\<open>yaml\<close>): \<open>None\<close> when it reports an error.
\<close>

section \<open>Dependency declarations in markdown\<close>

definition re_pathchar :: "char \<Rightarrow> bool" where
  "re_pathchar c \<longleftrightarrow> is_lower_alpha c \<or> is_upper_alpha c \<or> is_digit c \<or> c \<in> set ''_/.-''"

text \<open>The text up to the first closing delimiter, which must be on the same line.\<close>

definition re_delimited :: "char \<Rightarrow> string \<Rightarrow> string option" where
  "re_delimited close s =
     (let inner = takeWhile (\<lambda>c. c \<noteq> close \<and> c \<noteq> newline) s
      in if drop (length inner) s \<noteq> [] \<and> hd (drop (length inner) s) = close
         then Some (inner @ [close]) else None)"

definition re_value :: "string \<Rightarrow> string option" where
  "re_value s =
     (case s of
        [] \<Rightarrow> None
      | c # t \<Rightarrow>
          if c = CHR ''['' then map_option ((#) c) (re_delimited (CHR '']'') t)
          else if c = CHR 0x22 then map_option ((#) c) (re_delimited c t)
          else if c = CHR 0x27 then map_option ((#) c) (re_delimited c t)
          else if re_pathchar c then Some (takeWhile re_pathchar s) else None)"

text \<open>The expression after its anchor: \<open>\s*depends_on\s*:\s*(value)\<close>, ignoring case.\<close>

definition re_body :: "string \<Rightarrow> string option" where
  "re_body s =
     (let s1 = dropWhile re_space s
      in if prefix ''depends_on'' (ToLower s1)
         then case dropWhile re_space (drop 10 s1) of
                [] \<Rightarrow> None
              | c # s2 \<Rightarrow> if c = CHR '':'' then re_value (dropWhile re_space s2) else None
         else None)"

fun re_scan :: "string \<Rightarrow> string option" where
  "re_scan [] = None"
| "re_scan (c # s) =
     (if c = newline \<and> re_body s \<noteq> None then re_body s
      else if prefix ''**'' (c # s) \<and> re_body (tl s) \<noteq> None then re_body (tl s)
      else re_scan s)"

definition dependsOnRE :: "string \<Rightarrow> string option" where
  "dependsOnRE s = (if re_body s \<noteq> None then re_body s else re_scan s)"

definition TrimSet :: "string \<Rightarrow> string \<Rightarrow> string" where
  "TrimSet s cutset =
     rev (dropWhile (\<lambda>c. c \<in> set cutset) (rev (dropWhile (\<lambda>c. c \<in> set cutset) s)))"

definition quote_chars :: string where
  "quote_chars = [CHR 0x22, CHR 0x27, CHR 0x60]"

definition raw_dependencies :: "(string \<Rightarrow> string list option) \<Rightarrow> string \<Rightarrow> string list" where
  "raw_dependencies yaml rawVal =
     (if HasPrefix rawVal ''['' \<and> HasSuffix rawVal '']'' then
        (case yaml rawVal of
           Some l \<Rightarrow> l
         | None \<Rightarrow> filter (\<lambda>p. p \<noteq> [])
                    (map (\<lambda>p. TrimSet (TrimSpace p) quote_chars)
                      (Split (TrimSet rawVal ''[]'') (CHR '',''))))
      else filter (\<lambda>p. p \<noteq> []) [TrimSet rawVal quote_chars])"

text \<open>The name a raw entry contributes: its story identifier, else the trimmed text.\<close>

definition dependency_name :: "string \<Rightarrow> string" where
  "dependency_name dep = (if ExtractStoryID dep \<noteq> [] then ExtractStoryID dep else TrimSpace dep)"

definition ParseStoryDependencies :: "(string \<Rightarrow> string list option) \<Rightarrow> string \<Rightarrow> string list" where
  "ParseStoryDependencies yaml markdown =
     (case dependsOnRE markdown of
        None \<Rightarrow> []
      | Some g \<Rightarrow> dedup_acc [] (filter (\<lambda>n. n \<noteq> [])
                   (map dependency_name (raw_dependencies yaml (TrimSpace g)))))"

section \<open>The scheduling graph\<close>

record StoryWorkItem =
  item_Path :: string
  item_Spec :: string
  item_LogPath :: string

datatype StoryDAGNodeStatus = StoryNodePending | StoryNodeRunning | StoryNodeSuccess | StoryNodeFailed

record StoryDAGNode =
  node_Item :: StoryWorkItem
  node_StoryID :: string
  node_DependsOn :: "string list"
  node_Status :: StoryDAGNodeStatus
  node_Error :: "string option"

type_synonym story_nodes = "string \<rightharpoonup> StoryDAGNode"

record StoryDAGScheduler =
  sd_nodes :: story_nodes
  sd_storyIDs :: "string list"
  sd_maxConcurrent :: nat
  sd_pipelined :: bool
  sd_streaming :: bool
  sd_streamClosed :: bool

definition NewStoryDAGScheduler :: "int \<Rightarrow> StoryDAGScheduler" where
  "NewStoryDAGScheduler maxConcurrent =
     \<lparr>sd_nodes = Map.empty, sd_storyIDs = [],
      sd_maxConcurrent = (if maxConcurrent \<le> 0 then 4 else nat maxConcurrent),
      sd_pipelined = False, sd_streaming = False, sd_streamClosed = False\<rparr>"

definition SetPipelined :: "StoryDAGScheduler \<Rightarrow> bool \<Rightarrow> StoryDAGScheduler" where
  "SetPipelined s enabled = s\<lparr>sd_pipelined := enabled\<rparr>"

definition SetStreaming :: "StoryDAGScheduler \<Rightarrow> bool \<Rightarrow> StoryDAGScheduler" where
  "SetStreaming s enabled =
     (let s1 = s\<lparr>sd_streaming := enabled\<rparr> in if enabled then s1 else s1\<lparr>sd_streamClosed := True\<rparr>)"

definition CloseStoryStream :: "StoryDAGScheduler \<Rightarrow> StoryDAGScheduler" where
  "CloseStoryStream s = s\<lparr>sd_streamClosed := True\<rparr>"

definition isSkeletonStory :: "StoryDAGNode \<Rightarrow> bool" where
  "isSkeletonStory node =
     (let lowerPath = ToLower (item_Path (node_Item node));
          lowerSpec = ToLower (item_Spec (node_Item node))
      in Contains lowerPath ''skeleton'' \<or> Contains lowerPath ''scaffold''
         \<or> Contains lowerPath ''foundation'' \<or> Contains lowerSpec ''walking skeleton'')"

definition story_less :: "story_nodes \<Rightarrow> string \<Rightarrow> string \<Rightarrow> bool" where
  "story_less nodes i j =
     (case (nodes i, nodes j) of
        (Some ni, Some nj) \<Rightarrow>
          (let lenI = length (node_DependsOn ni); lenJ = length (node_DependsOn nj)
           in if lenI \<noteq> lenJ then lenI < lenJ
              else if isSkeletonStory ni \<noteq> isSkeletonStory nj then isSkeletonStory ni
              else let seqI = ExtractStorySequence i; seqJ = ExtractStorySequence j
                   in if seqI \<noteq> seqJ \<and> seqI > 0 \<and> seqJ > 0 then seqI < seqJ
                      else string_less i j)
      | _ \<Rightarrow> False)"

definition sortStoryIDsLocked :: "StoryDAGScheduler \<Rightarrow> StoryDAGScheduler" where
  "sortStoryIDsLocked s = s\<lparr>sd_storyIDs := sort_stable (story_less (sd_nodes s)) (sd_storyIDs s)\<rparr>"

definition story_key :: "string \<Rightarrow> string" where
  "story_key path = (if ExtractStoryID path = [] then Base path else ExtractStoryID path)"

definition story_deps ::
  "(string \<Rightarrow> string list option) \<Rightarrow> StoryDAGScheduler \<Rightarrow> StoryWorkItem \<Rightarrow> string list" where
  "story_deps yaml s item =
     (let storyID = story_key (item_Path item);
          deps = filter (\<lambda>dep. dep \<noteq> storyID \<and> dep \<noteq> Base (item_Path item))
                   (ParseStoryDependencies yaml (item_Spec item))
      in if ExtractStorySequence storyID > 1
            \<and> (sd_streaming s \<or> sd_nodes s ''US-001'' \<noteq> None) \<and> ''US-001'' \<notin> set deps
         then ''US-001'' # deps else deps)"

definition AddStory ::
  "(string \<Rightarrow> string list option) \<Rightarrow> StoryDAGScheduler \<Rightarrow> StoryWorkItem \<Rightarrow> StoryDAGScheduler" where
  "AddStory yaml s item =
     (let storyID = story_key (item_Path item); deps = story_deps yaml s item
      in sortStoryIDsLocked
           (case sd_nodes s storyID of
              Some existing \<Rightarrow>
                s\<lparr>sd_nodes := (sd_nodes s)(storyID \<mapsto>
                    existing\<lparr>node_Item := item, node_DependsOn := deps\<rparr>)\<rparr>
            | None \<Rightarrow>
                s\<lparr>sd_storyIDs := sd_storyIDs s @ [storyID],
                  sd_nodes := (sd_nodes s)(storyID \<mapsto>
                    \<lparr>node_Item = item, node_StoryID = storyID, node_DependsOn = deps,
                     node_Status = StoryNodePending, node_Error = None\<rparr>)\<rparr>))"

definition MarkStoryCompleted :: "StoryDAGScheduler \<Rightarrow> string \<Rightarrow> StoryDAGScheduler" where
  "MarkStoryCompleted s storyIDOrPath =
     (case sd_nodes s (story_key storyIDOrPath) of
        Some node \<Rightarrow> s\<lparr>sd_nodes := (sd_nodes s)(story_key storyIDOrPath \<mapsto>
                        node\<lparr>node_Status := StoryNodeSuccess\<rparr>)\<rparr>
      | None \<Rightarrow> s)"

text \<open>How a caller prepares an execution (\<open>start_dag_loop.go\<close>): a fresh scheduler, every
  story added, the stories finished in an earlier loop marked.\<close>

definition load_stories ::
  "(string \<Rightarrow> string list option) \<Rightarrow> int \<Rightarrow> bool \<Rightarrow> StoryWorkItem list \<Rightarrow> string list \<Rightarrow> StoryDAGScheduler" where
  "load_stories yaml storyConcurrency isPipelined items completed =
     foldl MarkStoryCompleted
       (foldl (AddStory yaml) (SetPipelined (NewStoryDAGScheduler storyConcurrency) isPipelined) items)
       completed"

section \<open>The dispatch round\<close>

definition dep_ready :: "bool \<Rightarrow> story_nodes \<Rightarrow> string \<Rightarrow> bool" where
  "dep_ready pipelined nodes depID =
     (case nodes depID of
        None \<Rightarrow> False
      | Some n \<Rightarrow> if pipelined then node_Status n = StoryNodeRunning \<or> node_Status n = StoryNodeSuccess
                  else node_Status n = StoryNodeSuccess)"

definition depsSatisfied :: "bool \<Rightarrow> story_nodes \<Rightarrow> StoryDAGNode \<Rightarrow> bool" where
  "depsSatisfied pipelined nodes node = list_all (dep_ready pipelined nodes) (node_DependsOn node)"

fun dispatch_loop ::
  "bool \<Rightarrow> nat \<Rightarrow> string list \<Rightarrow> story_nodes \<Rightarrow> nat \<Rightarrow> story_nodes \<times> nat \<times> string list" where
  "dispatch_loop pipelined maxc [] nodes active = (nodes, active, [])"
| "dispatch_loop pipelined maxc (i # is) nodes active =
     (case nodes i of
        None \<Rightarrow> dispatch_loop pipelined maxc is nodes active
      | Some node \<Rightarrow>
          if node_Status node \<noteq> StoryNodePending then dispatch_loop pipelined maxc is nodes active
          else if active \<ge> maxc then (nodes, active, [])
          else if depsSatisfied pipelined nodes node then
            (let (nodes', active', ds) = dispatch_loop pipelined maxc is
                   (nodes(i \<mapsto> node\<lparr>node_Status := StoryNodeRunning\<rparr>)) (active + 1)
             in (nodes', active', i # ds))
          else dispatch_loop pipelined maxc is nodes active)"

section \<open>Execution\<close>

record story_exec =
  ex_sched :: StoryDAGScheduler
  ex_active :: nat
  ex_firstErr :: "string option"

definition exec_start :: "StoryDAGScheduler \<Rightarrow> story_exec" where
  "exec_start s = \<lparr>ex_sched = sortStoryIDsLocked s, ex_active = 0, ex_firstErr = None\<rparr>"

abbreviation ex_nodes :: "story_exec \<Rightarrow> story_nodes" where
  "ex_nodes e \<equiv> sd_nodes (ex_sched e)"

abbreviation set_nodes :: "story_exec \<Rightarrow> story_nodes \<Rightarrow> story_exec" where
  "set_nodes e n \<equiv> e\<lparr>ex_sched := (ex_sched e)\<lparr>sd_nodes := n\<rparr>\<rparr>"

definition has_status :: "story_nodes \<Rightarrow> StoryDAGNodeStatus \<Rightarrow> string \<Rightarrow> bool" where
  "has_status nodes st i \<longleftrightarrow> (case nodes i of Some n \<Rightarrow> node_Status n = st | None \<Rightarrow> False)"

definition stream_open :: "StoryDAGScheduler \<Rightarrow> bool" where
  "stream_open s \<longleftrightarrow> sd_streaming s \<and> \<not> sd_streamClosed s"

definition all_finished :: "StoryDAGScheduler \<Rightarrow> bool" where
  "all_finished s \<longleftrightarrow> \<not> stream_open s \<and>
     list_all (\<lambda>i. \<not> has_status (sd_nodes s) StoryNodePending i
                 \<and> \<not> has_status (sd_nodes s) StoryNodeRunning i) (sd_storyIDs s)"

definition dispatch_round :: "story_exec \<Rightarrow> story_exec \<times> string list" where
  "dispatch_round e =
     (let s = ex_sched e;
          (nodes', active', ds) = dispatch_loop (sd_pipelined s) (sd_maxConcurrent s)
             (sd_storyIDs s) (sd_nodes s) (ex_active e)
      in ((set_nodes e nodes')\<lparr>ex_active := active'\<rparr>, ds))"

definition report_success :: "story_exec \<Rightarrow> string \<Rightarrow> StoryDAGNode \<Rightarrow> story_exec" where
  "report_success e i n =
     (set_nodes e ((ex_nodes e)(i \<mapsto> n\<lparr>node_Status := StoryNodeSuccess\<rparr>)))\<lparr>ex_active := ex_active e - 1\<rparr>"

definition report_failure :: "story_exec \<Rightarrow> string \<Rightarrow> StoryDAGNode \<Rightarrow> string \<Rightarrow> story_exec" where
  "report_failure e i n err =
     (set_nodes e ((ex_nodes e)(i \<mapsto> n\<lparr>node_Status := StoryNodeFailed, node_Error := Some err\<rparr>)))
       \<lparr>ex_active := ex_active e - 1,
        ex_firstErr := (case ex_firstErr e of None \<Rightarrow> Some (node_StoryID n) | Some x \<Rightarrow> Some x)\<rparr>"

inductive exec_step :: "story_exec \<Rightarrow> story_exec \<Rightarrow> bool" where
  dispatch: "\<not> all_finished (ex_sched e) \<Longrightarrow> dispatch_round e = (e', ds) \<Longrightarrow> ds \<noteq> []
    \<Longrightarrow> exec_step e e'"
| succeed: "ex_nodes e i = Some n \<Longrightarrow> node_Status n = StoryNodeRunning
    \<Longrightarrow> exec_step e (report_success e i n)"
| fail: "ex_nodes e i = Some n \<Longrightarrow> node_Status n = StoryNodeRunning
    \<Longrightarrow> exec_step e (report_failure e i n err)"

datatype exec_outcome = ExecDone "string option" | ExecDeadlock "string list" | ExecCancelled

inductive exec_result :: "story_exec \<Rightarrow> exec_outcome \<Rightarrow> bool" where
  finished: "all_finished (ex_sched e) \<Longrightarrow> exec_result e (ExecDone (ex_firstErr e))"
| cancelled: "\<not> all_finished (ex_sched e) \<Longrightarrow> exec_result e ExecCancelled"
| deadlock: "\<not> all_finished (ex_sched e) \<Longrightarrow> dispatch_round e = (e', []) \<Longrightarrow> ex_active e' = 0
    \<Longrightarrow> \<not> stream_open (ex_sched e)
    \<Longrightarrow> exec_result e (ExecDeadlock (filter (has_status (ex_nodes e) StoryNodePending) (sd_storyIDs (ex_sched e))))"

inductive_cases exec_stepE: "exec_step e e'"
inductive_cases exec_resultE: "exec_result e r"

inductive exec_reach :: "StoryDAGScheduler \<Rightarrow> story_exec \<Rightarrow> bool" for s where
  start: "exec_reach s (exec_start s)"
| step: "exec_reach s e \<Longrightarrow> exec_step e e' \<Longrightarrow> exec_reach s e'"

section \<open>Facts on the dispatch loop\<close>

text \<open>What one round may do to the graph: some pending nodes whose dependencies are ready start
  running, everything else is unchanged.\<close>

definition advanced :: "bool \<Rightarrow> story_nodes \<Rightarrow> story_nodes \<Rightarrow> bool" where
  "advanced p n n' \<longleftrightarrow> (\<forall>x. n' x = n x \<or>
     (\<exists>a. n x = Some a \<and> node_Status a = StoryNodePending
        \<and> n' x = Some (a\<lparr>node_Status := StoryNodeRunning\<rparr>) \<and> depsSatisfied p n' a))"

lemma advanced_refl: "advanced p n n"
  by (simp add: advanced_def)

lemma advanced_dep_ready: "advanced p n n' \<Longrightarrow> dep_ready p n d \<Longrightarrow> dep_ready p n' d"
  unfolding advanced_def dep_ready_def by (erule allE [of _ d]) (auto split: option.splits if_splits)

lemma advanced_depsSatisfied: "advanced p n n' \<Longrightarrow> depsSatisfied p n a \<Longrightarrow> depsSatisfied p n' a"
  by (auto simp: depsSatisfied_def list_all_iff advanced_dep_ready)

lemma advanced_start:
  assumes "n i = Some a" "node_Status a = StoryNodePending" "depsSatisfied p n a"
    and adv: "advanced p (n(i \<mapsto> a\<lparr>node_Status := StoryNodeRunning\<rparr>)) n'"
  shows "advanced p n n'"
proof -
  let ?n1 = "n(i \<mapsto> a\<lparr>node_Status := StoryNodeRunning\<rparr>)"
  have "dep_ready p ?n1 d" if "dep_ready p n d" for d
    using that assms(1,2) by (auto simp: dep_ready_def split: option.splits if_splits)
  then have "depsSatisfied p ?n1 a" using assms(3) by (auto simp: depsSatisfied_def list_all_iff)
  then have sat: "depsSatisfied p n' a" by (rule advanced_depsSatisfied [OF adv])
  show ?thesis unfolding advanced_def
  proof
    fix x
    show "n' x = n x \<or> (\<exists>a. n x = Some a \<and> node_Status a = StoryNodePending
        \<and> n' x = Some (a\<lparr>node_Status := StoryNodeRunning\<rparr>) \<and> depsSatisfied p n' a)"
    proof (cases "x = i")
      case True
      from adv [unfolded advanced_def, rule_format, of i]
      have "n' i = Some (a\<lparr>node_Status := StoryNodeRunning\<rparr>)" by auto
      with True assms(1,2) sat show ?thesis by auto
    next
      case False
      with adv [unfolded advanced_def, rule_format, of x] show ?thesis by auto
    qed
  qed
qed

lemma dispatch_loop_advanced:
  "dispatch_loop p mx is n a = (n', a', ds) \<Longrightarrow> advanced p n n'"
  by (induction p mx "is" n a arbitrary: n' a' ds rule: dispatch_loop.induct)
    (auto split: option.splits if_splits prod.splits simp: advanced_refl intro: advanced_start)

definition count_status :: "story_nodes \<Rightarrow> StoryDAGNodeStatus \<Rightarrow> string list \<Rightarrow> nat" where
  "count_status n st L = length (filter (has_status n st) L)"

lemma count_status_update:
  assumes "i \<in> set L" "distinct L" "n i = Some a" "node_Status a = st" "node_Status b = st'" "st \<noteq> st'"
  shows "count_status n st L = Suc (count_status (n(i \<mapsto> b)) st L)"
    and "count_status (n(i \<mapsto> b)) st' L = Suc (count_status n st' L)"
    and "st'' \<noteq> st \<Longrightarrow> st'' \<noteq> st' \<Longrightarrow> count_status (n(i \<mapsto> b)) st'' L = count_status n st'' L"
proof -
  obtain us vs where L: "L = us @ i # vs" "i \<notin> set us" "i \<notin> set vs"
    using split_list [OF assms(1)] assms(2) by auto
  have other: "filter (has_status (n(i \<mapsto> b)) s) xs = filter (has_status n s) xs" if "i \<notin> set xs" for s xs
    using that by (intro filter_cong) (auto simp: has_status_def split: if_splits)
  show "count_status n st L = Suc (count_status (n(i \<mapsto> b)) st L)"
    "count_status (n(i \<mapsto> b)) st' L = Suc (count_status n st' L)"
    "st'' \<noteq> st \<Longrightarrow> st'' \<noteq> st' \<Longrightarrow> count_status (n(i \<mapsto> b)) st'' L = count_status n st'' L"
    using assms(3-6) by (auto simp: count_status_def L(1) other [OF L(2)] other [OF L(3)] has_status_def)
qed

lemma dispatch_loop_counts:
  "dispatch_loop p mx is n a = (n', a', ds) \<Longrightarrow> distinct L \<Longrightarrow> set is \<subseteq> set L \<Longrightarrow>
     a' = a + length ds
     \<and> count_status n' StoryNodeRunning L = count_status n StoryNodeRunning L + length ds
     \<and> count_status n StoryNodePending L = count_status n' StoryNodePending L + length ds
     \<and> (a \<le> mx \<longrightarrow> a' \<le> mx)"
proof (induction p mx "is" n a arbitrary: n' a' ds rule: dispatch_loop.induct)
  case (1 p mx n a)
  then show ?case by simp
next
  case (2 p mx i "is" n a)
  show ?case
  proof (cases "\<exists>b. n i = Some b \<and> node_Status b = StoryNodePending \<and> a < mx \<and> depsSatisfied p n b")
    case True
    then obtain b where b: "n i = Some b" "node_Status b = StoryNodePending" "a < mx" "depsSatisfied p n b"
      by blast
    let ?n1 = "n(i \<mapsto> b\<lparr>node_Status := StoryNodeRunning\<rparr>)"
    obtain ds' where d: "dispatch_loop p mx is ?n1 (a + 1) = (n', a', ds')" "ds = i # ds'"
      using 2(5) b by (auto split: prod.splits)
    from 2(3) [OF b(1) _ _ b(4) d(1)] b 2(6,7)
    have IH: "a' = a + 1 + length ds' \<and> count_status n' StoryNodeRunning L = count_status ?n1 StoryNodeRunning L + length ds'
      \<and> count_status ?n1 StoryNodePending L = count_status n' StoryNodePending L + length ds'
      \<and> (a + 1 \<le> mx \<longrightarrow> a' \<le> mx)" by (simp del: fun_upd_apply)
    have "i \<in> set L" using 2(7) by simp
    note upd = count_status_update [where n = n and i = i and a = b and L = L and st = StoryNodePending
      and b = "b\<lparr>node_Status := StoryNodeRunning\<rparr>" and st' = StoryNodeRunning, OF this 2(6) b(1,2)]
    from IH upd(1,2) b(3) d(2) show ?thesis by simp
  next
    case False
    then have "(n', a', ds) = (n, a, []) \<or> dispatch_loop p mx is n a = (n', a', ds)"
      using 2(5) by (auto split: option.splits if_splits prod.splits)
    moreover have ?thesis if "dispatch_loop p mx is n a = (n', a', ds)"
      using False that 2(1,2,4) 2(5-7) by (cases "n i") (auto split: if_splits)
    ultimately show ?thesis by auto
  qed
qed

lemma dispatch_loop_progress:
  "i \<in> set is \<Longrightarrow> n i = Some b \<Longrightarrow> node_Status b = StoryNodePending \<Longrightarrow> depsSatisfied p n b
   \<Longrightarrow> a < mx \<Longrightarrow> snd (snd (dispatch_loop p mx is n a)) \<noteq> []"
  by (induction "is") (auto split: option.splits prod.splits)

section \<open>Well-formed graphs\<close>

definition sched_wf :: "StoryDAGScheduler \<Rightarrow> bool" where
  "sched_wf s \<longleftrightarrow> distinct (sd_storyIDs s) \<and> dom (sd_nodes s) = set (sd_storyIDs s)
     \<and> 0 < sd_maxConcurrent s"

text \<open>Before an execution no story is running or has failed.\<close>

definition sched_idle :: "StoryDAGScheduler \<Rightarrow> bool" where
  "sched_idle s \<longleftrightarrow> (\<forall>i n. sd_nodes s i = Some n
     \<longrightarrow> node_Status n = StoryNodePending \<or> node_Status n = StoryNodeSuccess)"

lemma sort_keeps:
  "sched_wf (sortStoryIDsLocked s) \<longleftrightarrow> sched_wf s"
  "sched_idle (sortStoryIDsLocked s) \<longleftrightarrow> sched_idle s"
  by (simp_all add: sched_wf_def sched_idle_def sortStoryIDsLocked_def)

lemma NewStoryDAGScheduler_wf: "sched_wf (NewStoryDAGScheduler k)" "sched_idle (NewStoryDAGScheduler k)"
  by (auto simp: sched_wf_def sched_idle_def NewStoryDAGScheduler_def)

lemma AddStory_wf: "sched_wf s \<Longrightarrow> sched_wf (AddStory yaml s item)"
  unfolding AddStory_def Let_def sort_keeps
  by (cases "sd_nodes s (story_key (item_Path item))")
    (auto simp: sched_wf_def domIff intro: domI)

lemma AddStory_idle: "sched_idle s \<Longrightarrow> sched_idle (AddStory yaml s item)"
  unfolding AddStory_def Let_def sort_keeps
  by (cases "sd_nodes s (story_key (item_Path item))") (auto simp: sched_idle_def)

lemma MarkStoryCompleted_wf: "sched_wf s \<Longrightarrow> sched_wf (MarkStoryCompleted s p)"
  by (auto simp: MarkStoryCompleted_def sched_wf_def split: option.splits)

lemma MarkStoryCompleted_idle: "sched_idle s \<Longrightarrow> sched_idle (MarkStoryCompleted s p)"
  by (auto simp: MarkStoryCompleted_def sched_idle_def split: option.splits)

lemma stream_setters_wf:
  "sched_wf (SetPipelined s b) \<longleftrightarrow> sched_wf s" "sched_wf (SetStreaming s b) \<longleftrightarrow> sched_wf s"
  "sched_wf (CloseStoryStream s) \<longleftrightarrow> sched_wf s" "sched_idle (SetPipelined s b) \<longleftrightarrow> sched_idle s"
  by (simp_all add: sched_wf_def sched_idle_def SetPipelined_def SetStreaming_def CloseStoryStream_def Let_def)

section \<open>The execution invariant\<close>

definition deps_done :: "story_nodes \<Rightarrow> bool" where
  "deps_done nodes \<longleftrightarrow> (\<forall>i n. nodes i = Some n
     \<longrightarrow> node_Status n = StoryNodeRunning \<or> node_Status n = StoryNodeFailed
     \<longrightarrow> (\<forall>d \<in> set (node_DependsOn n). has_status nodes StoryNodeSuccess d))"

definition exec_inv :: "story_exec \<Rightarrow> bool" where
  "exec_inv e \<longleftrightarrow> sched_wf (ex_sched e)
     \<and> ex_active e = count_status (ex_nodes e) StoryNodeRunning (sd_storyIDs (ex_sched e))
     \<and> ex_active e \<le> sd_maxConcurrent (ex_sched e)
     \<and> (sd_pipelined (ex_sched e) \<or> deps_done (ex_nodes e))"

lemma count_status_zero: "(\<And>i. i \<in> set L \<Longrightarrow> \<not> has_status n st i) \<Longrightarrow> count_status n st L = 0"
  by (simp add: count_status_def filter_empty_conv)

lemma exec_inv_start: "sched_wf s \<Longrightarrow> sched_idle s \<Longrightarrow> exec_inv (exec_start s)"
proof -
  assume a: "sched_wf s" "sched_idle s"
  have "\<not> has_status (sd_nodes s) StoryNodeRunning i" for i
    using a(2) [unfolded sched_idle_def, rule_format, of i] by (cases "sd_nodes s i") (auto simp: has_status_def)
  then have "count_status (sd_nodes s) StoryNodeRunning L = 0" for L by (simp add: count_status_zero)
  moreover have "deps_done (sd_nodes s)" using a(2) by (fastforce simp: deps_done_def sched_idle_def)
  ultimately show ?thesis
    using a(1) by (simp add: exec_inv_def exec_start_def sort_keeps) (simp add: sortStoryIDsLocked_def)
qed

lemma has_status_advanced_success:
  "advanced p n n' \<Longrightarrow> has_status n StoryNodeSuccess d \<Longrightarrow> has_status n' StoryNodeSuccess d"
  unfolding advanced_def has_status_def by (erule allE [of _ d]) (auto split: option.splits)

lemma dep_ready_strict: "dep_ready False n d \<longleftrightarrow> has_status n StoryNodeSuccess d"
  by (simp add: dep_ready_def has_status_def split: option.splits)

lemma advanced_deps_done: "advanced False n n' \<Longrightarrow> deps_done n \<Longrightarrow> deps_done n'"
  unfolding deps_done_def
proof (intro allI impI ballI)
  fix i b d
  assume adv: "advanced False n n'" and inv: "\<forall>i b. n i = Some b \<longrightarrow>
      node_Status b = StoryNodeRunning \<or> node_Status b = StoryNodeFailed \<longrightarrow>
      (\<forall>d \<in> set (node_DependsOn b). has_status n StoryNodeSuccess d)"
    and b: "n' i = Some b" "node_Status b = StoryNodeRunning \<or> node_Status b = StoryNodeFailed"
    and d: "d \<in> set (node_DependsOn b)"
  from adv [unfolded advanced_def, rule_format, of i]
  show "has_status n' StoryNodeSuccess d"
  proof
    assume "n' i = n i"
    with inv b d have "has_status n StoryNodeSuccess d" by auto
    with adv show ?thesis by (rule has_status_advanced_success)
  next
    assume "\<exists>a. n i = Some a \<and> node_Status a = StoryNodePending
        \<and> n' i = Some (a\<lparr>node_Status := StoryNodeRunning\<rparr>) \<and> depsSatisfied False n' a"
    with b(1) d show ?thesis by (auto simp: depsSatisfied_def list_all_iff dep_ready_strict)
  qed
qed

lemma advanced_dom: "advanced p n n' \<Longrightarrow> dom n' = dom n"
proof
  assume adv: "advanced p n n'"
  show "dom n' \<subseteq> dom n" "dom n \<subseteq> dom n'"
    using adv [unfolded advanced_def, rule_format] by (auto simp: dom_def) (metis option.distinct(1))+
qed

lemma dispatch_roundE:
  assumes "dispatch_round e = (e', ds)"
  obtains n' where "dispatch_loop (sd_pipelined (ex_sched e)) (sd_maxConcurrent (ex_sched e))
      (sd_storyIDs (ex_sched e)) (ex_nodes e) (ex_active e) = (n', ex_active e', ds)"
    and "ex_nodes e' = n'" "ex_sched e' = (ex_sched e)\<lparr>sd_nodes := n'\<rparr>" "ex_firstErr e' = ex_firstErr e"
  using assms by (auto simp: dispatch_round_def Let_def split: prod.splits)

lemma exec_inv_dispatch:
  assumes inv: "exec_inv e" and r: "dispatch_round e = (e', ds)"
  shows "exec_inv e'"
    and "count_status (ex_nodes e') StoryNodeRunning (sd_storyIDs (ex_sched e'))
      = count_status (ex_nodes e) StoryNodeRunning (sd_storyIDs (ex_sched e)) + length ds"
    and "count_status (ex_nodes e) StoryNodePending (sd_storyIDs (ex_sched e))
      = count_status (ex_nodes e') StoryNodePending (sd_storyIDs (ex_sched e')) + length ds"
proof -
  from r obtain n' where d: "dispatch_loop (sd_pipelined (ex_sched e)) (sd_maxConcurrent (ex_sched e))
      (sd_storyIDs (ex_sched e)) (ex_nodes e) (ex_active e) = (n', ex_active e', ds)"
    and e': "ex_nodes e' = n'" "ex_sched e' = (ex_sched e)\<lparr>sd_nodes := n'\<rparr>" by (rule dispatch_roundE)
  have "distinct (sd_storyIDs (ex_sched e))" using inv by (simp add: exec_inv_def sched_wf_def)
  note counts = dispatch_loop_counts [OF d this subset_refl]
  note adv = dispatch_loop_advanced [OF d]
  have "deps_done n'" if "\<not> sd_pipelined (ex_sched e)"
    using inv adv that by (auto simp: exec_inv_def elim: advanced_deps_done)
  then have "sd_pipelined (ex_sched e) \<or> deps_done n'" by blast
  with inv counts advanced_dom [OF adv] show "exec_inv e'"
    unfolding exec_inv_def sched_wf_def e'(2) by simp
  from counts e' show "count_status (ex_nodes e') StoryNodeRunning (sd_storyIDs (ex_sched e'))
      = count_status (ex_nodes e) StoryNodeRunning (sd_storyIDs (ex_sched e)) + length ds"
    and "count_status (ex_nodes e) StoryNodePending (sd_storyIDs (ex_sched e))
      = count_status (ex_nodes e') StoryNodePending (sd_storyIDs (ex_sched e')) + length ds" by auto
qed

text \<open>A report replaces a running node \<open>n\<close> by a finished node \<open>b\<close> with the same dependencies.\<close>

lemma exec_inv_report:
  assumes inv: "exec_inv e" and n: "ex_nodes e i = Some n" "node_Status n = StoryNodeRunning"
    and b: "node_DependsOn b = node_DependsOn n" "node_Status b = StoryNodeSuccess \<or> node_Status b = StoryNodeFailed"
    and e': "ex_sched e' = (ex_sched e)\<lparr>sd_nodes := (ex_nodes e)(i \<mapsto> b)\<rparr>" "ex_active e' = ex_active e - 1"
  shows "exec_inv e'"
    and "count_status (ex_nodes e) StoryNodeRunning (sd_storyIDs (ex_sched e))
      = Suc (count_status (ex_nodes e') StoryNodeRunning (sd_storyIDs (ex_sched e')))"
    and "count_status (ex_nodes e') StoryNodePending (sd_storyIDs (ex_sched e'))
      = count_status (ex_nodes e) StoryNodePending (sd_storyIDs (ex_sched e))"
proof -
  let ?L = "sd_storyIDs (ex_sched e)" and ?n = "ex_nodes e"
  have L: "i \<in> set ?L" "distinct ?L" using inv n(1) by (auto simp: exec_inv_def sched_wf_def)
  have ne: "StoryNodeRunning \<noteq> node_Status b" using b(2) by auto
  note upd = count_status_update [where n = ?n and i = i and a = n and b = b and L = ?L, OF L n refl ne]
  from upd(1) e' show run: "count_status ?n StoryNodeRunning ?L
      = Suc (count_status (ex_nodes e') StoryNodeRunning (sd_storyIDs (ex_sched e')))" by simp
  from upd(3) [of StoryNodePending] b(2) e'
  show "count_status (ex_nodes e') StoryNodePending (sd_storyIDs (ex_sched e')) = count_status ?n StoryNodePending ?L"
    by auto
  have keep: "has_status (?n(i \<mapsto> b)) StoryNodeSuccess d" if "has_status ?n StoryNodeSuccess d" for d
    using that n by (cases "d = i") (auto simp: has_status_def)
  have "deps_done (?n(i \<mapsto> b))" if dn: "deps_done ?n"
    unfolding deps_done_def
  proof (intro allI impI ballI)
    fix j m d
    assume m: "(?n(i \<mapsto> b)) j = Some m" "node_Status m = StoryNodeRunning \<or> node_Status m = StoryNodeFailed"
      "d \<in> set (node_DependsOn m)"
    have "has_status ?n StoryNodeSuccess d"
    proof (cases "j = i")
      case True
      with m(1,3) b(1) dn [unfolded deps_done_def, rule_format, of i n d] n show ?thesis by simp
    next
      case False
      with m dn [unfolded deps_done_def, rule_format, of j m d] show ?thesis by simp
    qed
    then show "has_status (?n(i \<mapsto> b)) StoryNodeSuccess d" by (rule keep)
  qed
  with inv have p: "sd_pipelined (ex_sched e') \<or> deps_done (ex_nodes e')" by (auto simp: exec_inv_def e'(1))
  have w: "sched_wf (ex_sched e')" using inv L(1) by (auto simp: exec_inv_def sched_wf_def e'(1))
  have "ex_active e = count_status ?n StoryNodeRunning ?L" "ex_active e \<le> sd_maxConcurrent (ex_sched e')"
    using inv by (simp_all add: exec_inv_def e'(1))
  with run e'(2) have "ex_active e' = count_status (ex_nodes e') StoryNodeRunning (sd_storyIDs (ex_sched e'))"
    "ex_active e' \<le> sd_maxConcurrent (ex_sched e')" by linarith+
  with w p show "exec_inv e'" unfolding exec_inv_def by blast
qed


lemma exec_step_inv: "exec_inv e \<Longrightarrow> exec_step e e' \<Longrightarrow> exec_inv e'"
proof (erule exec_stepE)
  fix ds assume "exec_inv e" "dispatch_round e = (e', ds)"
  then show "exec_inv e'" by (rule exec_inv_dispatch(1))
next
  fix i n assume "exec_inv e" "e' = report_success e i n" "ex_nodes e i = Some n" "node_Status n = StoryNodeRunning"
  with exec_inv_report(1) [of e i n "n\<lparr>node_Status := StoryNodeSuccess\<rparr>" e']
  show "exec_inv e'" by (simp add: report_success_def)
next
  fix i n err
  assume "exec_inv e" "e' = report_failure e i n err" "ex_nodes e i = Some n" "node_Status n = StoryNodeRunning"
  with exec_inv_report(1) [of e i n "n\<lparr>node_Status := StoryNodeFailed, node_Error := Some err\<rparr>" e']
  show "exec_inv e'" by (simp add: report_failure_def)
qed

lemma exec_reach_inv: "exec_reach s e \<Longrightarrow> sched_wf s \<Longrightarrow> sched_idle s \<Longrightarrow> exec_inv e"
  by (induction rule: exec_reach.induct) (auto intro: exec_inv_start exec_step_inv)

text \<open>The graph never changes its stories, dependencies or configuration while it executes.\<close>

definition same_graph :: "StoryDAGScheduler \<Rightarrow> StoryDAGScheduler \<Rightarrow> bool" where
  "same_graph s t \<longleftrightarrow> sd_pipelined s = sd_pipelined t \<and> stream_open s = stream_open t
     \<and> (\<forall>i. map_option node_DependsOn (sd_nodes s i) = map_option node_DependsOn (sd_nodes t i))"

lemma same_graph_trans: "same_graph s t \<Longrightarrow> same_graph t u \<Longrightarrow> same_graph s u"
  by (simp add: same_graph_def)

lemma advanced_same_deps:
  "advanced p n n' \<Longrightarrow> map_option node_DependsOn (n' i) = map_option node_DependsOn (n i)"
  unfolding advanced_def by (erule allE [of _ i]) auto

lemma exec_step_same_graph: "exec_step e e' \<Longrightarrow> same_graph (ex_sched e) (ex_sched e')"
proof (erule exec_stepE)
  fix ds assume "dispatch_round e = (e', ds)"
  then obtain n' where "advanced (sd_pipelined (ex_sched e)) (ex_nodes e) n'"
    and e': "ex_sched e' = (ex_sched e)\<lparr>sd_nodes := n'\<rparr>"
    by (rule dispatch_roundE) (blast dest: dispatch_loop_advanced)
  with advanced_same_deps show ?thesis by (simp add: same_graph_def stream_open_def)
qed (auto simp: same_graph_def stream_open_def report_success_def report_failure_def)

lemma exec_reach_same_graph: "exec_reach s e \<Longrightarrow> same_graph s (ex_sched e)"
proof (induction rule: exec_reach.induct)
  case start
  then show ?case by (simp add: same_graph_def exec_start_def sortStoryIDsLocked_def stream_open_def)
next
  case (step e e')
  then show ?case by (blast intro: same_graph_trans exec_step_same_graph)
qed

section \<open>Termination\<close>

definition exec_work :: "story_exec \<Rightarrow> nat" where
  "exec_work e = 2 * count_status (ex_nodes e) StoryNodePending (sd_storyIDs (ex_sched e))
     + count_status (ex_nodes e) StoryNodeRunning (sd_storyIDs (ex_sched e))"

lemma exec_work_decreases: "exec_inv e \<Longrightarrow> exec_step e e' \<Longrightarrow> exec_work e' < exec_work e"
proof (erule exec_stepE)
  fix ds assume "exec_inv e" "dispatch_round e = (e', ds)" "ds \<noteq> []"
  with exec_inv_dispatch(2,3) [of e e' ds] show ?thesis by (cases ds) (auto simp: exec_work_def)
next
  fix i n assume "exec_inv e" "e' = report_success e i n" "ex_nodes e i = Some n" "node_Status n = StoryNodeRunning"
  with exec_inv_report(2,3) [of e i n "n\<lparr>node_Status := StoryNodeSuccess\<rparr>" e'] show ?thesis
    by (simp add: exec_work_def report_success_def)
next
  fix i n err
  assume "exec_inv e" "e' = report_failure e i n err" "ex_nodes e i = Some n" "node_Status n = StoryNodeRunning"
  with exec_inv_report(2,3) [of e i n "n\<lparr>node_Status := StoryNodeFailed, node_Error := Some err\<rparr>" e']
  show ?thesis by (simp add: exec_work_def report_failure_def)
qed

section \<open>Deadlock\<close>

lemma dispatch_none:
  assumes "dispatch_round e = (e', [])"
  shows "e' = e"
proof -
  have "dispatch_loop p mx is n a = (n', a', []) \<Longrightarrow> n' = n \<and> a' = a" for p mx "is" n a n' a'
    by (induction "is") (auto split: option.splits if_splits prod.splits)
  with assms show ?thesis by (auto simp: dispatch_round_def Let_def split: prod.splits)
qed

lemma dispatch_none_unready:
  assumes "dispatch_round e = (e', [])" "i \<in> set (sd_storyIDs (ex_sched e))" "ex_nodes e i = Some n"
    "node_Status n = StoryNodePending" "ex_active e < sd_maxConcurrent (ex_sched e)"
  shows "\<exists>d \<in> set (node_DependsOn n). \<not> dep_ready (sd_pipelined (ex_sched e)) (ex_nodes e) d"
proof (rule ccontr)
  assume "\<not> ?thesis"
  then have "depsSatisfied (sd_pipelined (ex_sched e)) (ex_nodes e) n" by (auto simp: depsSatisfied_def list_all_iff)
  from dispatch_loop_progress [OF assms(2-4) this assms(5)] assms(1)
  show False by (auto simp: dispatch_round_def Let_def split: prod.splits)
qed

lemma no_running: "exec_inv e \<Longrightarrow> ex_active e = 0 \<Longrightarrow> \<not> has_status (ex_nodes e) StoryNodeRunning i"
proof
  assume a: "exec_inv e" "ex_active e = 0" "has_status (ex_nodes e) StoryNodeRunning i"
  then have "i \<in> set (sd_storyIDs (ex_sched e))"
    by (auto simp: exec_inv_def sched_wf_def has_status_def split: option.splits)
  with a show False by (auto simp: exec_inv_def count_status_def filter_empty_conv)
qed

text \<open>What a deadlock report means for each story it names: a dependency that is missing, has
  failed, or is itself in the report.\<close>

lemma deadlock_blocked:
  assumes inv: "exec_inv e" and dl: "exec_result e (ExecDeadlock ids)" and i: "i \<in> set ids"
  shows "\<exists>n d. ex_nodes e i = Some n \<and> d \<in> set (node_DependsOn n)
    \<and> (ex_nodes e d = None \<or> has_status (ex_nodes e) StoryNodeFailed d \<or> d \<in> set ids)"
proof -
  from dl obtain e' where e': "dispatch_round e = (e', [])" "ex_active e' = 0"
    and ids: "ids = filter (has_status (ex_nodes e) StoryNodePending) (sd_storyIDs (ex_sched e))"
    by (rule exec_resultE) auto
  have act: "ex_active e = 0" using e' dispatch_none by blast
  from i ids obtain n where n: "ex_nodes e i = Some n" "node_Status n = StoryNodePending"
    "i \<in> set (sd_storyIDs (ex_sched e))" by (auto simp: has_status_def split: option.splits)
  have "ex_active e < sd_maxConcurrent (ex_sched e)" using inv act by (simp add: exec_inv_def sched_wf_def)
  from dispatch_none_unready [OF e'(1) n(3,1,2) this] obtain d
    where d: "d \<in> set (node_DependsOn n)" "\<not> dep_ready (sd_pipelined (ex_sched e)) (ex_nodes e) d" by blast
  have "d \<in> set ids" if "ex_nodes e d = Some m" "\<not> has_status (ex_nodes e) StoryNodeFailed d" for m
  proof -
    have "d \<in> set (sd_storyIDs (ex_sched e))" using inv that(1) by (auto simp: exec_inv_def sched_wf_def)
    moreover have "has_status (ex_nodes e) StoryNodePending d"
      using that d(2) no_running [OF inv act, of d]
      by (cases "node_Status m") (auto simp: has_status_def dep_ready_def split: if_splits)
    ultimately show ?thesis by (simp add: ids)
  qed
  with n(1) d(1) show ?thesis by (cases "ex_nodes e d") auto
qed

definition depends_rel :: "story_nodes \<Rightarrow> (string \<times> string) set" where
  "depends_rel nodes = {(d, i). \<exists>n. nodes i = Some n \<and> d \<in> set (node_DependsOn n)}"

lemma depends_rel_same: "same_graph s t \<Longrightarrow> depends_rel (sd_nodes s) = depends_rel (sd_nodes t)"
proof -
  assume g: "same_graph s t"
  have "(\<exists>n. sd_nodes s i = Some n \<and> d \<in> set (node_DependsOn n))
    \<longleftrightarrow> (\<exists>n. sd_nodes t i = Some n \<and> d \<in> set (node_DependsOn n))" for i d
    using g [unfolded same_graph_def, THEN conjunct2, THEN conjunct2, rule_format, of i]
    by (cases "sd_nodes s i"; cases "sd_nodes t i") auto
  then show ?thesis by (simp add: depends_rel_def)
qed

lemma finite_depends_rel: "finite (dom nodes) \<Longrightarrow> finite (depends_rel nodes)"
proof -
  assume f: "finite (dom nodes)"
  have "depends_rel nodes \<subseteq> (\<Union>i \<in> dom nodes. (\<lambda>d. (d, i)) ` set (node_DependsOn (the (nodes i))))"
    by (auto simp: depends_rel_def)
  moreover have "finite (\<Union>i \<in> dom nodes. (\<lambda>d. (d, i)) ` set (node_DependsOn (the (nodes i))))" using f by simp
  ultimately show ?thesis by (rule finite_subset)
qed

lemma load_stories_keeps:
  assumes "P (SetPipelined (NewStoryDAGScheduler k) p)" "\<And>s i. P s \<Longrightarrow> P (AddStory yaml s i)"
    "\<And>s q. P s \<Longrightarrow> P (MarkStoryCompleted s q)"
  shows "P (load_stories yaml k p items completed)"
proof -
  have "P (foldl (AddStory yaml) s items)" if "P s" for s
    using that by (induction items arbitrary: s) (simp_all add: assms(2))
  moreover have "P (foldl MarkStoryCompleted s completed)" if "P s" for s
    using that by (induction completed arbitrary: s) (simp_all add: assms(3))
  ultimately show ?thesis using assms(1) by (simp add: load_stories_def)
qed

lemma load_stories_ok:
  "sched_wf (load_stories yaml k p items completed)" "sched_idle (load_stories yaml k p items completed)"
  by (rule load_stories_keeps;
      simp add: stream_setters_wf NewStoryDAGScheduler_wf AddStory_wf AddStory_idle
        MarkStoryCompleted_wf MarkStoryCompleted_idle)+

lemma load_stories_config:
  "sd_pipelined (load_stories yaml k p items completed) = p \<and> \<not> stream_open (load_stories yaml k p items completed)"
  by (rule load_stories_keeps)
    (auto simp: SetPipelined_def NewStoryDAGScheduler_def AddStory_def MarkStoryCompleted_def
      sortStoryIDsLocked_def stream_open_def Let_def split: option.splits)

lemmas load_stories_inv = exec_reach_inv [OF _ load_stories_ok]

lemma load_stories_graph:
  assumes "exec_reach (load_stories yaml k p items completed) e"
  shows "sd_pipelined (ex_sched e) = p" "\<not> stream_open (ex_sched e)"
    "depends_rel (ex_nodes e) = depends_rel (sd_nodes (load_stories yaml k p items completed))"
    "ex_nodes e d = None \<longleftrightarrow> sd_nodes (load_stories yaml k p items completed) d = None"
proof -
  let ?s = "load_stories yaml k p items completed"
  from exec_reach_same_graph [OF assms] have g: "same_graph ?s (ex_sched e)" .
  then show "depends_rel (ex_nodes e) = depends_rel (sd_nodes ?s)" by (simp add: depends_rel_same)
  from g show "sd_pipelined (ex_sched e) = p" "\<not> stream_open (ex_sched e)"
    using load_stories_config by (simp_all add: same_graph_def)
  from g have "map_option node_DependsOn (sd_nodes ?s d) = map_option node_DependsOn (ex_nodes e d)"
    by (simp add: same_graph_def)
  then show "ex_nodes e d = None \<longleftrightarrow> sd_nodes ?s d = None"
    by (metis option.map_disc_iff)
qed

section \<open>A concrete execution\<close>

lemma AddStory_node:
  "sd_nodes (AddStory yaml s item) =
     (sd_nodes s)(story_key (item_Path item) \<mapsto>
        (case sd_nodes s (story_key (item_Path item)) of
           Some existing \<Rightarrow> existing\<lparr>node_Item := item, node_DependsOn := story_deps yaml s item\<rparr>
         | None \<Rightarrow> \<lparr>node_Item = item, node_StoryID = story_key (item_Path item),
             node_DependsOn = story_deps yaml s item, node_Status = StoryNodePending, node_Error = None\<rparr>))"
  by (simp add: AddStory_def sortStoryIDsLocked_def Let_def split: option.splits)

definition sample_items :: "StoryWorkItem list" where
  "sample_items =
     [\<lparr>item_Path = ''specs/us-2_api.md'', item_Spec = ''depends_on: US-001'', item_LogPath = []\<rparr>,
      \<lparr>item_Path = ''specs/us-1_core.md'', item_Spec = ''core'', item_LogPath = []\<rparr>]"

definition sample_sched :: StoryDAGScheduler where
  "sample_sched = load_stories (\<lambda>_. None) 2 False sample_items []"

definition sample_sched0 :: StoryDAGScheduler where
  "sample_sched0 = AddStory (\<lambda>_. None) (SetPipelined (NewStoryDAGScheduler 2) False) (hd sample_items)"

text \<open>The loaded graph in full; evaluations start from it.\<close>

lemma sample_sched_eval [code]:
  "sample_sched = \<lparr>sd_nodes = Map.empty
     (''US-002'' \<mapsto> \<lparr>node_Item = hd sample_items, node_StoryID = ''US-002'', node_DependsOn = [''US-001''],
        node_Status = StoryNodePending, node_Error = None\<rparr>,
      ''US-001'' \<mapsto> \<lparr>node_Item = sample_items ! 1, node_StoryID = ''US-001'', node_DependsOn = [],
        node_Status = StoryNodePending, node_Error = None\<rparr>),
     sd_storyIDs = [''US-001'', ''US-002''], sd_maxConcurrent = 2, sd_pipelined = False,
     sd_streaming = False, sd_streamClosed = False\<rparr>"
proof -
  have k: "story_key (item_Path (hd sample_items)) = ''US-002''" "story_key (item_Path (sample_items ! 1)) = ''US-001''"
    by code_simp+
  have d: "story_deps (\<lambda>_. None) (SetPipelined (NewStoryDAGScheduler 2) False) (hd sample_items) = [''US-001'']"
    "story_deps (\<lambda>_. None) sample_sched0 (sample_items ! 1) = []" by code_simp+
  have i: "sd_storyIDs sample_sched = [''US-001'', ''US-002'']" by code_simp
  have e: "sample_sched = AddStory (\<lambda>_. None) sample_sched0 (sample_items ! 1)"
    by (simp add: sample_sched_def load_stories_def sample_sched0_def sample_items_def)
  have c: "sd_nodes (SetPipelined (NewStoryDAGScheduler 2) False) = Map.empty"
    by (simp add: SetPipelined_def NewStoryDAGScheduler_def)
  have n: "sd_nodes sample_sched0 = [''US-002'' \<mapsto> \<lparr>node_Item = hd sample_items, node_StoryID = ''US-002'',
      node_DependsOn = [''US-001''], node_Status = StoryNodePending, node_Error = None\<rparr>]"
    unfolding sample_sched0_def AddStory_node k d c by simp
  have r: "sd_maxConcurrent sample_sched = 2" "\<not> sd_pipelined sample_sched" "\<not> sd_streaming sample_sched"
    "\<not> sd_streamClosed sample_sched" by code_simp+
  have "sd_nodes sample_sched = (sd_nodes sample_sched0)(''US-001'' \<mapsto> \<lparr>node_Item = sample_items ! 1,
      node_StoryID = ''US-001'', node_DependsOn = [], node_Status = StoryNodePending, node_Error = None\<rparr>)"
    unfolding e AddStory_node k d n by simp
  with n i r show ?thesis by simp
qed

definition sample_run1 :: story_exec where
  "sample_run1 = fst (dispatch_round (exec_start sample_sched))"

definition sample_run2 :: story_exec where
  "sample_run2 = report_success sample_run1 ''US-001'' (the (ex_nodes sample_run1 ''US-001''))"

definition sample_run3 :: story_exec where
  "sample_run3 = fst (dispatch_round sample_run2)"

definition sample_failed :: story_exec where
  "sample_failed = report_failure sample_run1 ''US-001'' (the (ex_nodes sample_run1 ''US-001'')) ''build''"

lemma dispatch_stepI:
  "\<not> all_finished (ex_sched e) \<Longrightarrow> snd (dispatch_round e) \<noteq> [] \<Longrightarrow> exec_step e (fst (dispatch_round e))"
  by (rule exec_step.dispatch [where ds = "snd (dispatch_round e)"]) simp_all

lemma has_status_node: "has_status n st i \<Longrightarrow> n i = Some (the (n i)) \<and> node_Status (the (n i)) = st"
  by (auto simp: has_status_def split: option.splits)

lemma sample_run1_reach: "exec_reach sample_sched sample_run1"
proof -
  have "\<not> all_finished (ex_sched (exec_start sample_sched))" "snd (dispatch_round (exec_start sample_sched)) \<noteq> []"
    by code_simp+
  from exec_reach.step [OF exec_reach.start dispatch_stepI [OF this]] show ?thesis by (simp add: sample_run1_def)
qed

lemma sample_run1_node: "has_status (ex_nodes sample_run1) StoryNodeRunning ''US-001''"
  by code_simp

lemma sample_run3_reach: "exec_reach sample_sched sample_run3"
proof -
  have "exec_reach sample_sched sample_run2"
    unfolding sample_run2_def using has_status_node [OF sample_run1_node]
    by (blast intro: exec_reach.step [OF sample_run1_reach] exec_step.succeed)
  moreover have "\<not> all_finished (ex_sched sample_run2)" "snd (dispatch_round sample_run2) \<noteq> []" by code_simp+
  ultimately show ?thesis unfolding sample_run3_def by (blast intro: exec_reach.step dispatch_stepI)
qed

lemma sample_failed_reach: "exec_reach sample_sched sample_failed"
  unfolding sample_failed_def using has_status_node [OF sample_run1_node]
  by (blast intro: exec_reach.step [OF sample_run1_reach] exec_step.fail)

lemma sample_failed_deadlock: "exec_result sample_failed (ExecDeadlock [''US-002''])"
proof -
  have f: "\<not> all_finished (ex_sched sample_failed)" by code_simp
  have r: "snd (dispatch_round sample_failed) = []" "ex_active sample_failed = 0"
    "\<not> stream_open (ex_sched sample_failed)"
    "filter (has_status (ex_nodes sample_failed) StoryNodePending) (sd_storyIDs (ex_sched sample_failed)) = [''US-002'']"
    by code_simp+
  from r(1) have d: "dispatch_round sample_failed = (fst (dispatch_round sample_failed), [])" by (metis prod.collapse)
  with dispatch_none have "fst (dispatch_round sample_failed) = sample_failed" by blast
  with exec_result.deadlock [OF f d _ r(3)] r(2,4) show ?thesis by simp
qed

section \<open>Properties of an execution\<close>

text \<open>C6: At every moment of an execution the number of running stories is what the loop counts as
  active and never exceeds the concurrency limit, and without pipelining every story that runs or
  has failed was started only after all its dependencies had succeeded.\<close>

theorem story_exec_safe:
  assumes "exec_reach (load_stories yaml k p items completed) e"
  shows "ex_active e = length (filter (has_status (ex_nodes e) StoryNodeRunning) (sd_storyIDs (ex_sched e)))
    \<and> ex_active e \<le> sd_maxConcurrent (ex_sched e)
    \<and> (\<not> p \<longrightarrow> (\<forall>i n d. ex_nodes e i = Some n \<longrightarrow> node_Status n \<in> {StoryNodeRunning, StoryNodeFailed}
          \<longrightarrow> d \<in> set (node_DependsOn n) \<longrightarrow> has_status (ex_nodes e) StoryNodeSuccess d))"
  using load_stories_inv [OF assms] load_stories_graph(1) [OF assms]
  by (auto simp: exec_inv_def count_status_def deps_done_def)

theorem story_exec_safe_witness:
  "exec_reach sample_sched sample_run3 \<and> ex_active sample_run3 \<le> sd_maxConcurrent (ex_sched sample_run3)
   \<and> has_status (ex_nodes sample_run3) StoryNodeRunning ''US-002''
   \<and> has_status (ex_nodes sample_run3) StoryNodeSuccess ''US-001''"
proof -
  have run: "has_status (ex_nodes sample_run3) StoryNodeRunning ''US-002''" by code_simp
  have "''US-001'' \<in> set (node_DependsOn (the (ex_nodes sample_run3 ''US-002'')))" by code_simp
  with has_status_node [OF run] run sample_run3_reach
    story_exec_safe [OF sample_run3_reach [unfolded sample_sched_def]]
  show ?thesis by blast
qed

text \<open>C16: Every execution ends: no infinite sequence of dispatches and reports exists, whatever the
  order in which the stories finish and whether they succeed.\<close>

theorem story_exec_terminates:
  "wfP (\<lambda>e' e. exec_reach (load_stories yaml k p items completed) e \<and> exec_step e e')"
proof (rule wfp_if_convertible_to_nat [where f = exec_work])
  fix e' e assume "exec_reach (load_stories yaml k p items completed) e \<and> exec_step e e'"
  then show "exec_work e' < exec_work e" using exec_work_decreases load_stories_inv by blast
qed

text \<open>C15: An execution is never stuck: in every state the loop returns or some step is possible.\<close>

theorem story_exec_not_stuck:
  assumes "exec_reach (load_stories yaml k p items completed) e"
  shows "(\<exists>r. r \<noteq> ExecCancelled \<and> exec_result e r) \<or> (\<exists>e'. exec_step e e')"
proof (cases "all_finished (ex_sched e)")
  case True
  then have "exec_result e (ExecDone (ex_firstErr e))" by (rule exec_result.finished)
  then show ?thesis by blast
next
  case False
  obtain e' ds where r: "dispatch_round e = (e', ds)" by (cases "dispatch_round e") auto
  show ?thesis
  proof (cases "ds = []")
    case ds: True
    show ?thesis
    proof (cases "ex_active e = 0")
      case True
      with ds r dispatch_none [of e e'] have "exec_result e (ExecDeadlock
          (filter (has_status (ex_nodes e) StoryNodePending) (sd_storyIDs (ex_sched e))))"
        by (intro exec_result.deadlock [OF False _ _ load_stories_graph(2) [OF assms]]) auto
      then show ?thesis by blast
    next
      case False
      with load_stories_inv [OF assms] obtain i n where "ex_nodes e i = Some n" "node_Status n = StoryNodeRunning"
        by (auto simp: exec_inv_def count_status_def filter_empty_conv has_status_def split: option.splits)
      then have "exec_step e (report_success e i n)" by (rule exec_step.succeed)
      then show ?thesis by blast
    qed
  next
    case ds: False
    from exec_step.dispatch [OF False r ds] show ?thesis by blast
  qed
qed

theorem story_exec_not_stuck_witness:
  "(\<exists>r. r \<noteq> ExecCancelled \<and> exec_result sample_failed r) \<or> (\<exists>e'. exec_step sample_failed e')"
  by (rule story_exec_not_stuck [OF sample_failed_reach [unfolded sample_sched_def]])

text \<open>A deadlock is reported only for a reason: some pending story depends on a story that was
  never added, some dependency of a pending story has failed, or the dependencies form a cycle.\<close>

theorem story_deadlock_justified:
  assumes e: "exec_reach (load_stories yaml k p items completed) e"
    and dl: "exec_result e (ExecDeadlock ids)"
  shows "ids \<noteq> [] \<and>
    ((\<exists>i \<in> set ids. \<exists>d. (d, i) \<in> depends_rel (ex_nodes e)
        \<and> (ex_nodes e d = None \<or> has_status (ex_nodes e) StoryNodeFailed d))
     \<or> \<not> acyclic (depends_rel (sd_nodes (load_stories yaml k p items completed))))"
proof -
  note inv = load_stories_inv [OF e]
  let ?R = "depends_rel (ex_nodes e)"
  have ne: "ids \<noteq> []"
  proof -
    from dl obtain e' where a: "\<not> all_finished (ex_sched e)" "dispatch_round e = (e', [])" "ex_active e' = 0"
      and ids: "ids = filter (has_status (ex_nodes e) StoryNodePending) (sd_storyIDs (ex_sched e))"
      by (rule exec_resultE) auto
    with dispatch_none no_running [OF inv] have "\<not> has_status (ex_nodes e) StoryNodeRunning i" for i by blast
    with a(1) load_stories_graph(2) [OF e] ids show ?thesis
      by (auto simp: all_finished_def list_all_iff filter_empty_conv)
  qed
  have "\<exists>i \<in> set ids. \<exists>d. (d, i) \<in> ?R \<and> (ex_nodes e d = None \<or> has_status (ex_nodes e) StoryNodeFailed d)"
    if ac: "acyclic ?R"
  proof -
    have "finite (dom (ex_nodes e))" using inv by (simp add: exec_inv_def sched_wf_def)
    with ac have "wf ?R" by (simp add: finite_acyclic_wf finite_depends_rel)
    then obtain i where i: "i \<in> set ids" "\<And>d. (d, i) \<in> ?R \<Longrightarrow> d \<notin> set ids"
      using ne wfE_min [of ?R _ "set ids"] by (metis list.set_intros(1) neq_Nil_conv)
    from deadlock_blocked [OF inv dl i(1)] obtain n d where "ex_nodes e i = Some n" "d \<in> set (node_DependsOn n)"
      "ex_nodes e d = None \<or> has_status (ex_nodes e) StoryNodeFailed d \<or> d \<in> set ids" by blast
    with i show ?thesis by (force simp: depends_rel_def)
  qed
  with ne load_stories_graph(3) [OF e] show ?thesis by auto
qed

lemma sample_sched_acyclic: "acyclic (depends_rel (sd_nodes sample_sched))"
proof -
  have "depends_rel (sd_nodes sample_sched) \<subseteq> {(''US-001'', ''US-002'')}"
    by (auto simp: depends_rel_def sample_sched_eval split: if_splits)
  moreover have "acyclic {(''US-001'', ''US-002'')}" by (simp add: acyclic_insert) (simp add: acyclic_def)
  ultimately show ?thesis by (rule acyclic_subset [rotated])
qed

theorem story_deadlock_justified_witness:
  "exec_result sample_failed (ExecDeadlock [''US-002'']) \<and>
   (\<exists>d. (d, ''US-002'') \<in> depends_rel (ex_nodes sample_failed)
        \<and> (ex_nodes sample_failed d = None \<or> has_status (ex_nodes sample_failed) StoryNodeFailed d))"
  using story_deadlock_justified [OF sample_failed_reach [unfolded sample_sched_def] sample_failed_deadlock]
    sample_failed_deadlock sample_sched_acyclic unfolding sample_sched_def by auto

text \<open>A story that waits for a failed one.\<close>

definition waits_for_failed :: "story_exec \<Rightarrow> string \<Rightarrow> string \<Rightarrow> bool" where
  "waits_for_failed e i d \<longleftrightarrow> i \<in> set (sd_storyIDs (ex_sched e)) \<and>
     (\<exists>n. ex_nodes e i = Some n \<and> node_Status n = StoryNodePending \<and> d \<in> set (node_DependsOn n))
     \<and> has_status (ex_nodes e) StoryNodeFailed d"

lemma waits_for_failed_step:
  assumes w: "waits_for_failed e i d" and st: "exec_step e e'"
  shows "waits_for_failed e' i d"
  using st
proof (rule exec_stepE)
  fix ds assume "dispatch_round e = (e', ds)"
  then obtain n' where adv: "advanced (sd_pipelined (ex_sched e)) (ex_nodes e) n'"
    and e': "ex_sched e' = (ex_sched e)\<lparr>sd_nodes := n'\<rparr>"
    by (rule dispatch_roundE) (blast dest: dispatch_loop_advanced)
  have fd: "has_status n' StoryNodeFailed d"
    using w adv [unfolded advanced_def, rule_format, of d] by (auto simp: waits_for_failed_def has_status_def split: option.splits)
  from w obtain n where n: "ex_nodes e i = Some n" "node_Status n = StoryNodePending" "d \<in> set (node_DependsOn n)"
    by (auto simp: waits_for_failed_def)
  have "\<not> depsSatisfied (sd_pipelined (ex_sched e)) n' n"
    using fd n(3) by (auto simp: depsSatisfied_def list_all_iff dep_ready_def has_status_def split: option.splits intro!: bexI [of _ d])
  with adv [unfolded advanced_def, rule_format, of i] n(1) have "n' i = Some n" by auto
  with w n fd e' show ?thesis by (auto simp: waits_for_failed_def)
qed (use w in \<open>auto simp: waits_for_failed_def report_success_def report_failure_def has_status_def split: option.splits\<close>)

text \<open>C19: Once a dependency of a pending story has failed, the execution can no longer return the
  failure: in every later state the loop has not finished, so it ends in the deadlock report (or by
  cancellation) and the recorded first error is dropped.\<close>

theorem failed_dependency_masks_error:
  assumes "exec_step\<^sup>*\<^sup>* e e'" and "waits_for_failed e i d" and "exec_result e' r"
  shows "r \<noteq> ExecDone x"
proof -
  from assms(1,2) have w: "waits_for_failed e' i d"
    by (induction rule: rtranclp_induct) (auto intro: waits_for_failed_step)
  then have "has_status (ex_nodes e') StoryNodePending i" "i \<in> set (sd_storyIDs (ex_sched e'))"
    by (auto simp: waits_for_failed_def has_status_def)
  then have "\<not> all_finished (ex_sched e')" by (auto simp: all_finished_def list_all_iff)
  with assms(3) show ?thesis by (auto elim: exec_resultE)
qed

theorem failed_dependency_masks_error_witness:
  "ex_firstErr sample_failed = Some ''US-001'' \<and> exec_result sample_failed (ExecDeadlock [''US-002''])
   \<and> \<not> exec_result sample_failed (ExecDone (Some ''US-001''))"
proof -
  have "has_status (ex_nodes sample_failed) StoryNodePending ''US-002''" by code_simp
  moreover have "''US-001'' \<in> set (node_DependsOn (the (ex_nodes sample_failed ''US-002'')))"
    "has_status (ex_nodes sample_failed) StoryNodeFailed ''US-001''"
    "''US-002'' \<in> set (sd_storyIDs (ex_sched sample_failed))" by code_simp+
  ultimately have "waits_for_failed sample_failed ''US-002'' ''US-001''"
    unfolding waits_for_failed_def using has_status_node by blast
  from failed_dependency_masks_error [OF rtranclp.rtrancl_refl this]
  have "\<not> exec_result sample_failed (ExecDone (Some ''US-001''))" by blast
  moreover have "ex_firstErr sample_failed = Some ''US-001''" by code_simp
  ultimately show ?thesis using sample_failed_deadlock by blast
qed

section \<open>Properties of the graph construction\<close>

lemma ParseStoryDependencies_set:
  "distinct (ParseStoryDependencies yaml md)" "[] \<notin> set (ParseStoryDependencies yaml md)"
  by (auto simp: ParseStoryDependencies_def distinct_dedup_acc set_dedup_acc split: option.splits)

text \<open>A story added to the graph never depends on itself, its dependencies are distinct
  non-empty names, and in streaming mode every story after the first waits for the skeleton story
  \<open>US-001\<close>.\<close>

theorem AddStory_dependencies:
  "\<exists>n. sd_nodes (AddStory yaml s item) (story_key (item_Path item)) = Some n
     \<and> distinct (node_DependsOn n) \<and> [] \<notin> set (node_DependsOn n)
     \<and> story_key (item_Path item) \<notin> set (node_DependsOn n)
     \<and> (sd_streaming s \<longrightarrow> ExtractStorySequence (story_key (item_Path item)) > 1
          \<longrightarrow> ''US-001'' \<in> set (node_DependsOn n))"
proof -
  let ?k = "story_key (item_Path item)"
  define u where "u = ''US-001''"
  have seq: "ExtractStorySequence u = 1" "u \<noteq> []" unfolding u_def by code_simp+
  define ps where "ps = filter (\<lambda>dep. dep \<noteq> ?k \<and> dep \<noteq> Base (item_Path item)) (ParseStoryDependencies yaml (item_Spec item))"
  have ps: "distinct ps" "[] \<notin> set ps" "?k \<notin> set ps"
    using ParseStoryDependencies_set [of yaml "item_Spec item"] by (simp_all add: ps_def)
  have eq: "story_deps yaml s item = (if ExtractStorySequence ?k > 1
      \<and> (sd_streaming s \<or> sd_nodes s u \<noteq> None) \<and> u \<notin> set ps then u # ps else ps)"
    by (simp add: story_deps_def Let_def ps_def u_def)
  have d: "distinct (story_deps yaml s item)" "[] \<notin> set (story_deps yaml s item)" "?k \<notin> set (story_deps yaml s item)"
    "sd_streaming s \<Longrightarrow> ExtractStorySequence ?k > 1 \<Longrightarrow> u \<in> set (story_deps yaml s item)"
    using ps seq by (auto simp: eq)
  then show ?thesis by (simp add: AddStory_node u_def split: option.splits)
qed

theorem AddStory_dependencies_witness:
  "\<exists>n. sd_nodes (AddStory (\<lambda>_. None) (SetStreaming (NewStoryDAGScheduler 0) True) (hd sample_items)) ''US-002'' = Some n
     \<and> ''US-002'' \<notin> set (node_DependsOn n) \<and> ''US-001'' \<in> set (node_DependsOn n)"
proof -
  have "story_key (item_Path (hd sample_items)) = ''US-002''" "ExtractStorySequence ''US-002'' > 1"
    "sd_streaming (SetStreaming (NewStoryDAGScheduler 0) True)" by code_simp+
  with AddStory_dependencies [of "\<lambda>_. None" "SetStreaming (NewStoryDAGScheduler 0) True" "hd sample_items"]
  show ?thesis by auto
qed

end
