(* ===== verification/Circuit_Breaker.thy ===== *)
theory Circuit_Breaker
  imports Domain Go_Strings
begin

text \<open>
  The two breakers that end unproductive repair loops:
  \<open>src/pkg/services/circuit_breaker.go\<close> (a task whose tests pass while only tests are edited)
  and \<open>src/pkg/services/oscillation_circuit_breaker.go\<close> (failures that repeat with a period).
  Each is a record with one definition per method; the properties relate the state after any
  sequence of calls to the calls themselves (\<open>traced\<close> of the prelude). Message texts are left
  out, except the summaries that the oscillation breaker compares; its \<open>Fingerprint\<close>, a function
  of the log alone, is the parameter \<open>fp\<close>.
\<close>

section \<open>The task circuit breaker\<close>

record TaskCircuitBreaker =
  ConsecutiveTestPasses :: nat
  ConsecutiveTestOnlyTurns :: nat
  ConsecutiveDuplicateInspections :: nat
  IsTripped :: bool

definition NewTaskCircuitBreaker :: TaskCircuitBreaker where
  "NewTaskCircuitBreaker =
     \<lparr>ConsecutiveTestPasses = 0, ConsecutiveTestOnlyTurns = 0,
      ConsecutiveDuplicateInspections = 0, IsTripped = False\<rparr>"

definition isProductionFile :: "string \<Rightarrow> bool" where
  "isProductionFile path =
     (let lower = ToLower (Clean (TrimSpace path)); base = Base lower
      in \<not> (Contains lower ''test'' \<or> Contains lower ''spec'' \<or> HasPrefix lower ''roadmap/''
            \<or> HasSuffix lower ''.md'' \<or> HasSuffix lower ''.txt'' \<or> HasPrefix base ''.''
            \<or> HasSuffix lower ''.log'' \<or> HasSuffix lower ''.lock''
            \<or> base = ''readme'' \<or> base = ''license''))"

definition IsMutatingTool :: "string \<Rightarrow> bool" where
  "IsMutatingTool tool \<longleftrightarrow> tool \<in> {''write_file'', ''write_files'', ''edit_file'',
     ''multi_replace_file_content'', ''apply_patch'', ''delete_file''}"

definition IsFileDependentTool :: "string \<Rightarrow> bool" where
  "IsFileDependentTool tool \<longleftrightarrow> tool \<in> {''read_file'', ''find_files'', ''list_directory'',
     ''grep_search'', ''run_tests'', ''run_linter''}"

text \<open>\<open>v, _ := args[k].(string)\<close>: empty when the key is absent or holds another type.\<close>

definition str_arg :: "(string \<times> gany) list \<Rightarrow> string \<Rightarrow> string" where
  "str_arg args k = (case map_of args k of Some (GStr s) \<Rightarrow> s | _ \<Rightarrow> [])"

definition batch_entry_prod :: "gany \<Rightarrow> bool" where
  "batch_entry_prod f =
     (case f of
        GMap fMap \<Rightarrow> (case map_of fMap ''path'' of Some (GStr p) \<Rightarrow> isProductionFile p | _ \<Rightarrow> False)
      | _ \<Rightarrow> False)"

definition Reset :: "TaskCircuitBreaker \<Rightarrow> TaskCircuitBreaker" where
  "Reset cb = cb\<lparr>ConsecutiveTestPasses := 0, ConsecutiveTestOnlyTurns := 0,
     ConsecutiveDuplicateInspections := 0, IsTripped := False\<rparr>"

definition RecordAction ::
  "TaskCircuitBreaker \<Rightarrow> string \<Rightarrow> (string \<times> gany) list \<Rightarrow> TaskCircuitBreaker" where
  "RecordAction cb tool args =
     (if \<not> IsMutatingTool tool then cb
      else let cb1 = cb\<lparr>ConsecutiveDuplicateInspections := 0\<rparr>;
               test_only = cb1\<lparr>ConsecutiveTestOnlyTurns := ConsecutiveTestOnlyTurns cb1 + 1\<rparr>;
               path = str_arg args ''path''
           in if path = [] then
                (case map_of args ''files'' of
                   Some (GList files) \<Rightarrow>
                     if files \<noteq> [] then
                       (if list_ex batch_entry_prod files then Reset cb1 else test_only)
                     else cb1
                 | _ \<Rightarrow> cb1)
              else if isProductionFile path then Reset cb1 else test_only)"

definition RecordTestResult :: "TaskCircuitBreaker \<Rightarrow> bool \<Rightarrow> TaskCircuitBreaker" where
  "RecordTestResult cb passed =
     (if passed then cb\<lparr>ConsecutiveTestPasses := ConsecutiveTestPasses cb + 1\<rparr>
      else cb\<lparr>ConsecutiveTestPasses := 0, IsTripped := False\<rparr>)"

definition RecordDuplicateInspection :: "TaskCircuitBreaker \<Rightarrow> TaskCircuitBreaker" where
  "RecordDuplicateInspection cb =
     cb\<lparr>ConsecutiveDuplicateInspections := ConsecutiveDuplicateInspections cb + 1\<rparr>"

definition ResetTurn :: "TaskCircuitBreaker \<Rightarrow> TaskCircuitBreaker" where
  "ResetTurn cb = cb\<lparr>ConsecutiveDuplicateInspections := 0\<rparr>"

definition ShouldBreakReadLoop :: "TaskCircuitBreaker \<Rightarrow> bool \<times> bool" where
  "ShouldBreakReadLoop cb =
     (if ConsecutiveDuplicateInspections cb \<ge> 5 then (True, True)
      else if ConsecutiveDuplicateInspections cb \<ge> 3 then (True, False)
      else (False, False))"

definition ShouldTrip :: "TaskCircuitBreaker \<Rightarrow> int \<Rightarrow> TaskCircuitBreaker \<times> bool" where
  "ShouldTrip cb taskProgress =
     (if IsTripped cb then (cb, True)
      else if ConsecutiveTestPasses cb \<ge> 2 \<and> ConsecutiveTestOnlyTurns cb \<ge> 2 \<and> taskProgress \<ge> 70
           then (cb\<lparr>IsTripped := True\<rparr>, True)
      else (cb, False))"

text \<open>The calls a task makes on its breaker.\<close>

datatype breaker_event =
    EvAction string "(string \<times> gany) list"
  | EvTest bool
  | EvDuplicate
  | EvTurn
  | EvAsk int

fun breaker_step :: "TaskCircuitBreaker \<Rightarrow> breaker_event \<Rightarrow> TaskCircuitBreaker" where
  "breaker_step cb (EvAction tool args) = RecordAction cb tool args"
| "breaker_step cb (EvTest passed) = RecordTestResult cb passed"
| "breaker_step cb EvDuplicate = RecordDuplicateInspection cb"
| "breaker_step cb EvTurn = ResetTurn cb"
| "breaker_step cb (EvAsk progress) = fst (ShouldTrip cb progress)"

section \<open>The events a counter counts\<close>

text \<open>What a mutating call touches: production code, only other files, or no file it names.\<close>

datatype touched = Production | TestOnly | Unnamed

definition touches :: "(string \<times> gany) list \<Rightarrow> touched" where
  "touches args =
     (if str_arg args ''path'' \<noteq> [] then
        (if isProductionFile (str_arg args ''path'') then Production else TestOnly)
      else case map_of args ''files'' of
             Some (GList files) \<Rightarrow>
               if files = [] then Unnamed
               else if list_ex batch_entry_prod files then Production else TestOnly
           | _ \<Rightarrow> Unnamed)"

fun is_production :: "breaker_event \<Rightarrow> bool" where
  "is_production (EvAction tool args) \<longleftrightarrow> IsMutatingTool tool \<and> touches args = Production"
| "is_production _ \<longleftrightarrow> False"

fun is_test_only :: "breaker_event \<Rightarrow> bool" where
  "is_test_only (EvAction tool args) \<longleftrightarrow> IsMutatingTool tool \<and> touches args = TestOnly"
| "is_test_only _ \<longleftrightarrow> False"

fun is_mutation :: "breaker_event \<Rightarrow> bool" where
  "is_mutation (EvAction tool args) \<longleftrightarrow> IsMutatingTool tool"
| "is_mutation _ \<longleftrightarrow> False"

lemma RecordAction_touches:
  "RecordAction cb tool args =
     (if \<not> IsMutatingTool tool then cb
      else case touches args of
             Production \<Rightarrow> Reset cb
           | TestOnly \<Rightarrow> cb\<lparr>ConsecutiveDuplicateInspections := 0,
                            ConsecutiveTestOnlyTurns := ConsecutiveTestOnlyTurns cb + 1\<rparr>
           | Unnamed \<Rightarrow> cb\<lparr>ConsecutiveDuplicateInspections := 0\<rparr>)"
  by (auto simp: RecordAction_def touches_def Let_def Reset_def split: option.splits gany.splits)

definition breaker_rel :: "breaker_event list \<Rightarrow> TaskCircuitBreaker \<Rightarrow> bool" where
  "breaker_rel es cb \<longleftrightarrow>
     ConsecutiveTestPasses cb
       = length (filter (\<lambda>e. e = EvTest True) (since (\<lambda>e. e = EvTest False \<or> is_production e) es))
     \<and> ConsecutiveTestOnlyTurns cb = length (filter is_test_only (since is_production es))
     \<and> ConsecutiveDuplicateInspections cb
       = length (filter (\<lambda>e. e = EvDuplicate) (since (\<lambda>e. e = EvTurn \<or> is_mutation e) es))
     \<and> (IsTripped cb \<longrightarrow> 2 \<le> ConsecutiveTestPasses cb \<and> 2 \<le> ConsecutiveTestOnlyTurns cb)"

interpretation task_breaker: traced NewTaskCircuitBreaker breaker_step breaker_rel
proof
  show "breaker_rel [] NewTaskCircuitBreaker" by (simp add: breaker_rel_def NewTaskCircuitBreaker_def)
  fix es cb e assume "breaker_rel es cb"
  then show "breaker_rel (es @ [e]) (breaker_step cb e)"
    by (cases e) (auto simp: breaker_rel_def RecordAction_touches RecordTestResult_def Reset_def
      RecordDuplicateInspection_def ResetTurn_def ShouldTrip_def split: touched.splits)
qed

section \<open>The oscillation breaker\<close>

datatype OscillationAction = OscillationActionContinue | OscillationActionReconcile | OscillationActionTrip

record OscillationDecision =
  od_Action :: OscillationAction
  od_Period :: nat
  od_StateA :: string
  od_StateB :: string

record FailureState =
  fs_Turn :: int
  fs_Hash :: string
  fs_Summary :: string

record OscillationCircuitBreaker =
  oc_history :: "FailureState list"
  oc_maxWindow :: nat
  oc_reconciliationsCount :: nat
  oc_maxReconciliations :: nat
  oc_maxCyclePeriod :: nat

definition NewOscillationCircuitBreaker :: OscillationCircuitBreaker where
  "NewOscillationCircuitBreaker =
     \<lparr>oc_history = [], oc_maxWindow = 12, oc_reconciliationsCount = 0,
      oc_maxReconciliations = 1, oc_maxCyclePeriod = 4\<rparr>"

text \<open>Whether the state \<open>p\<close> turns back has the hash while some state in between has not.\<close>

definition cycle_at :: "FailureState list \<Rightarrow> string \<Rightarrow> nat \<Rightarrow> bool" where
  "cycle_at history hash p =
     (let n = length history
      in fs_Hash (history ! (n - p)) = hash
         \<and> list_ex (\<lambda>k. fs_Hash (history ! k) \<noteq> hash) [n - p + 1..<n])"

definition find_cycle :: "nat \<Rightarrow> FailureState list \<Rightarrow> string \<Rightarrow> nat option" where
  "find_cycle maxCyclePeriod history hash =
     find (cycle_at history hash) [2..<min maxCyclePeriod (length history) + 1]"

definition RecordFailure ::
  "(string \<Rightarrow> string \<times> string) \<Rightarrow> OscillationCircuitBreaker \<Rightarrow> int \<Rightarrow> string
     \<Rightarrow> OscillationCircuitBreaker \<times> OscillationDecision" where
  "RecordFailure fp cb turn failureLog =
     (let (hash, summary) = fp failureLog;
          n = length (oc_history cb);
          cycle = find_cycle (oc_maxCyclePeriod cb) (oc_history cb) hash;
          appended = oc_history cb @ [\<lparr>fs_Turn = turn, fs_Hash = hash, fs_Summary = summary\<rparr>];
          history' = (if length appended > oc_maxWindow cb
                      then drop (length appended - oc_maxWindow cb) appended else appended);
          cb' = cb\<lparr>oc_history := history'\<rparr>
      in case cycle of
           None \<Rightarrow> (cb', \<lparr>od_Action = OscillationActionContinue, od_Period = 0, od_StateA = [], od_StateB = []\<rparr>)
         | Some p \<Rightarrow>
             let stateA = fs_Summary (oc_history cb ! (n - p));
                 stateB = fs_Summary (history' ! (n - 1))
             in if oc_reconciliationsCount cb < oc_maxReconciliations cb
                then (cb'\<lparr>oc_reconciliationsCount := oc_reconciliationsCount cb + 1\<rparr>,
                      \<lparr>od_Action = OscillationActionReconcile, od_Period = p,
                       od_StateA = stateA, od_StateB = stateB\<rparr>)
                else (cb', \<lparr>od_Action = OscillationActionTrip, od_Period = p,
                            od_StateA = stateA, od_StateB = stateB\<rparr>))"

text \<open>A run records one log per turn; the decisions are collected in order.\<close>

fun record_all ::
  "(string \<Rightarrow> string \<times> string) \<Rightarrow> OscillationCircuitBreaker \<Rightarrow> (int \<times> string) list
     \<Rightarrow> OscillationCircuitBreaker \<times> OscillationDecision list" where
  "record_all fp cb [] = (cb, [])"
| "record_all fp cb ((turn, log) # rest) =
     (let (cb1, d) = RecordFailure fp cb turn log; (cb2, ds) = record_all fp cb1 rest in (cb2, d # ds))"

section \<open>Facts on the oscillation breaker\<close>

definition osc_inv :: "OscillationCircuitBreaker \<Rightarrow> bool" where
  "osc_inv cb \<longleftrightarrow> oc_maxWindow cb = 12 \<and> oc_maxReconciliations cb = 1 \<and> oc_maxCyclePeriod cb = 4
     \<and> length (oc_history cb) \<le> 12 \<and> oc_reconciliationsCount cb \<le> 1"

lemma osc_inv_new: "osc_inv NewOscillationCircuitBreaker"
  by (simp add: osc_inv_def NewOscillationCircuitBreaker_def)

lemma find_cycle_Some:
  assumes "find_cycle m h hash = Some p"
  shows "2 \<le> p \<and> p \<le> m \<and> p \<le> length h \<and> cycle_at h hash p"
    and "\<forall>q. 2 \<le> q \<and> q < p \<longrightarrow> \<not> cycle_at h hash q"
  using assms unfolding find_cycle_def find_upt_Some by auto

lemma find_cycle_None:
  "find_cycle m h hash = None \<longleftrightarrow> (\<forall>p. 2 \<le> p \<and> p \<le> m \<and> p \<le> length h \<longrightarrow> \<not> cycle_at h hash p)"
  by (auto simp: find_cycle_def find_None_iff simp del: upt_Suc)

lemma osc_inv_step: "osc_inv cb \<Longrightarrow> osc_inv (fst (RecordFailure fp cb t l))"
  by (auto simp: osc_inv_def RecordFailure_def Let_def split: prod.splits option.splits)

lemma record_count:
  "osc_inv cb \<Longrightarrow> record_all fp cb es = (cb', ds) \<Longrightarrow>
     osc_inv cb' \<and> oc_reconciliationsCount cb'
       = oc_reconciliationsCount cb + length (filter (\<lambda>d. od_Action d = OscillationActionReconcile) ds)"
proof (induction fp cb es arbitrary: cb' ds rule: record_all.induct)
  case (1 fp cb)
  then show ?case by simp
next
  case (2 fp cb turn log rest)
  obtain cb1 d where r: "RecordFailure fp cb turn log = (cb1, d)" by fastforce
  obtain cb2 ds2 where r2: "record_all fp cb1 rest = (cb2, ds2)" by fastforce
  have inv1: "osc_inv cb1" using osc_inv_step [OF 2(2), of fp turn log] r by simp
  have step: "oc_reconciliationsCount cb1
      = oc_reconciliationsCount cb + (if od_Action d = OscillationActionReconcile then 1 else 0)"
    using r by (auto simp: RecordFailure_def Let_def split: prod.splits option.splits if_splits)
  from 2(1) [OF r [symmetric] refl inv1 r2] 2(3) r r2 step show ?case by auto
qed

lemma trip_needs_reconcile:
  "osc_inv cb \<Longrightarrow> oc_reconciliationsCount cb = 0 \<Longrightarrow> record_all fp cb es = (cb', ds)
   \<Longrightarrow> i < length ds \<Longrightarrow> od_Action (ds ! i) = OscillationActionTrip
   \<Longrightarrow> \<exists>j < i. od_Action (ds ! j) = OscillationActionReconcile"
proof (induction es arbitrary: cb cb' ds i)
  case Nil
  then show ?case by simp
next
  case (Cons e rest)
  obtain turn log where e: "e = (turn, log)" by fastforce
  obtain cb1 d where r: "RecordFailure fp cb turn log = (cb1, d)" by fastforce
  obtain cb2 ds2 where r2: "record_all fp cb1 rest = (cb2, ds2)" by fastforce
  have ds: "ds = d # ds2" using Cons.prems(3) e r r2 by simp
  have inv1: "osc_inv cb1" using osc_inv_step [OF Cons.prems(1), of fp turn log] r by simp
  have d: "od_Action d \<noteq> OscillationActionTrip
      \<and> (od_Action d = OscillationActionReconcile \<or> oc_reconciliationsCount cb1 = 0)"
    using r Cons.prems(1,2) by (auto simp: osc_inv_def RecordFailure_def Let_def split: prod.splits option.splits)
  show ?case
  proof (cases i)
    case 0
    with Cons.prems(5) ds d show ?thesis by simp
  next
    case (Suc k)
    show ?thesis
    proof (cases "od_Action d = OscillationActionReconcile")
      case True
      with ds Suc show ?thesis by (intro exI [of _ 0]) simp
    next
      case False
      with d have "oc_reconciliationsCount cb1 = 0" by blast
      from Cons.IH [OF inv1 this r2, of k] Cons.prems(4,5) ds Suc
      obtain j where "j < k" "od_Action (ds2 ! j) = OscillationActionReconcile" by auto
      with ds Suc show ?thesis by (intro exI [of _ "Suc j"]) simp
    qed
  qed
qed

section \<open>Properties\<close>

text \<open>After any sequence of calls the breaker's counters are exactly the passing runs since the
  last failing run or production change, the test-only changes since the last production change, and
  the duplicate inspections since the last mutation or turn; and a tripped breaker has at least two
  of each of the first two.\<close>

theorem breaker_counts_history:
  "let cb = foldl breaker_step NewTaskCircuitBreaker es
   in ConsecutiveTestPasses cb
        = length (filter (\<lambda>e. e = EvTest True) (since (\<lambda>e. e = EvTest False \<or> is_production e) es))
      \<and> ConsecutiveTestOnlyTurns cb = length (filter is_test_only (since is_production es))
      \<and> ConsecutiveDuplicateInspections cb
        = length (filter (\<lambda>e. e = EvDuplicate) (since (\<lambda>e. e = EvTurn \<or> is_mutation e) es))
      \<and> (IsTripped cb \<longrightarrow> 2 \<le> ConsecutiveTestPasses cb \<and> 2 \<le> ConsecutiveTestOnlyTurns cb)"
  using task_breaker.rel_run [of es] unfolding breaker_rel_def Let_def .

definition sample_events :: "breaker_event list" where
  "sample_events =
     [EvAction ''edit_file'' [(''path'', GStr ''pkg/core.go'')], EvTest True,
      EvAction ''write_file'' [(''path'', GStr ''pkg/core_test.go'')], EvTest True,
      EvAction ''write_files'' [(''files'', GList [GMap [(''path'', GStr ''docs/a.md'')]])], EvAsk 80]"

theorem breaker_counts_history_witness:
  "IsTripped (foldl breaker_step NewTaskCircuitBreaker sample_events)
   \<and> 2 \<le> ConsecutiveTestPasses (foldl breaker_step NewTaskCircuitBreaker sample_events)"
proof -
  have "IsTripped (foldl breaker_step NewTaskCircuitBreaker sample_events)" by code_simp
  with breaker_counts_history [of sample_events] show ?thesis by (simp add: Let_def)
qed

text \<open>The oscillation breaker reacts exactly to oscillations: it answers \<open>Continue\<close> iff none of
  the periods 2 to 4 repeats the current hash with a different failure in between, and otherwise
  names the shortest such period and the failure seen that many turns ago.\<close>

theorem oscillation_detected_iff:
  assumes "osc_inv cb" and "RecordFailure fp cb turn log = (cb', d)" and "fp log = (hash, summary)"
  shows "(od_Action d = OscillationActionContinue \<longleftrightarrow>
      (\<forall>p. 2 \<le> p \<and> p \<le> 4 \<and> p \<le> length (oc_history cb) \<longrightarrow> \<not> cycle_at (oc_history cb) hash p))
    \<and> (od_Action d \<noteq> OscillationActionContinue \<longrightarrow>
         2 \<le> od_Period d \<and> od_Period d \<le> 4 \<and> cycle_at (oc_history cb) hash (od_Period d)
         \<and> (\<forall>q. 2 \<le> q \<and> q < od_Period d \<longrightarrow> \<not> cycle_at (oc_history cb) hash q)
         \<and> od_StateA d = fs_Summary (oc_history cb ! (length (oc_history cb) - od_Period d)))"
proof (cases "find_cycle 4 (oc_history cb) hash")
  case None
  with assms have "od_Action d = OscillationActionContinue"
    by (auto simp: osc_inv_def RecordFailure_def Let_def)
  with None show ?thesis by (simp add: find_cycle_None)
next
  case (Some p)
  with assms have d: "od_Action d \<noteq> OscillationActionContinue" "od_Period d = p"
    "od_StateA d = fs_Summary (oc_history cb ! (length (oc_history cb) - p))"
    by (auto simp: osc_inv_def RecordFailure_def Let_def split: if_splits)
  with find_cycle_Some [OF Some] show ?thesis by auto
qed

definition sample_fp :: "string \<Rightarrow> string \<times> string" where
  "sample_fp log = (log, log)"

definition sample_osc :: OscillationCircuitBreaker where
  "sample_osc = fst (record_all sample_fp NewOscillationCircuitBreaker [(1, ''A''), (2, ''B'')])"

theorem oscillation_detected_iff_witness:
  "od_Action (snd (RecordFailure sample_fp sample_osc 3 ''A'')) = OscillationActionReconcile
   \<and> cycle_at (oc_history sample_osc) ''A'' (od_Period (snd (RecordFailure sample_fp sample_osc 3 ''A'')))"
proof -
  have "osc_inv sample_osc" "sample_fp ''A'' = (''A'', ''A'')" by code_simp+
  note D = oscillation_detected_iff [OF this(1) prod.collapse [symmetric, of "RecordFailure sample_fp sample_osc 3 ''A''"] this(2)]
  have "od_Action (snd (RecordFailure sample_fp sample_osc 3 ''A'')) = OscillationActionReconcile" by code_simp
  with D show ?thesis by simp
qed

text \<open>In every run of the oscillation breaker at most one reconciliation is asked for, and it
  trips only after that reconciliation.\<close>

theorem reconcile_once_before_trip:
  assumes "record_all fp NewOscillationCircuitBreaker es = (cb', ds)"
  shows "length (filter (\<lambda>d. od_Action d = OscillationActionReconcile) ds) \<le> 1
    \<and> (\<forall>i < length ds. od_Action (ds ! i) = OscillationActionTrip
         \<longrightarrow> (\<exists>j < i. od_Action (ds ! j) = OscillationActionReconcile))"
proof -
  have z: "oc_reconciliationsCount NewOscillationCircuitBreaker = 0"
    by (simp add: NewOscillationCircuitBreaker_def)
  from record_count [OF osc_inv_new assms] z
  have "length (filter (\<lambda>d. od_Action d = OscillationActionReconcile) ds) \<le> 1" by (auto simp: osc_inv_def)
  with trip_needs_reconcile [OF osc_inv_new z assms] show ?thesis by blast
qed

theorem reconcile_once_before_trip_witness:
  "\<exists>j < 3. od_Action (snd (record_all sample_fp NewOscillationCircuitBreaker
     [(1, ''A''), (2, ''B''), (3, ''A''), (4, ''B'')]) ! j) = OscillationActionReconcile"
proof -
  let ?r = "record_all sample_fp NewOscillationCircuitBreaker [(1, ''A''), (2, ''B''), (3, ''A''), (4, ''B'')]"
  have "length (snd ?r) = 4" "od_Action (snd ?r ! 3) = OscillationActionTrip" by code_simp+
  with reconcile_once_before_trip [OF prod.collapse [symmetric],
    of sample_fp "[(1, ''A''), (2, ''B''), (3, ''A''), (4, ''B'')]"]
  show ?thesis by simp
qed

text \<open>Until the history window is full the second state a decision names is the failure of the
  previous turn; once twelve failures are recorded it is the current failure instead.\<close>

theorem full_window_names_current_failure:
  assumes "osc_inv cb" and "RecordFailure fp cb turn log = (cb', d)"
    and "od_Action d \<noteq> OscillationActionContinue"
  shows "od_StateB d = (if length (oc_history cb) < 12 then fs_Summary (last (oc_history cb)) else snd (fp log))"
proof -
  obtain hash summary where fp: "fp log = (hash, summary)" by fastforce
  from assms fp obtain p where p: "find_cycle 4 (oc_history cb) hash = Some p"
    by (cases "find_cycle 4 (oc_history cb) hash") (auto simp: osc_inv_def RecordFailure_def Let_def)
  let ?h = "oc_history cb" and ?c = "\<lparr>fs_Turn = turn, fs_Hash = hash, fs_Summary = summary\<rparr>"
  from find_cycle_Some(1) [OF p] have n: "?h \<noteq> []" by auto
  have B: "od_StateB d = fs_Summary ((if length (?h @ [?c]) > 12 then drop (length (?h @ [?c]) - 12) (?h @ [?c])
      else ?h @ [?c]) ! (length ?h - 1))"
    using assms fp p by (auto simp: osc_inv_def RecordFailure_def Let_def split: if_splits)
  show ?thesis
  proof (cases "length ?h < 12")
    case True
    with B n show ?thesis by (simp add: nth_append last_conv_nth)
  next
    case False
    with assms(1) have "length ?h = 12" by (simp add: osc_inv_def)
    with B fp show ?thesis by (simp add: nth_append)
  qed
qed

definition sample_full :: OscillationCircuitBreaker where
  "sample_full = fst (record_all sample_fp NewOscillationCircuitBreaker
     (zip [1..12] (concat (replicate 6 [''A'', ''B'']))))"

theorem full_window_names_current_failure_witness:
  "fs_Summary (last (oc_history sample_full)) = ''B''
   \<and> od_StateA (snd (RecordFailure sample_fp sample_full 13 ''A'')) = ''A''
   \<and> od_StateB (snd (RecordFailure sample_fp sample_full 13 ''A'')) = ''A''"
proof -
  have inv: "osc_inv sample_full" by code_simp
  have act: "od_Action (snd (RecordFailure sample_fp sample_full 13 ''A'')) \<noteq> OscillationActionContinue"
    by code_simp
  have "\<not> length (oc_history sample_full) < 12" "snd (sample_fp ''A'') = ''A''" by code_simp+
  with full_window_names_current_failure [OF inv prod.collapse [symmetric] act]
  have "od_StateB (snd (RecordFailure sample_fp sample_full 13 ''A'')) = ''A''" by simp
  moreover have "fs_Summary (last (oc_history sample_full)) = ''B''"
    "od_StateA (snd (RecordFailure sample_fp sample_full 13 ''A'')) = ''A''" by code_simp+
  ultimately show ?thesis by blast
qed

end
