(* ===== verification/Turn_Guards.thy ===== *)
theory Turn_Guards
  imports Go_Strings "HOL-Library.List_Lexorder" "HOL-Library.Char_ord"
begin

text \<open>
  The guards that a repair turn consults, each a small stateful object:
  \<open>diff_oscillation_guard.go\<close> (a workspace state seen before), \<open>regression_barrier_guard.go\<close>
  (tests that passed must keep passing), \<open>test_count_monotonicity_guard.go\<close> (tests must not
  disappear), \<open>error_fingerprinter.go\<close> (the same error again), \<open>adaptive_turn_manager.go\<close> (extra
  turns), \<open>zero_mutation_guard.go\<close> (claims without work) and \<open>bounded_buffer.go\<close> (the tail of a
  command's output). SHA-256 is the parameter \<open>digest\<close>; error normalisation and hashing together
  are the parameter \<open>fp\<close>. Message texts are left out.
\<close>

section \<open>Diff oscillation\<close>

record DiffOscillationViolation =
  dv_CurrentTurn :: int
  dv_PreviousTurn :: int
  dv_StateDigest :: string

record DiffOscillationGuard =
  dg_history :: "string \<rightharpoonup> int"
  dg_turnHistory :: "string list"
  dg_maxWindow :: int

definition NewDiffOscillationGuard :: "int \<Rightarrow> DiffOscillationGuard" where
  "NewDiffOscillationGuard maxWindow =
     \<lparr>dg_history = Map.empty, dg_turnHistory = [], dg_maxWindow = maxWindow\<rparr>"

text \<open>Reading an absent key of a Go map gives the zero value.\<close>

definition map_get :: "('k \<rightharpoonup> int) \<Rightarrow> 'k \<Rightarrow> int" where
  "map_get m k = (case m k of Some v \<Rightarrow> v | None \<Rightarrow> 0)"

definition record_state :: "DiffOscillationGuard \<Rightarrow> int \<Rightarrow> string \<Rightarrow> DiffOscillationGuard" where
  "record_state g turn d =
     (let history = (dg_history g)(d \<mapsto> turn);
          turns = dg_turnHistory g @ [d]
      in if dg_maxWindow g > 0 \<and> int (length turns) > dg_maxWindow g
         then let oldest = hd turns
              in g\<lparr>dg_turnHistory := tl turns,
                   dg_history := (if map_get history oldest \<le> turn - dg_maxWindow g
                                  then history(oldest := None) else history)\<rparr>
         else g\<lparr>dg_turnHistory := turns, dg_history := history\<rparr>)"

definition RecordAndCheck ::
  "(string \<Rightarrow> string) \<Rightarrow> DiffOscillationGuard \<Rightarrow> int \<Rightarrow> string
     \<Rightarrow> DiffOscillationGuard \<times> DiffOscillationViolation option" where
  "RecordAndCheck digest g turn diffContent =
     (let d = digest diffContent
      in case dg_history g d of
           Some prevTurn \<Rightarrow>
             if prevTurn \<noteq> turn
             then (g, Some \<lparr>dv_CurrentTurn = turn, dv_PreviousTurn = prevTurn, dv_StateDigest = d\<rparr>)
             else (record_state g turn d, None)
         | None \<Rightarrow> (record_state g turn d, None))"

definition diff_Reset :: "DiffOscillationGuard \<Rightarrow> DiffOscillationGuard" where
  "diff_Reset g = g\<lparr>dg_history := Map.empty, dg_turnHistory := []\<rparr>"

section \<open>The regression barrier\<close>

record RegressionBarrierViolation =
  rv_PreviousTurn :: int
  rv_CurrentTurn :: int
  rv_RegressedTests :: "string list"
  rv_TotalBaseline :: nat
  rv_TotalCurrent :: nat

record RegressionBarrierGuard =
  rb_lastTurn :: int
  rb_passingTests :: "string set"

definition NewRegressionBarrierGuard :: RegressionBarrierGuard where
  "NewRegressionBarrierGuard = \<lparr>rb_lastTurn = 0, rb_passingTests = {}\<rparr>"

definition clean_names :: "string list \<Rightarrow> string set" where
  "clean_names tests = set (filter (\<lambda>t. t \<noteq> []) (map TrimSpace tests))"

definition SetBaseline :: "RegressionBarrierGuard \<Rightarrow> int \<Rightarrow> string list \<Rightarrow> RegressionBarrierGuard" where
  "SetBaseline g turn passing = g\<lparr>rb_lastTurn := turn, rb_passingTests := clean_names passing\<rparr>"

definition barrier_violation ::
  "RegressionBarrierGuard \<Rightarrow> int \<Rightarrow> string set \<Rightarrow> RegressionBarrierViolation option" where
  "barrier_violation g turn current =
     (let regressed = rb_passingTests g - current
      in if regressed \<noteq> {}
         then Some \<lparr>rv_PreviousTurn = rb_lastTurn g, rv_CurrentTurn = turn,
                rv_RegressedTests = sorted_list_of_set regressed,
                rv_TotalBaseline = card (rb_passingTests g), rv_TotalCurrent = card current\<rparr>
         else None)"

definition CheckRegression ::
  "RegressionBarrierGuard \<Rightarrow> int \<Rightarrow> string list \<Rightarrow> RegressionBarrierViolation option" where
  "CheckRegression g turn currentPassing =
     (if rb_passingTests g = {} then None
      else barrier_violation g turn (clean_names currentPassing))"

definition UpdateAndCheck ::
  "RegressionBarrierGuard \<Rightarrow> int \<Rightarrow> string list
     \<Rightarrow> RegressionBarrierGuard \<times> RegressionBarrierViolation option" where
  "UpdateAndCheck g turn currentPassing =
     (let current = clean_names currentPassing
      in case barrier_violation g turn current of
           Some v \<Rightarrow> (g, Some v)
         | None \<Rightarrow> (g\<lparr>rb_lastTurn := turn, rb_passingTests := rb_passingTests g \<union> current\<rparr>, None))"

definition BaselineSize :: "RegressionBarrierGuard \<Rightarrow> nat" where
  "BaselineSize g = card (rb_passingTests g)"

definition barrier_Reset :: "RegressionBarrierGuard \<Rightarrow> RegressionBarrierGuard" where
  "barrier_Reset g = g\<lparr>rb_lastTurn := 0, rb_passingTests := {}\<rparr>"

section \<open>The number of tests\<close>

record TestCountMonotonicityViolation =
  tv_BaselineCount :: int
  tv_NewCount :: int
  tv_Context :: string

definition pyTestRe :: "string \<Rightarrow> bool" where
  "pyTestRe s \<longleftrightarrow> re_seq [re_star re_space, re_lit ''def'', re_plus re_space, re_lit ''test_'',
     re_plus word_char, re_star re_space, re_lit ''(''] s \<noteq> None"

definition goTestRe :: "string \<Rightarrow> bool" where
  "goTestRe s \<longleftrightarrow> re_seq [re_star re_space, re_lit ''func'', re_plus re_space, re_lit ''Test'',
     re_plus word_char, re_star re_space, re_lit ''(''] s \<noteq> None"

definition js_call :: "string \<Rightarrow> string \<Rightarrow> bool" where
  "js_call name s \<longleftrightarrow>
     (case re_seq [re_lit name, re_star re_space, re_lit ''('', re_star re_space] s of
        Some (c # _) \<Rightarrow> c = CHR 0x27 \<or> c = CHR 0x22 \<or> c = CHR 0x60
      | _ \<Rightarrow> False)"

text \<open>A call of \<open>it\<close> or \<open>test\<close> at the start or after a character that is no word character.\<close>

fun js_scan :: "bool \<Rightarrow> string \<Rightarrow> bool" where
  "js_scan boundary [] = False"
| "js_scan boundary (c # s) =
     ((boundary \<and> (js_call ''it'' (c # s) \<or> js_call ''test'' (c # s))) \<or> js_scan (\<not> word_char c) s)"

definition jsTestRe :: "string \<Rightarrow> bool" where
  "jsTestRe s = js_scan True s"

definition rustTestRe :: "string \<Rightarrow> bool" where
  "rustTestRe s \<longleftrightarrow> re_seq [re_star re_space, re_lit ''#[test]''] s \<noteq> None"

definition counts_line :: "string \<Rightarrow> string \<Rightarrow> bool" where
  "counts_line ext line =
     (let trimmed = TrimSpace line
      in if ext = ''.py'' then \<not> HasPrefix trimmed ''#'' \<and> pyTestRe trimmed
         else if ext = ''.go'' then \<not> HasPrefix trimmed ''//'' \<and> goTestRe trimmed
         else if ext \<in> {''.js'', ''.jsx'', ''.ts'', ''.tsx''} then \<not> HasPrefix trimmed ''//'' \<and> jsTestRe trimmed
         else if ext = ''.rs'' then \<not> HasPrefix trimmed ''//'' \<and> rustTestRe trimmed
         else False)"

definition CountTestsInContent :: "string \<Rightarrow> string \<Rightarrow> nat" where
  "CountTestsInContent filePath content =
     length (filter (counts_line (ToLower (Ext filePath))) (Split content newline))"

definition ValidateMonotonicity ::
  "int \<Rightarrow> int \<Rightarrow> string \<Rightarrow> TestCountMonotonicityViolation option" where
  "ValidateMonotonicity baselineCount newCount context =
     (if newCount < baselineCount
      then Some \<lparr>tv_BaselineCount = baselineCount, tv_NewCount = newCount, tv_Context = context\<rparr>
      else None)"

section \<open>Repeated errors\<close>

record ErrorFingerprinter =
  ef_seenHashes :: "string \<rightharpoonup> int"
  ef_lastHash :: string
  ef_maxDuplicates :: int

definition NewErrorFingerprinter :: "int list \<Rightarrow> ErrorFingerprinter" where
  "NewErrorFingerprinter maxDuplicates =
     \<lparr>ef_seenHashes = Map.empty, ef_lastHash = [],
      ef_maxDuplicates = (if maxDuplicates \<noteq> [] \<and> hd maxDuplicates > 0 then hd maxDuplicates else 1)\<rparr>"

definition RecordAndCheckLoop ::
  "(string \<Rightarrow> string) \<Rightarrow> ErrorFingerprinter \<Rightarrow> string \<Rightarrow> ErrorFingerprinter \<times> bool \<times> string" where
  "RecordAndCheckLoop fp f raw =
     (let hash = fp raw;
          count = map_get (ef_seenHashes f) hash + 1;
          f1 = f\<lparr>ef_seenHashes := (ef_seenHashes f)(hash \<mapsto> count)\<rparr>
      in if count > ef_maxDuplicates f \<or> (ef_lastHash f \<noteq> [] \<and> ef_lastHash f = hash)
         then (f1, True, hash) else (f1\<lparr>ef_lastHash := hash\<rparr>, False, hash))"

definition fingerprint_Reset :: "ErrorFingerprinter \<Rightarrow> ErrorFingerprinter" where
  "fingerprint_Reset f = f\<lparr>ef_seenHashes := Map.empty, ef_lastHash := []\<rparr>"

section \<open>Extra turns\<close>

record AdaptiveTurnManager =
  MinTurns :: int
  MaxExtensions :: int

definition NewAdaptiveTurnManager :: "int list \<Rightarrow> AdaptiveTurnManager" where
  "NewAdaptiveTurnManager maxExtensions =
     \<lparr>MinTurns = 2, MaxExtensions =
        (if maxExtensions \<noteq> [] \<and> hd maxExtensions > 0 then hd maxExtensions else 3)\<rparr>"

definition EnforceMinTurns :: "AdaptiveTurnManager \<Rightarrow> int \<Rightarrow> int" where
  "EnforceMinTurns m configuredTurns =
     (if configuredTurns < MinTurns m then MinTurns m else configuredTurns)"

definition ShouldGrantExtension :: "AdaptiveTurnManager \<Rightarrow> int \<Rightarrow> int \<Rightarrow> int \<Rightarrow> bool" where
  "ShouldGrantExtension m prevFailures currFailures extensionsUsed =
     (if extensionsUsed \<ge> MaxExtensions m then False
      else prevFailures > 0 \<and> currFailures \<ge> 0 \<and> currFailures < prevFailures)"

definition ShouldGrantProgressExtension ::
  "AdaptiveTurnManager \<Rightarrow> int \<Rightarrow> int \<Rightarrow> int \<Rightarrow> int \<Rightarrow> int \<Rightarrow> bool" where
  "ShouldGrantProgressExtension m prevFailures currFailures prevPassed currPassed extensionsUsed =
     (if extensionsUsed \<ge> MaxExtensions m then False
      else if prevFailures > 0 \<and> currFailures \<ge> 0 \<and> currFailures < prevFailures then True
      else currPassed > prevPassed \<and> currFailures > 0)"

section \<open>Claims without work\<close>

datatype zero_mutation_error = ZeroMutation | NoTests | TestsFailed int | ContractsFailed nat int

definition ValidateGitMutation :: "string \<Rightarrow> string \<Rightarrow> zero_mutation_error option" where
  "ValidateGitMutation workingTreeDiff committedDiff =
     (if TrimSpace workingTreeDiff = [] \<and> TrimSpace committedDiff = [] then Some ZeroMutation else None)"

definition ValidateTestMetrics :: "int \<Rightarrow> int \<Rightarrow> zero_mutation_error option" where
  "ValidateTestMetrics totalTests failedTests =
     (if totalTests \<le> 0 then Some NoTests
      else if failedTests > 0 then Some (TestsFailed failedTests) else None)"

definition ValidateAcceptanceContracts :: "int \<Rightarrow> string list \<Rightarrow> zero_mutation_error option" where
  "ValidateAcceptanceContracts executedContracts failures =
     (if failures \<noteq> [] then Some (ContractsFailed (length failures) executedContracts) else None)"

section \<open>The bounded output buffer\<close>

definition defaultBoundedBufferMax :: nat where
  "defaultBoundedBufferMax = 2 ^ 20"

record BoundedBuffer =
  bb_max :: nat
  bb_buf :: string
  bb_truncated :: bool

definition NewBoundedBuffer :: "int \<Rightarrow> BoundedBuffer" where
  "NewBoundedBuffer mx =
     \<lparr>bb_max = (if mx \<le> 0 then defaultBoundedBufferMax else nat mx), bb_buf = [], bb_truncated = False\<rparr>"

definition Write :: "BoundedBuffer \<Rightarrow> string \<Rightarrow> BoundedBuffer" where
  "Write b0 p =
     (let b = (if bb_max b0 = 0 then b0\<lparr>bb_max := defaultBoundedBufferMax\<rparr> else b0)
      in if length p \<ge> bb_max b
         then (let b1 = b\<lparr>bb_buf := drop (length p - bb_max b) p\<rparr>
               in if length p > bb_max b then b1\<lparr>bb_truncated := True\<rparr> else b1)
         else let buf = bb_buf b @ p
              in if length buf > bb_max b
                 then b\<lparr>bb_buf := drop (length buf - bb_max b) buf, bb_truncated := True\<rparr>
                 else b\<lparr>bb_buf := buf\<rparr>)"

section \<open>Facts on the diff oscillation guard\<close>

text \<open>With turns that only increase, the map holds exactly the window: the digests of
  \<open>turnHistory\<close> with increasing turns.\<close>

definition diff_window :: "int \<Rightarrow> DiffOscillationGuard \<Rightarrow> (string \<times> int) list \<Rightarrow> bool" where
  "diff_window now g ps \<longleftrightarrow> dg_turnHistory g = map fst ps \<and> dg_history g = map_of ps
     \<and> distinct (map fst ps) \<and> sorted_wrt (<) (map snd ps) \<and> (\<forall>t \<in> snd ` set ps. t \<le> now)
     \<and> (0 < dg_maxWindow g \<longrightarrow> int (length ps) \<le> dg_maxWindow g)"

lemma diff_window_new: "diff_window now (NewDiffOscillationGuard w) []"
  by (simp add: diff_window_def NewDiffOscillationGuard_def)

lemma diff_window_mono: "diff_window now g ps \<Longrightarrow> now \<le> now' \<Longrightarrow> diff_window now' g ps"
  unfolding diff_window_def by (meson order.trans)

text \<open>Strictly increasing integers: the first is at least as far below the last as there are
  elements after it.\<close>

lemma sorted_ints_spread: "sorted_wrt (<) (t # ts :: int list) \<Longrightarrow> t + int (length ts) \<le> last (t # ts)"
proof (induction ts arbitrary: t)
  case Nil
  then show ?case by simp
next
  case (Cons u ts)
  then have "u + int (length ts) \<le> last (u # ts)" by auto
  moreover have "t < u" using Cons.prems by simp
  ultimately show ?case by simp
qed

text \<open>Recording a fresh digest at a later turn slides the window.\<close>

lemma record_state_window:
  assumes w: "diff_window now g ps" and t: "now < turn" and d: "d \<notin> fst ` set ps"
  shows "diff_window turn (record_state g turn d)
    (if 0 < dg_maxWindow g then last_n (nat (dg_maxWindow g)) (ps @ [(d, turn)]) else ps @ [(d, turn)])"
proof -
  let ?ps = "ps @ [(d, turn)]"
  have "map_of ps d = None" using d by (simp add: map_of_eq_None_iff)
  then have h: "dg_turnHistory g @ [d] = map fst ?ps" "(dg_history g)(d \<mapsto> turn) = map_of ?ps"
    using w by (auto simp: diff_window_def map_add_def fun_eq_iff split: option.splits)
  have q: "distinct (map fst ?ps)" "sorted_wrt (<) (map snd ?ps)" "\<forall>u \<in> snd ` set ?ps. u \<le> turn"
    using w t d by (fastforce simp: diff_window_def sorted_wrt_append)+
  show ?thesis
  proof (cases "0 < dg_maxWindow g \<and> int (length ?ps) > dg_maxWindow g")
    case False
    then have "record_state g turn d = g\<lparr>dg_turnHistory := map fst ?ps, dg_history := map_of ?ps\<rparr>"
      unfolding record_state_def h by (auto simp: Let_def)
    with False q show ?thesis by (auto simp: diff_window_def)
  next
    case True
    with w have len: "int (length ps) = dg_maxWindow g" by (auto simp: diff_window_def)
    obtain o0 t0 rest where ps: "?ps = (o0, t0) # rest" by (cases ?ps) auto
    have n: "length rest = length ps" using arg_cong [OF ps, of length] by simp
    have l: "last (map snd ?ps) = turn" by simp
    have "t0 + int (length rest) \<le> turn"
      using sorted_ints_spread [of t0 "map snd rest"] q(2) l unfolding ps by simp
    moreover have "map_get (map_of ?ps) o0 = t0" unfolding ps by (simp add: map_get_def)
    ultimately have t0: "map_get (map_of ?ps) o0 \<le> turn - dg_maxWindow g" using n len by simp
    have m: "(map_of ?ps)(o0 := None) = map_of rest"
      using q(1) map_of_eq_None_iff [of rest o0] unfolding ps by (simp add: fun_eq_iff)
    have hd: "hd (map fst ?ps) = o0" "tl (map fst ?ps) = map fst rest" unfolding ps by simp_all
    have "record_state g turn d = g\<lparr>dg_turnHistory := map fst rest, dg_history := map_of rest\<rparr>"
      using True t0 unfolding record_state_def Let_def h hd m by (simp add: hd m)
    moreover have "last_n (nat (dg_maxWindow g)) ?ps = rest"
      using n unfolding ps len [symmetric] by (simp add: last_n_def Suc_diff_le)
    moreover have "distinct (map fst rest)" "sorted_wrt (<) (map snd rest)" "\<forall>u \<in> snd ` set rest. u \<le> turn"
      using q unfolding ps by simp_all
    ultimately show ?thesis using True len n by (simp add: diff_window_def)
  qed
qed

text \<open>A run of the guard: the recorded states are those that raised no violation.\<close>

fun diff_run ::
  "(string \<Rightarrow> string) \<Rightarrow> DiffOscillationGuard \<Rightarrow> (int \<times> string) list
     \<Rightarrow> DiffOscillationGuard \<times> (string \<times> int) list" where
  "diff_run digest g [] = (g, [])"
| "diff_run digest g ((turn, content) # rest) =
     (let (g1, v) = RecordAndCheck digest g turn content;
          (g2, ps) = diff_run digest g1 rest
      in (g2, (if v = None then [(digest content, turn)] else []) @ ps))"

definition window_of :: "int \<Rightarrow> 'a list \<Rightarrow> 'a list" where
  "window_of w ps = (if 0 < w then last_n (nat w) ps else ps)"

lemma window_of_append: "window_of w (window_of w ps @ qs) = window_of w (ps @ qs)"
  by (simp add: window_of_def last_n_last_n)

lemma RecordAndCheck_window:
  assumes "diff_window now g ps" "now < turn"
  shows "(snd (RecordAndCheck digest g turn c) = None \<longleftrightarrow> digest c \<notin> fst ` set ps)
    \<and> dg_maxWindow (fst (RecordAndCheck digest g turn c)) = dg_maxWindow g
    \<and> diff_window turn (fst (RecordAndCheck digest g turn c))
        (if digest c \<in> fst ` set ps then ps else window_of (dg_maxWindow g) (ps @ [(digest c, turn)]))"
proof (cases "digest c \<in> fst ` set ps")
  case True
  then obtain t where t: "(digest c, t) \<in> set ps" by auto
  with assms(1) have "dg_history g (digest c) = Some t" "t \<le> now" by (auto simp: diff_window_def)
  with assms t True show ?thesis
    by (auto simp: RecordAndCheck_def intro: diff_window_mono [OF assms(1)])
next
  case False
  with assms(1) have "dg_history g (digest c) = None" by (simp add: diff_window_def map_of_eq_None_iff)
  then have "RecordAndCheck digest g turn c = (record_state g turn (digest c), None)"
    by (simp add: RecordAndCheck_def)
  with record_state_window [OF assms False] False show ?thesis
    by (simp add: window_of_def record_state_def Let_def)
qed

lemma diff_run_window:
  assumes "diff_window now g (window_of (dg_maxWindow g) ps)" "sorted_wrt (<) (now # map fst es)"
    and "diff_run digest g es = (g', qs)"
  shows "dg_maxWindow g' = dg_maxWindow g
    \<and> diff_window (last (now # map fst es)) g' (window_of (dg_maxWindow g) (ps @ qs))"
  using assms
proof (induction es arbitrary: now g g' ps qs)
  case Nil
  then show ?case by simp
next
  case (Cons e es)
  obtain turn c where e: "e = (turn, c)" by fastforce
  obtain g1 v where r: "RecordAndCheck digest g turn c = (g1, v)" by fastforce
  obtain g2 qs' where r2: "diff_run digest g1 es = (g2, qs')" by fastforce
  have out: "g' = g2" "qs = (if v = None then [(digest c, turn)] else []) @ qs'"
    using Cons.prems(3) e r r2 by auto
  have lt: "now < turn" and srt: "sorted_wrt (<) (turn # map fst es)" using Cons.prems(2) e by auto
  note st = RecordAndCheck_window [OF Cons.prems(1) lt, of digest c, unfolded r fst_conv snd_conv]
  let ?ps = "if v = None then ps @ [(digest c, turn)] else ps"
  have "diff_window turn g1 (window_of (dg_maxWindow g1) ?ps)"
    using st by (auto simp: window_of_append split: if_splits)
  from Cons.IH [OF this srt r2] st out e show ?case by (auto split: if_splits)
qed

section \<open>Facts on the other guards\<close>

definition barrier_step :: "RegressionBarrierGuard \<Rightarrow> int \<times> string list \<Rightarrow> RegressionBarrierGuard" where
  "barrier_step g e = fst (UpdateAndCheck g (fst e) (snd e))"

lemma barrier_violation_None: "barrier_violation g t c = None \<longleftrightarrow> rb_passingTests g \<subseteq> c"
  by (auto simp: barrier_violation_def Let_def)

text \<open>The watermark after a run: every turn was accepted with all the tests of the watermark it
  met, so the watermark never loses a test.\<close>

lemma barrier_step_mono: "rb_passingTests g \<subseteq> rb_passingTests (barrier_step g e)"
  by (auto simp: barrier_step_def UpdateAndCheck_def Let_def split: option.splits)

lemma barrier_run_mono: "rb_passingTests g \<subseteq> rb_passingTests (foldl barrier_step g es)"
proof (induction es arbitrary: g)
  case (Cons e es)
  from barrier_step_mono [of g e] Cons [of "barrier_step g e"] show ?case by simp
qed simp

lemma Split_append_newline: "Split (a @ sep # b) sep = Split a sep @ Split b sep"
proof -
  have "split_acc sep acc (a @ sep # b) = split_acc sep acc a @ split_acc sep [] b" for acc
    by (induction a arbitrary: acc) auto
  then show ?thesis by (simp add: Split_def)
qed

lemma CountTests_append:
  "CountTestsInContent f (a @ newline # b) = CountTestsInContent f a + CountTestsInContent f b"
  by (simp add: CountTestsInContent_def Split_append_newline)

definition seen_rel :: "(string \<Rightarrow> string) \<Rightarrow> string list \<Rightarrow> ErrorFingerprinter \<Rightarrow> bool" where
  "seen_rel fp raws f \<longleftrightarrow> ef_maxDuplicates f = 1
     \<and> (\<forall>h. map_get (ef_seenHashes f) h = int (count_list (map fp raws) h))
     \<and> (ef_lastHash f \<noteq> [] \<longrightarrow> ef_lastHash f \<in> set (map fp raws))"

lemma map_get_upd [simp]: "map_get (m(k \<mapsto> v)) x = (if x = k then v else map_get m x)"
  by (simp add: map_get_def)

interpretation fingerprinter: traced "NewErrorFingerprinter []" "\<lambda>f raw. fst (RecordAndCheckLoop fp f raw)" "seen_rel fp"
  for fp
proof
  show "seen_rel fp [] (NewErrorFingerprinter [])"
    by (simp add: seen_rel_def NewErrorFingerprinter_def map_get_def)
  fix raws f raw assume "seen_rel fp raws f"
  then show "seen_rel fp (raws @ [raw]) (fst (RecordAndCheckLoop fp f raw))"
    by (auto simp: seen_rel_def RecordAndCheckLoop_def Let_def)
qed

lemma loop_iff_count:
  assumes "seen_rel fp raws f"
  shows "fst (snd (RecordAndCheckLoop fp f raw)) \<longleftrightarrow> fp raw \<in> fp ` set raws"
proof -
  have "0 < count_list (map fp raws) (fp raw) \<longleftrightarrow> fp raw \<in> fp ` set raws"
    using count_list_0_iff [of "map fp raws" "fp raw"] by auto
  moreover have "ef_lastHash f \<noteq> [] \<and> ef_lastHash f = fp raw \<Longrightarrow> fp raw \<in> fp ` set raws"
    using assms by (metis seen_rel_def set_map)
  ultimately show ?thesis using assms by (auto simp: seen_rel_def RecordAndCheckLoop_def Let_def)
qed

definition tail_rel :: "nat \<Rightarrow> string list \<Rightarrow> BoundedBuffer \<Rightarrow> bool" where
  "tail_rel mx ps b \<longleftrightarrow> bb_max b = mx \<and> 0 < mx \<and> bb_buf b = last_n mx (concat ps)
     \<and> (bb_truncated b \<longrightarrow> mx < length (concat ps))"

lemma bb_max_new [simp]: "bb_max (NewBoundedBuffer m) = (if m \<le> 0 then defaultBoundedBufferMax else nat m)"
  by (simp add: NewBoundedBuffer_def)

interpretation bounded_buffer: traced "NewBoundedBuffer m" Write "tail_rel (bb_max (NewBoundedBuffer m))"
  for m
proof
  show "tail_rel (bb_max (NewBoundedBuffer m)) [] (NewBoundedBuffer m)"
    by (auto simp: tail_rel_def NewBoundedBuffer_def defaultBoundedBufferMax_def)
  fix ps b p assume a: "tail_rel (bb_max (NewBoundedBuffer m)) ps b"
  let ?mx = "bb_max (NewBoundedBuffer m)"
  have b: "bb_max b = ?mx" "0 < ?mx" "bb_buf b = last_n ?mx (concat ps)"
    "bb_truncated b \<Longrightarrow> ?mx < length (concat ps)" using a by (simp_all only: tail_rel_def simp_thms)
  show "tail_rel ?mx (ps @ [p]) (Write b p)"
  proof (cases "length p \<ge> ?mx")
    case True
    then have "last_n ?mx (concat (ps @ [p])) = drop (length p - ?mx) p"
      by (simp add: last_n_append) (simp add: last_n_def)
    moreover have "bb_truncated b \<Longrightarrow> concat ps \<noteq> []" using b(4) by fastforce
    ultimately show ?thesis using True b by (auto simp: tail_rel_def Write_def Let_def simp del: bb_max_new)
  next
    case False
    have l: "last_n ?mx (bb_buf b @ p) = last_n ?mx (concat (ps @ [p]))"
      by (simp add: b(3) last_n_last_n del: bb_max_new)
    have "length (bb_buf b) \<le> length (concat ps)" by (simp add: b(3) del: bb_max_new)
    moreover have "Write b p = b\<lparr>bb_buf := last_n ?mx (bb_buf b @ p),
        bb_truncated := bb_truncated b \<or> ?mx < length (bb_buf b @ p)\<rparr>"
      using False b(1,2) by (auto simp: Write_def Let_def last_n_def simp del: bb_max_new)
    ultimately show ?thesis using b l by (auto simp: tail_rel_def simp del: bb_max_new)
  qed
qed

section \<open>Properties\<close>

text \<open>When the turns increase, the diff guard reports a state exactly if its digest is among the
  last \<open>maxWindow\<close> recorded ones (any recorded one without a window), and it keeps no other state:
  the memory of the guard is bounded by the window.\<close>

theorem diff_guard_window_exact:
  assumes "sorted_wrt (<) (now # map fst es @ [turn])"
    and "diff_run digest (NewDiffOscillationGuard w) es = (g, ps)"
  shows "(snd (RecordAndCheck digest g turn c) \<noteq> None
       \<longleftrightarrow> digest c \<in> fst ` set (if 0 < w then last_n (nat w) ps else ps))
    \<and> dom (dg_history g) = fst ` set (if 0 < w then last_n (nat w) ps else ps)"
proof -
  have w: "dg_maxWindow (NewDiffOscillationGuard w) = w" by (simp add: NewDiffOscillationGuard_def)
  have s: "sorted_wrt (<) (now # map fst es)" "last (now # map fst es) < turn"
    using assms(1) by (auto simp: sorted_wrt_append last_map)
  from diff_window_new have "diff_window now (NewDiffOscillationGuard w) (window_of (dg_maxWindow (NewDiffOscillationGuard w)) [])"
    by (simp add: window_of_def)
  from diff_run_window [OF this s(1) assms(2)] w
  have d: "diff_window (last (now # map fst es)) g (window_of w ps)" by simp
  from RecordAndCheck_window [OF d s(2), of digest c] have "snd (RecordAndCheck digest g turn c) \<noteq> None
       \<longleftrightarrow> digest c \<in> fst ` set (window_of w ps)" by simp
  moreover from d have "dom (dg_history g) = fst ` set (window_of w ps)"
    by (simp add: diff_window_def dom_map_of_conv_image_fst)
  ultimately show ?thesis by (simp add: window_of_def)
qed

theorem diff_guard_window_exact_witness:
  "snd (RecordAndCheck id (fst (diff_run id (NewDiffOscillationGuard 2) [(1, ''A''), (2, ''B''), (3, ''C'')])) 4 ''B'') \<noteq> None
   \<and> snd (RecordAndCheck id (fst (diff_run id (NewDiffOscillationGuard 2) [(1, ''A''), (2, ''B''), (3, ''C'')])) 4 ''A'') = None"
proof -
  let ?r = "diff_run id (NewDiffOscillationGuard 2) [(1, ''A''), (2, ''B''), (3, ''C'')]"
  have s: "sorted_wrt (<) (0 # map fst [(1, ''A''), (2, ''B''), (3, ''C'')] @ [4 :: int])" by simp
  have "snd ?r = [(''A'', 1), (''B'', 2), (''C'', 3)]" by code_simp
  then have "?r = (fst ?r, [(''A'', 1), (''B'', 2), (''C'', 3)])" by (metis prod.collapse)
  note D = diff_guard_window_exact [OF s this]
  from D [of "''B''"] D [of "''A''"] show ?thesis by (auto simp: last_n_def)
qed

text \<open>C20: The regression barrier keeps its promise over a whole run: when a turn is accepted, every
  test that passed in any earlier accepted turn passes in it too, and when a turn is rejected the
  report lists exactly the watermark tests that are missing, in order.\<close>

theorem barrier_no_lost_test:
  assumes "g = foldl barrier_step NewRegressionBarrierGuard es"
  shows "case snd (UpdateAndCheck g turn passing) of
      None \<Rightarrow> (\<forall>es1 t ps es2. es = es1 @ (t, ps) # es2
          \<longrightarrow> snd (UpdateAndCheck (foldl barrier_step NewRegressionBarrierGuard es1) t ps) = None
          \<longrightarrow> clean_names ps \<subseteq> clean_names passing)
    | Some v \<Rightarrow> rv_RegressedTests v \<noteq> [] \<and> sorted_wrt (<) (rv_RegressedTests v)
        \<and> set (rv_RegressedTests v) = rb_passingTests g - clean_names passing"
proof (cases "snd (UpdateAndCheck g turn passing)")
  case None
  then have sub: "rb_passingTests g \<subseteq> clean_names passing"
    by (auto simp: UpdateAndCheck_def Let_def barrier_violation_None split: option.splits)
  have "clean_names ps \<subseteq> clean_names passing"
    if es: "es = es1 @ (t, ps) # es2"
      and ok: "snd (UpdateAndCheck (foldl barrier_step NewRegressionBarrierGuard es1) t ps) = None" for es1 t ps es2
  proof -
    let ?g = "foldl barrier_step NewRegressionBarrierGuard es1"
    have "clean_names ps \<subseteq> rb_passingTests (barrier_step ?g (t, ps))"
      using ok by (auto simp: barrier_step_def UpdateAndCheck_def Let_def split: option.splits)
    also have "\<dots> \<subseteq> rb_passingTests g"
      using barrier_run_mono [of "barrier_step ?g (t, ps)" es2] by (simp add: assms es)
    finally show ?thesis using sub by blast
  qed
  with None show ?thesis by auto
next
  case (Some v)
  have fin: "finite (rb_passingTests g)"
    unfolding assms by (induction es rule: rev_induct)
      (auto simp: NewRegressionBarrierGuard_def barrier_step_def UpdateAndCheck_def clean_names_def Let_def split: option.splits)
  from Some have "v = \<lparr>rv_PreviousTurn = rb_lastTurn g, rv_CurrentTurn = turn,
      rv_RegressedTests = sorted_list_of_set (rb_passingTests g - clean_names passing),
      rv_TotalBaseline = card (rb_passingTests g), rv_TotalCurrent = card (clean_names passing)\<rparr>"
    "rb_passingTests g - clean_names passing \<noteq> {}"
    by (auto simp: UpdateAndCheck_def barrier_violation_def Let_def split: option.splits if_splits)
  with Some fin show ?thesis by (simp add: sorted_list_of_set_eq_Nil_iff)
qed

theorem barrier_no_lost_test_witness:
  "snd (UpdateAndCheck (foldl barrier_step NewRegressionBarrierGuard [(1, ['' TestA ''])]) 2 [''TestB'']) \<noteq> None
   \<and> clean_names ['' TestA ''] \<subseteq> clean_names [''TestA'', ''TestB'']"
proof -
  let ?g = "foldl barrier_step NewRegressionBarrierGuard [(1, ['' TestA ''])]"
  have "snd (UpdateAndCheck ?g 2 [''TestA'', ''TestB'']) = None"
    "snd (UpdateAndCheck (foldl barrier_step NewRegressionBarrierGuard []) 1 ['' TestA '']) = None" by code_simp+
  note ok = this
  have "\<forall>es1 t ps es2. [(1, ['' TestA ''])] = es1 @ (t, ps) # es2
      \<longrightarrow> snd (UpdateAndCheck (foldl barrier_step NewRegressionBarrierGuard es1) t ps) = None
      \<longrightarrow> clean_names ps \<subseteq> clean_names [''TestA'', ''TestB'']"
    using barrier_no_lost_test [OF refl, where es = "[(1, ['' TestA ''])]" and turn = 2
      and passing = "[''TestA'', ''TestB'']"] unfolding ok by simp
  from this [rule_format, of "[]" 1 "['' TestA '']" "[]"] ok(2)
  have "clean_names ['' TestA ''] \<subseteq> clean_names [''TestA'', ''TestB'']" by simp
  moreover have "snd (UpdateAndCheck ?g 2 [''TestB'']) \<noteq> None" by code_simp
  ultimately show ?thesis by blast
qed

text \<open>Deleting a block of lines from a test file is rejected exactly if the block holds a test
  case that the guard counts.\<close>

theorem deleted_tests_rejected:
  "ValidateMonotonicity (int (CountTestsInContent f (a @ newline # b @ newline # c)))
      (int (CountTestsInContent f (a @ newline # c))) ctx \<noteq> None
   \<longleftrightarrow> (\<exists>line \<in> set (Split b newline). counts_line (ToLower (Ext f)) line)"
proof -
  have "CountTestsInContent f (a @ newline # b @ newline # c)
      = CountTestsInContent f (a @ newline # c) + CountTestsInContent f b"
    by (simp add: CountTests_append)
  then show ?thesis
    by (auto simp: ValidateMonotonicity_def CountTestsInContent_def filter_empty_conv)
qed

theorem deleted_tests_rejected_witness:
  "ValidateMonotonicity (int (CountTestsInContent ''a_test.go'' (''package a'' @ newline # ''func TestX(t *testing.T) {}'' @ newline # [])))
      (int (CountTestsInContent ''a_test.go'' (''package a'' @ newline # []))) [] \<noteq> None"
proof -
  have "Split ''func TestX(t *testing.T) {}'' newline = [''func TestX(t *testing.T) {}'']"
    "counts_line (ToLower (Ext ''a_test.go'')) ''func TestX(t *testing.T) {}''" by code_simp+
  then show ?thesis
    using deleted_tests_rejected [of "''a_test.go''" "''package a''" "''func TestX(t *testing.T) {}''" "[]" "[]"] by simp
qed

text \<open>A fingerprinter with the default threshold reports a loop exactly if an error with the same
  fingerprint was recorded before.\<close>

theorem loop_iff_seen_before:
  "fst (snd (RecordAndCheckLoop fp
      (foldl (\<lambda>f raw. fst (RecordAndCheckLoop fp f raw)) (NewErrorFingerprinter []) raws) raw))
   \<longleftrightarrow> fp raw \<in> fp ` set raws"
  by (rule loop_iff_count [OF fingerprinter.rel_run])

text \<open>Whatever chunks a command writes, the buffer holds exactly the last \<open>max\<close> bytes of its
  whole output, and it claims truncation only when output was dropped.\<close>

theorem buffer_holds_tail:
  "let b = foldl Write (NewBoundedBuffer m) ps; mx = (if m \<le> 0 then defaultBoundedBufferMax else nat m)
   in bb_buf b = drop (length (concat ps) - mx) (concat ps)
      \<and> (bb_truncated b \<longrightarrow> mx < length (concat ps))"
  using bounded_buffer.rel_run [of m ps] unfolding tail_rel_def last_n_def bb_max_new Let_def by blast

theorem buffer_holds_tail_witness:
  "bb_buf (foldl Write (NewBoundedBuffer 4) [''abc'', ''def'']) = ''cdef''
   \<and> bb_truncated (foldl Write (NewBoundedBuffer 4) [''abc'', ''def''])"
proof -
  have "bb_truncated (foldl Write (NewBoundedBuffer 4) [''abc'', ''def''])" by code_simp
  with buffer_holds_tail [of 4 "[''abc'', ''def'']"] show ?thesis by (simp add: Let_def)
qed

text \<open>A chunk of exactly the buffer's size replaces everything written before it without the
  truncation flag being set: output is lost and \<open>Truncated\<close> denies it.\<close>

theorem exact_chunk_hides_truncation:
  assumes "0 < m" "length q = nat m" "length p < nat m" "p \<noteq> []"
  shows "bb_buf (foldl Write (NewBoundedBuffer m) [p, q]) = q
    \<and> \<not> bb_truncated (foldl Write (NewBoundedBuffer m) [p, q])
    \<and> nat m < length (concat [p, q])"
  using assms by (simp add: Write_def NewBoundedBuffer_def Let_def)

theorem exact_chunk_hides_truncation_witness:
  "bb_buf (foldl Write (NewBoundedBuffer 2) [''a'', ''bc'']) = ''bc''
   \<and> \<not> bb_truncated (foldl Write (NewBoundedBuffer 2) [''a'', ''bc''])"
  using exact_chunk_hides_truncation [of 2 "''bc''" "''a''"] by simp

end
