(* ===== verification/Task_Normalizer.thy ===== *)
theory Task_Normalizer
  imports Story_Ids Domain
begin

text \<open>
  \<open>src/pkg/services/task_normalizer.go\<close>: the identifiers a planner proposes are rewritten so
  that they belong to the planned story and collide neither with each other nor with the tasks
  that exist already, and the dependencies are rewritten along. The loop that searches a free
  number has fuel: one try more than there are identifiers in use, which always suffices
  (\<open>disambiguate_total\<close>). Sequence numbers are Go's \<open>int\<close> and wrap around.
\<close>

section \<open>Formatting of numbers\<close>

text \<open>\<open>%03d\<close>: the width counts the sign.\<close>

definition fmt_03d :: "int \<Rightarrow> string" where
  "fmt_03d n =
     (if n < 0 then CHR ''-'' # (let d = dec (nat (- n)) in replicate (2 - length d) (CHR ''0'') @ d)
      else pad3 (dec (nat n)))"

definition task_id :: "string \<Rightarrow> int \<Rightarrow> string" where
  "task_id pre seq = pre @ ''-TASK-'' @ fmt_03d seq"

section \<open>Sequence numbers in proposed identifiers\<close>

definition trailing_digits :: "string \<Rightarrow> string" where
  "trailing_digits s = rev (takeWhile is_digit (rev s))"

text \<open>\<open>(?i)(?:TASK-?|T-?)(\d+)$\<close>: no character before the group is a digit, so the group is the
  whole run of digits at the end.\<close>

definition taskNumSuffixRE :: "string \<Rightarrow> string option" where
  "taskNumSuffixRE s =
     (let ds = trailing_digits s; pre = ToLower (take (length s - length ds) s)
      in if ds \<noteq> [] \<and> (HasSuffix pre ''task-'' \<or> HasSuffix pre ''task'' \<or> HasSuffix pre ''t-'' \<or> HasSuffix pre ''t'')
         then Some ds else None)"

definition digitsOnlyRE :: "string \<Rightarrow> string option" where
  "digitsOnlyRE s = (if s \<noteq> [] \<and> list_all is_digit s then Some s else None)"

definition desired_seq :: "nat \<Rightarrow> string \<Rightarrow> int" where
  "desired_seq i oldID =
     (let positive = (\<lambda>ds. if 0 < digits_val 0 ds \<and> digits_val 0 ds < 2 ^ 63 then digits_val 0 ds else int i + 1)
      in case taskNumSuffixRE oldID of
           Some ds \<Rightarrow> positive ds
         | None \<Rightarrow> (case digitsOnlyRE oldID of Some ds \<Rightarrow> positive ds | None \<Rightarrow> int i + 1))"

section \<open>The first pass: fresh identifiers\<close>

fun disambiguate :: "nat \<Rightarrow> string list \<Rightarrow> string \<Rightarrow> int \<Rightarrow> string \<Rightarrow> string option" where
  "disambiguate fuel taken pre seq cand =
     (if cand \<notin> set taken then Some cand
      else case fuel of
             0 \<Rightarrow> None
           | Suc f \<Rightarrow> (let seq' = wrap64 (seq + 1) in disambiguate f taken pre seq' (task_id pre seq')))"

declare disambiguate.simps [simp del]

definition candidate_id :: "string \<Rightarrow> string list \<Rightarrow> nat \<Rightarrow> string \<Rightarrow> string option" where
  "candidate_id canonical taken i oldID =
     (let seq = desired_seq i oldID;
          pre = (if canonical = [] then ''TASK'' else canonical);
          extractedStory = ExtractStoryID oldID;
          hasMismatchedStory = (extractedStory \<noteq> [] \<and> canonical \<noteq> [] \<and> extractedStory \<noteq> canonical);
          cand = (if hasMismatchedStory \<or> oldID = [] then task_id pre seq
                  else if oldID \<in> set taken then task_id pre seq
                  else oldID)
      in disambiguate (length taken + 1) taken pre seq cand)"

text \<open>\<open>taken\<close> holds the identifiers of \<open>usedInBatch\<close> and \<open>existingIDs\<close>.\<close>

fun assign_ids ::
  "string \<Rightarrow> string list \<Rightarrow> nat \<Rightarrow> (string \<rightharpoonup> string) \<Rightarrow> Task list \<Rightarrow> (Task list \<times> (string \<rightharpoonup> string)) option" where
  "assign_ids canonical taken i idMap [] = Some ([], idMap)"
| "assign_ids canonical taken i idMap (t # ts) =
     (let oldID = TrimSpace (task_ID t)
      in case candidate_id canonical taken i oldID of
           None \<Rightarrow> None
         | Some c \<Rightarrow>
             (case assign_ids canonical (c # taken) (i + 1)
                     (if oldID \<noteq> [] then idMap(oldID \<mapsto> c) else idMap) ts of
                None \<Rightarrow> None
              | Some (ts', m) \<Rightarrow>
                  Some (t\<lparr>task_ID := c,
                          task_StoryID := (if canonical \<noteq> [] then canonical else task_StoryID t)\<rparr> # ts', m)))"

section \<open>The second pass: dependencies\<close>

definition remap_dep :: "(string \<rightharpoonup> string) \<Rightarrow> string \<Rightarrow> string \<Rightarrow> string list" where
  "remap_dep idMap self dep =
     (case idMap (TrimSpace dep) of
        Some mapped \<Rightarrow> if mapped \<noteq> [] then (if mapped \<noteq> self then [mapped] else []) else [TrimSpace dep]
      | None \<Rightarrow> [TrimSpace dep])"

definition remap_task :: "(string \<rightharpoonup> string) \<Rightarrow> Task \<Rightarrow> Task" where
  "remap_task idMap t = t\<lparr>task_DependsOn := concat (map (remap_dep idMap (task_ID t)) (task_DependsOn t))\<rparr>"

definition NormalizeAndDeduplicateTasks :: "Task list \<Rightarrow> string \<Rightarrow> Task list \<Rightarrow> Task list option" where
  "NormalizeAndDeduplicateTasks tasks targetStoryID existingTasks =
     (if tasks = [] then Some tasks
      else let canonical = (if ExtractStoryID targetStoryID = [] then TrimSpace targetStoryID
                            else ExtractStoryID targetStoryID);
               existing = filter (\<lambda>x. x \<noteq> []) (map task_ID existingTasks)
           in case assign_ids canonical existing 0 Map.empty tasks of
                None \<Rightarrow> None
              | Some (ts, idMap) \<Rightarrow> Some (map (remap_task idMap) ts))"

section \<open>Facts on the numbering\<close>

lemma digit_char_val: "d < 10 \<Longrightarrow> digit_val (digit_char d) = int d"
  by (simp add: digit_val_def digit_char_def)

lemma digits_val_snoc: "digits_val a (s @ [c]) = digits_val a s * 10 + digit_val c"
  by (induction s arbitrary: a) auto

lemma digits_val_dec: "digits_val 0 (dec n) = int n"
proof (induction n rule: dec.induct)
  case (1 n)
  show ?case
  proof (cases "n < 10")
    case True
    then show ?thesis by (simp add: dec.simps [of n] digit_char_val)
  next
    case False
    with 1 have "digits_val 0 (dec (n div 10)) = int (n div 10)" by simp
    with False have "digits_val 0 (dec n) = int (n div 10) * 10 + int (n mod 10)"
      by (simp only: dec.simps [of n] digits_val_snoc if_False) (simp add: digit_char_val)
    also have "\<dots> = int (n div 10 * 10 + n mod 10)" by (simp only: of_nat_add of_nat_mult of_nat_numeral)
    finally show ?thesis by (simp only: div_mult_mod_eq)
  qed
qed

lemma dec_digits: "c \<in> set (dec n) \<Longrightarrow> is_digit c"
proof (induction n rule: dec.induct)
  case (1 n)
  have "d < 10 \<Longrightarrow> is_digit (digit_char d)" for d by (simp add: is_digit_def digit_char_def)
  with 1 show ?case by (subst (asm) (2) dec.simps) (auto split: if_splits)
qed

lemma fmt_03d_head: "n \<ge> 0 \<Longrightarrow> CHR ''-'' \<notin> set (fmt_03d n)"
proof -
  assume n: "n \<ge> 0"
  have "\<not> is_digit (CHR ''-'')" by code_simp
  then have "CHR ''-'' \<notin> set (dec (nat n))" using dec_digits by blast
  with n show ?thesis by (auto simp: fmt_03d_def pad3_def)
qed

lemma fmt_03d_inj: "fmt_03d m = fmt_03d n \<Longrightarrow> m = n"
proof -
  assume eq: "fmt_03d m = fmt_03d n"
  have sgn: "m < 0 \<longleftrightarrow> n < 0"
  proof -
    have "k < 0 \<longleftrightarrow> CHR ''-'' \<in> set (fmt_03d k)" for k
      using fmt_03d_head [of k] by (cases "k < 0") (auto simp: fmt_03d_def)
    with eq show ?thesis by simp
  qed
  have val: "digits_val 0 (if k < 0 then tl (fmt_03d k) else fmt_03d k) = \<bar>k\<bar>" for k
    by (simp add: fmt_03d_def Let_def pad3_def digits_val_pad0 digits_val_dec)
  have "\<bar>m\<bar> = \<bar>n\<bar>" using val [of m] val [of n] unfolding eq sgn by simp
  with sgn show "m = n" by linarith
qed

lemma task_id_inj: "task_id p m = task_id p n \<longleftrightarrow> m = n"
  by (auto simp: task_id_def dest: fmt_03d_inj)

lemma wrap64_inj_near:
  assumes "wrap64 (a + int j) = wrap64 (a + int k)" "j < 2 ^ 64" "k < 2 ^ 64"
  shows "j = k"
proof -
  have "(a + int j) mod 2 ^ 64 = (a + int k) mod 2 ^ 64"
    using assms(1) wrap64_mod [of "a + int j"] wrap64_mod [of "a + int k"] by simp
  then have "(2 ^ 64 :: int) dvd (int j - int k)"
    by (metis add_diff_cancel_left mod_eq_dvd_iff)
  moreover have "\<bar>int j - int k\<bar> < 2 ^ 64" using assms(2,3) by auto
  ultimately show ?thesis using dvd_imp_le_int [of "int j - int k" "2 ^ 64"] by auto
qed

lemma disambiguate_fresh: "disambiguate f taken p seq cand = Some c \<Longrightarrow> c \<notin> set taken"
  by (induction f taken p seq cand rule: disambiguate.induct)
    (subst (asm) (2) disambiguate.simps, auto simp: Let_def split: if_splits nat.splits)

lemma disambiguate_None:
  "disambiguate f taken p seq cand = None \<Longrightarrow> 1 \<le> k \<Longrightarrow> k \<le> f \<Longrightarrow> task_id p (wrap64 (seq + int k)) \<in> set taken"
proof (induction f arbitrary: seq cand k)
  case 0
  then show ?case by simp
next
  case (Suc f)
  let ?s = "wrap64 (seq + 1)"
  have n: "disambiguate f taken p ?s (task_id p ?s) = None"
    using Suc.prems(1) by (subst (asm) disambiguate.simps) (auto simp: Let_def split: if_splits)
  show ?case
  proof (cases "k = 1")
    case True
    have "task_id p ?s \<in> set taken" using n by (subst (asm) disambiguate.simps) (auto split: if_splits)
    with True show ?thesis by simp
  next
    case False
    with Suc.prems(2,3) have "task_id p (wrap64 (?s + int (k - 1))) \<in> set taken"
      by (intro Suc.IH [OF n]) auto
    with Suc.prems(2) show ?thesis by (simp add: of_nat_diff add.assoc)
  qed
qed

text \<open>Enough fuel: of \<open>length taken + 1\<close> consecutive numbers one is free.\<close>

lemma disambiguate_total:
  assumes "length taken + 1 < 2 ^ 64"
  shows "\<exists>c. disambiguate (length taken + 1) taken p seq cand = Some c"
proof (rule ccontr)
  assume "\<not> ?thesis"
  then have none: "disambiguate (length taken + 1) taken p seq cand = None" by auto
  let ?f = "\<lambda>k. task_id p (wrap64 (seq + int k))" and ?K = "{1..length taken + 1}"
  have "inj_on ?f ?K"
    using assms by (auto simp: inj_on_def task_id_inj intro: wrap64_inj_near [of seq])
  then have "card (?f ` ?K) = length taken + 1" by (simp add: card_image)
  moreover have "?f ` ?K \<subseteq> set taken" using disambiguate_None [OF none] by auto
  then have "card (?f ` ?K) \<le> card (set taken)" by (simp add: card_mono)
  ultimately show False using card_length [of taken] by linarith
qed

section \<open>Facts on the two passes\<close>

lemma candidate_id_fresh: "candidate_id canonical taken i oldID = Some c \<Longrightarrow> c \<notin> set taken"
  unfolding candidate_id_def Let_def by (erule disambiguate_fresh)

lemma candidate_id_total: "length taken + 1 < 2 ^ 64 \<Longrightarrow> \<exists>c. candidate_id canonical taken i oldID = Some c"
  unfolding candidate_id_def Let_def by (rule disambiguate_total)

lemma task_id_nonempty [simp]: "task_id p n \<noteq> []"
  by (simp add: task_id_def)

lemma disambiguate_nonempty: "disambiguate f taken p seq cand = Some c \<Longrightarrow> cand \<noteq> [] \<Longrightarrow> c \<noteq> []"
  by (induction f taken p seq cand rule: disambiguate.induct)
    (subst (asm) (2) disambiguate.simps, auto simp: Let_def split: if_splits nat.splits)

lemma candidate_id_nonempty: "candidate_id canonical taken i oldID = Some c \<Longrightarrow> c \<noteq> []"
  unfolding candidate_id_def Let_def by (erule disambiguate_nonempty) auto

lemma assign_ids_total:
  "length taken + length ts + 1 < 2 ^ 64 \<Longrightarrow> \<exists>r. assign_ids canonical taken i m ts = Some r"
proof (induction ts arbitrary: taken i m)
  case Nil
  then show ?case by simp
next
  case (Cons t ts)
  then have "length taken + 1 < 2 ^ 64" by simp
  from candidate_id_total [OF this, of canonical i "TrimSpace (task_ID t)"]
  obtain c where c: "candidate_id canonical taken i (TrimSpace (task_ID t)) = Some c" by blast
  have "length (c # taken) + length ts + 1 < 2 ^ 64" using Cons.prems by simp
  from Cons.IH [OF this] show ?case
    by (auto simp: c Let_def split: option.splits prod.splits) (metis option.distinct(1) surj_pair)+
qed

lemma assign_ids_ConsE:
  assumes "assign_ids canonical taken i m (t # ts) = Some (rs, m')"
  obtains c rs' where "candidate_id canonical taken i (TrimSpace (task_ID t)) = Some c"
    and "assign_ids canonical (c # taken) (i + 1)
      (if TrimSpace (task_ID t) \<noteq> [] then m(TrimSpace (task_ID t) \<mapsto> c) else m) ts = Some (rs', m')"
    and "rs = t\<lparr>task_ID := c, task_StoryID := (if canonical \<noteq> [] then canonical else task_StoryID t)\<rparr> # rs'"
  using assms by (auto simp: Let_def split: option.splits)

lemma assign_ids_fresh:
  "assign_ids canonical taken i m ts = Some (rs, m') \<Longrightarrow>
     distinct (map task_ID rs) \<and> set (map task_ID rs) \<inter> set taken = {} \<and> length rs = length ts
     \<and> [] \<notin> set (map task_ID rs) \<and> map task_DependsOn rs = map task_DependsOn ts
     \<and> (canonical \<noteq> [] \<longrightarrow> (\<forall>r \<in> set rs. task_StoryID r = canonical))"
proof (induction ts arbitrary: taken i m rs)
  case Nil
  then show ?case by simp
next
  case (Cons t ts)
  from Cons.prems show ?case
  proof (rule assign_ids_ConsE)
    fix c rs'
    assume c: "candidate_id canonical taken i (TrimSpace (task_ID t)) = Some c"
      and r: "assign_ids canonical (c # taken) (i + 1)
        (if TrimSpace (task_ID t) \<noteq> [] then m(TrimSpace (task_ID t) \<mapsto> c) else m) ts = Some (rs', m')"
      and rs: "rs = t\<lparr>task_ID := c, task_StoryID := (if canonical \<noteq> [] then canonical else task_StoryID t)\<rparr> # rs'"
    from Cons.IH [OF r] candidate_id_fresh [OF c] candidate_id_nonempty [OF c] rs show ?thesis by auto
  qed
qed

text \<open>With distinct proposed identifiers the map takes each to its task's new identifier.\<close>

lemma assign_ids_map:
  "assign_ids canonical taken i m ts = Some (rs, m') \<Longrightarrow> distinct (map (\<lambda>t. TrimSpace (task_ID t)) ts)
   \<Longrightarrow> (\<forall>x. x \<notin> set (map (\<lambda>t. TrimSpace (task_ID t)) ts) \<longrightarrow> m' x = m x)
     \<and> (\<forall>j < length ts. TrimSpace (task_ID (ts ! j)) \<noteq> [] \<longrightarrow> m' (TrimSpace (task_ID (ts ! j))) = Some (task_ID (rs ! j)))"
proof (induction ts arbitrary: taken i m rs)
  case Nil
  then show ?case by simp
next
  case (Cons t ts)
  from Cons.prems(1) show ?case
  proof (rule assign_ids_ConsE)
    fix c rs'
    let ?o = "TrimSpace (task_ID t)"
    assume r: "assign_ids canonical (c # taken) (i + 1) (if ?o \<noteq> [] then m(?o \<mapsto> c) else m) ts = Some (rs', m')"
      and rs: "rs = t\<lparr>task_ID := c, task_StoryID := (if canonical \<noteq> [] then canonical else task_StoryID t)\<rparr> # rs'"
    from Cons.prems(2) have d: "distinct (map (\<lambda>t. TrimSpace (task_ID t)) ts)" "?o \<notin> set (map (\<lambda>t. TrimSpace (task_ID t)) ts)"
      by auto
    note IH = Cons.IH [OF r d(1)]
    have other: "m' x = m x" if "x \<notin> set (map (\<lambda>t. TrimSpace (task_ID t)) (t # ts))" for x
      using IH that by (auto split: if_splits)
    have own: "m' ?o = Some c" if "?o \<noteq> []" using IH d(2) that by auto
    have "m' (TrimSpace (task_ID ((t # ts) ! j))) = Some (task_ID (rs ! j))"
      if "j < length (t # ts)" "TrimSpace (task_ID ((t # ts) ! j)) \<noteq> []" for j
      using that own IH rs by (cases j) auto
    with other show ?thesis by blast
  qed
qed

section \<open>Properties\<close>

text \<open>Normalisation always returns, and the plan it returns has one task per proposed task, whose
  identifiers are non-empty, pairwise different and different from every existing identifier, and
  which all belong to the target story.\<close>

theorem normalized_ids_unique:
  assumes "length tasks + length existing + 1 < 2 ^ 64"
  shows "\<exists>ts. NormalizeAndDeduplicateTasks tasks target existing = Some ts \<and> length ts = length tasks
    \<and> (tasks \<noteq> [] \<longrightarrow> distinct (map task_ID ts) \<and> [] \<notin> set (map task_ID ts)
        \<and> set (map task_ID ts) \<inter> set (map task_ID existing) = {}
        \<and> (ExtractStoryID target \<noteq> [] \<longrightarrow> (\<forall>t \<in> set ts. task_StoryID t = ExtractStoryID target)))"
proof (cases "tasks = []")
  case True
  then show ?thesis by (simp add: NormalizeAndDeduplicateTasks_def)
next
  case False
  let ?c = "if ExtractStoryID target = [] then TrimSpace target else ExtractStoryID target"
  let ?e = "filter (\<lambda>x. x \<noteq> []) (map task_ID existing)"
  have "length ?e \<le> length existing" by (metis length_filter_le length_map)
  with assms have "length ?e + length tasks + 1 < 2 ^ 64" by linarith
  from assign_ids_total [OF this] obtain rs m where r: "assign_ids ?c ?e 0 Map.empty tasks = Some (rs, m)" by fastforce
  have res: "NormalizeAndDeduplicateTasks tasks target existing = Some (map (remap_task m) rs)"
    using False r by (simp add: NormalizeAndDeduplicateTasks_def Let_def)
  have ids: "map task_ID (map (remap_task m) rs) = map task_ID rs"
    "map task_StoryID (map (remap_task m) rs) = map task_StoryID rs" by (simp_all add: remap_task_def)
  note fresh = assign_ids_fresh [OF r]
  have "set (map task_ID rs) \<inter> set ?e = {}" "[] \<notin> set (map task_ID rs)" using fresh by blast+
  then have "set (map task_ID rs) \<inter> set (map task_ID existing) = {}" unfolding disjoint_iff set_filter by blast
  moreover have "\<forall>t \<in> set (map (remap_task m) rs). task_StoryID t = ExtractStoryID target"
    if "ExtractStoryID target \<noteq> []" using fresh that by (auto simp: remap_task_def)
  ultimately show ?thesis
    using fresh unfolding res by (intro exI [of _ "map (remap_task m) rs"]) (simp only: ids simp_thms length_map, blast)
qed

text \<open>Dependencies follow the renaming: when the proposed identifiers are distinct, a dependency
  of one proposed task on another becomes a dependency on that task's new identifier.\<close>

theorem normalized_deps_follow:
  assumes "NormalizeAndDeduplicateTasks tasks target existing = Some ts"
    and "distinct (map (\<lambda>t. TrimSpace (task_ID t)) tasks)"
    and "i < length tasks" "j < length tasks" "i \<noteq> j"
    and "dep \<in> set (task_DependsOn (tasks ! i))" "TrimSpace dep = TrimSpace (task_ID (tasks ! j))"
    and "TrimSpace dep \<noteq> []"
  shows "task_ID (ts ! j) \<in> set (task_DependsOn (ts ! i))"
proof -
  let ?c = "if ExtractStoryID target = [] then TrimSpace target else ExtractStoryID target"
  let ?e = "filter (\<lambda>x. x \<noteq> []) (map task_ID existing)"
  from assms(1,3) obtain rs m where r: "assign_ids ?c ?e 0 Map.empty tasks = Some (rs, m)"
    and ts: "ts = map (remap_task m) rs"
    by (auto simp: NormalizeAndDeduplicateTasks_def Let_def split: if_splits option.splits)
  note fresh = assign_ids_fresh [OF r]
  have len: "length rs = length tasks" using fresh by blast
  have m: "m (TrimSpace dep) = Some (task_ID (rs ! j))"
    using assign_ids_map [OF r assms(2)] assms(4,7,8) by auto
  have dep: "dep \<in> set (task_DependsOn (rs ! i))"
    using fresh assms(3,6) len by (metis nth_map)
  have "task_ID (rs ! j) \<noteq> task_ID (rs ! i)"
    using fresh assms(3-5) len by (metis distinct_conv_nth length_map nth_map)
  moreover have "task_ID (rs ! j) \<noteq> []" using fresh assms(4) len by (metis length_map nth_map nth_mem)
  ultimately have "task_ID (rs ! j) \<in> set (remap_dep m (task_ID (rs ! i)) dep)" by (simp add: remap_dep_def m)
  with dep have "task_ID (rs ! j) \<in> set (task_DependsOn (remap_task m (rs ! i)))" by (auto simp: remap_task_def)
  with ts len assms(3,4) show ?thesis by (simp add: remap_task_def)
qed

definition sample_proposed :: "Task list" where
  "sample_proposed = [mk_task ''US-002-TASK-1'' ''core'' TaskPending,
     (mk_task ''TASK-1'' ''api'' TaskPending)\<lparr>task_DependsOn := [''US-002-TASK-1'']\<rparr>]"

theorem normalized_ids_unique_witness:
  "\<exists>ts. NormalizeAndDeduplicateTasks sample_proposed ''us-1.md'' [mk_task ''TASK-1'' ''old'' TaskSuccess] = Some ts
     \<and> distinct (map task_ID ts)"
proof -
  have "length sample_proposed + length [mk_task ''TASK-1'' ''old'' TaskSuccess] + 1 < 2 ^ 64" "sample_proposed \<noteq> []"
    by (simp_all add: sample_proposed_def)
  with normalized_ids_unique [OF this(1), of "''us-1.md''"] show ?thesis by blast
qed

theorem normalized_deps_follow_witness:
  "\<exists>ts. NormalizeAndDeduplicateTasks sample_proposed ''us-1.md'' [] = Some ts
     \<and> map task_ID ts = [''US-001-TASK-001'', ''TASK-1'']
     \<and> task_ID (ts ! 0) \<in> set (task_DependsOn (ts ! 1))"
proof -
  have "map_option (map task_ID) (NormalizeAndDeduplicateTasks sample_proposed ''us-1.md'' [])
      = Some [''US-001-TASK-001'', ''TASK-1'']" by code_simp
  then obtain ts where ts: "NormalizeAndDeduplicateTasks sample_proposed ''us-1.md'' [] = Some ts"
    "map task_ID ts = [''US-001-TASK-001'', ''TASK-1'']" by auto
  have d: "distinct (map (\<lambda>t. TrimSpace (task_ID t)) sample_proposed)" by code_simp
  have e: "''US-002-TASK-1'' \<in> set (task_DependsOn (sample_proposed ! 1))"
    "TrimSpace ''US-002-TASK-1'' = TrimSpace (task_ID (sample_proposed ! 0))" "TrimSpace ''US-002-TASK-1'' \<noteq> []"
    "1 < length sample_proposed" "0 < length sample_proposed" by code_simp+
  from normalized_deps_follow [OF ts(1) d e(4,5) _ e(1-3)] ts show ?thesis by simp
qed

end
