(* ===== verification/Task_Planning.thy ===== *)
theory Task_Planning
  imports Task_Dag Story_Ids
begin

text \<open>
  Validation of a planned task list: \<open>src/pkg/services/task_dependencies.go\<close> (cleaning,
  dependency resolution, serialisation of tasks that share a root build file),
  \<open>task_cohesion.go\<close> (granularity rules) and \<open>AutoLinkSymbolDependencies\<close> of
  \<open>worktree_symbol_sync.go\<close>. The file system is a parameter: \<open>isFile\<close> says whether a path is
  an existing regular file, \<open>glob\<close> returns the matches of a pattern. The number of commands that a
  text enumerates (four regular expressions over a word list) is the parameter \<open>cmds\<close>; the order
  in which Go iterates over the map of entities is the parameter \<open>order\<close>.
\<close>

section \<open>Cleaning of a planned task\<close>

definition isBlacklistedPlannedFile :: "string \<Rightarrow> bool" where
  "isBlacklistedPlannedFile path =
     (let clean = ToLower (Clean path)
      in list_ex (\<lambda>p. p \<in> {''.git'', ''.noctifab'', ''node_modules'', ''__pycache__'', ''.venv'',
              ''target'', ''vendor''}) (Split clean slash)
         \<or> Ext clean \<in> {''.o'', ''.a'', ''.so'', ''.dylib'', ''.exe'', ''.pyc''})"

definition clean_target_files :: "string list \<Rightarrow> string list" where
  "clean_target_files files =
     (let kept = dedup_acc [] (filter (\<lambda>c. c \<noteq> [] \<and> \<not> isBlacklistedPlannedFile c) (map TrimSpace files))
      in if kept = [] then [''.gitignore''] else kept)"

definition clean_deps :: "Task \<Rightarrow> string list" where
  "clean_deps task = dedup_acc []
     (filter (\<lambda>d. d \<noteq> [] \<and> d \<noteq> task_ID task \<and> \<not> (task_Title task \<noteq> [] \<and> d = task_Title task))
       (map TrimSpace (task_DependsOn task)))"

definition has_details :: "Task \<Rightarrow> bool" where
  "has_details task \<longleftrightarrow> TrimSpace (task_Title task) \<noteq> [] \<and> length (TrimSpace (task_Description task)) \<ge> 15"

definition clean_planned_task :: "Task \<Rightarrow> Task" where
  "clean_planned_task task =
     task\<lparr>task_TargetFiles := clean_target_files (task_TargetFiles task), task_DependsOn := clean_deps task\<rparr>"

section \<open>Links by symbol\<close>

definition entity_name :: "string \<Rightarrow> string" where
  "entity_name f = TrimSuffix (Base f) (Ext (Base f))"

definition note_file :: "string \<Rightarrow> (string \<rightharpoonup> string) \<Rightarrow> string \<Rightarrow> (string \<rightharpoonup> string)" where
  "note_file taskID m f = (if length (entity_name f) \<ge> 3 then m(ToLower (entity_name f) \<mapsto> taskID) else m)"

definition entityProducer :: "Task list \<Rightarrow> (string \<rightharpoonup> string)" where
  "entityProducer tasks = foldl (\<lambda>m t. foldl (note_file (task_ID t)) m (task_TargetFiles t)) Map.empty tasks"

definition link_entity :: "(string \<rightharpoonup> string) \<Rightarrow> string \<Rightarrow> Task \<Rightarrow> string \<Rightarrow> Task" where
  "link_entity producers descLower task entity =
     (case producers entity of
        None \<Rightarrow> task
      | Some producerID \<Rightarrow>
          if producerID = task_ID task then task
          else if Contains descLower entity \<and> producerID \<notin> set (task_DependsOn task)
          then task\<lparr>task_DependsOn := task_DependsOn task @ [producerID]\<rparr>
          else task)"

definition AutoLinkSymbolDependencies :: "string list \<Rightarrow> Task list \<Rightarrow> Task list" where
  "AutoLinkSymbolDependencies order tasks =
     map (\<lambda>t. foldl (link_entity (entityProducer tasks) (ToLower (task_Title t @ '' '' @ task_Description t))) t order) tasks"

section \<open>Resolution of dependencies\<close>

definition path_Join :: "string list \<Rightarrow> string" where
  "path_Join elems =
     (let nonempty = filter (\<lambda>e. e \<noteq> []) elems
      in if nonempty = [] then [] else Clean (Join nonempty [slash]))"

definition storyExists :: "(string \<Rightarrow> bool) \<Rightarrow> (string \<Rightarrow> string list) \<Rightarrow> string \<Rightarrow> string \<Rightarrow> bool" where
  "storyExists isFile glob projectPath dep =
     (let clean = TrimSpace dep;
          candidates = [clean, clean @ ''.md'', path_Join [''roadmap'', ''user-stories'', clean],
            path_Join [''roadmap'', ''user-stories'', clean @ ''.md'']];
          absPath = (\<lambda>cand. if HasPrefix cand ''/'' then cand else path_Join [projectPath, cand]);
          base = TrimSuffix (Base clean) ''.md''
      in list_ex (\<lambda>cand. isFile (absPath cand)) candidates
         \<or> glob (path_Join [projectPath, ''roadmap'', ''user-stories'', base @ ''*.md'']) \<noteq> [])"

definition known_names :: "Task list \<Rightarrow> string set" where
  "known_names tasks = set (filter (\<lambda>x. x \<noteq> []) (map task_ID tasks @ map task_Title tasks))"

text \<open>The task files of an existing story rule out a reference to a task that none of them names.\<close>

definition listed_task :: "(string \<Rightarrow> string list) \<Rightarrow> string \<Rightarrow> string \<Rightarrow> string \<Rightarrow> bool" where
  "listed_task glob projectPath storyID depClean =
     (let files = glob (path_Join [projectPath, ''roadmap'', ''tasks'', ''*'' @ storyID @ ''*.md''])
      in files = [] \<or> list_ex (\<lambda>f. Contains (ToUpper (Base f)) (ToUpper depClean)) files)"

definition keep_dep :: "(string \<Rightarrow> bool) \<Rightarrow> (string \<Rightarrow> string list) \<Rightarrow> string \<Rightarrow> string set \<Rightarrow> string \<Rightarrow> bool" where
  "keep_dep isFile glob projectPath known depClean =
     (if depClean = [] then False
      else if depClean \<in> known then True
      else if isTaskReference depClean \<and> ExtractStoryID depClean \<noteq> []
              \<and> storyExists isFile glob projectPath (ExtractStoryID depClean)
      then listed_task glob projectPath (ExtractStoryID depClean) depClean
      else False)"

definition resolve_task_deps ::
  "(string \<Rightarrow> bool) \<Rightarrow> (string \<Rightarrow> string list) \<Rightarrow> string \<Rightarrow> string set \<Rightarrow> Task \<Rightarrow> Task" where
  "resolve_task_deps isFile glob projectPath known task =
     task\<lparr>task_DependsOn := filter (keep_dep isFile glob projectPath known) (map TrimSpace (task_DependsOn task))\<rparr>"

section \<open>Serialisation on shared build files\<close>

definition sharedRootBuildFiles :: "string list" where
  "sharedRootBuildFiles =
     [''makefile'', ''gnumakefile'', ''cmakelists.txt'', ''pyproject.toml'', ''setup.py'', ''setup.cfg'',
      ''package.json'', ''package-lock.json'', ''yarn.lock'', ''pnpm-lock.yaml'', ''cargo.toml'',
      ''cargo.lock'', ''go.mod'', ''go.sum'', ''pom.xml'', ''build.gradle'', ''build.gradle.kts'']"

definition IsSharedRootBuildFile :: "string \<Rightarrow> bool" where
  "IsSharedRootBuildFile path =
     (let clean = ToLower (Clean (TrimSpace path))
      in if Contains clean ''/'' \<or> Contains clean [CHR 0x5C] then
           (if Dir clean \<noteq> ''.'' \<and> Dir clean \<noteq> [] then False
            else Base clean \<in> set sharedRootBuildFiles)
         else clean \<in> set sharedRootBuildFiles)"

definition clean_file :: "string \<Rightarrow> string" where
  "clean_file tf = ToLower (Clean (TrimSpace tf))"

fun serialize_files ::
  "string \<Rightarrow> string list \<Rightarrow> (string \<rightharpoonup> string) \<Rightarrow> string list \<Rightarrow> string list \<times> (string \<rightharpoonup> string)" where
  "serialize_files self deps lastTask [] = (deps, lastTask)"
| "serialize_files self deps lastTask (tf # tfs) =
     (let c = clean_file tf
      in if \<not> IsSharedRootBuildFile c then serialize_files self deps lastTask tfs
         else serialize_files self
                (case lastTask c of
                   Some prev \<Rightarrow> if prev \<noteq> self \<and> prev \<notin> set deps then deps @ [prev] else deps
                 | None \<Rightarrow> deps)
                (lastTask(c \<mapsto> self)) tfs)"

fun serialize_tasks :: "(string \<rightharpoonup> string) \<Rightarrow> Task list \<Rightarrow> Task list" where
  "serialize_tasks lastTask [] = []"
| "serialize_tasks lastTask (t # ts) =
     (let (deps, lastTask') = serialize_files (task_ID t) (task_DependsOn t) lastTask (task_TargetFiles t)
      in t\<lparr>task_DependsOn := deps\<rparr> # serialize_tasks lastTask' ts)"

definition ResolveTaskDependencies ::
  "(string \<Rightarrow> bool) \<Rightarrow> (string \<Rightarrow> string list) \<Rightarrow> Task list \<Rightarrow> string \<Rightarrow> Task list" where
  "ResolveTaskDependencies isFile glob tasks projectPath =
     (if tasks = [] then tasks
      else serialize_tasks Map.empty
             (map (resolve_task_deps isFile glob projectPath (known_names tasks)) tasks))"

section \<open>Granularity\<close>

definition isInterfaceFilename :: "string \<Rightarrow> bool" where
  "isInterfaceFilename base \<longleftrightarrow> HasSuffix base ''_interface.go'' \<or> HasSuffix base ''_interfaces.go''
     \<or> base = ''interface.go'' \<or> base = ''interfaces.go'' \<or> HasSuffix base ''_stub.go''"

definition isInterfaceOnlyTask :: "Task \<Rightarrow> bool" where
  "isInterfaceOnlyTask task =
     (if task_TargetFiles task = [] then False
      else list_all (\<lambda>file. isInterfaceFilename (ToLower (Base file))) (task_TargetFiles task))"

definition isMicroTaskViolation :: "Task \<Rightarrow> bool" where
  "isMicroTaskViolation task =
     (let titleLower = ToLower (task_Title task)
      in (HasPrefix titleLower ''define struct'' \<or> HasPrefix titleLower ''create struct''
          \<or> HasPrefix titleLower ''define typedef'' \<or> HasPrefix titleLower ''create type definition''
          \<or> HasPrefix titleLower ''define interface'')
         \<and> length (task_Description task) < 100 \<and> length (task_TargetFiles task) \<le> 1)"

definition isSkeletonOrScaffoldTask :: "Task \<Rightarrow> bool" where
  "isSkeletonOrScaffoldTask task \<longleftrightarrow>
     HasPrefix (ToLower (task_ID task)) ''us-001'' \<or> HasPrefix (ToLower (task_StoryID task)) ''us-001''
     \<or> Contains (ToLower (task_Title task)) ''skeleton'' \<or> Contains (ToLower (task_Title task)) ''scaffold''
     \<or> Contains (ToLower (task_Title task)) ''walking skeleton''"

definition isCohesionTestFile :: "string \<Rightarrow> bool" where
  "isCohesionTestFile base =
     (let lower = ToLower base
      in HasPrefix lower ''test_'' \<or> HasPrefix lower ''test''
         \<or> list_ex (HasSuffix lower) [''_test.go'', ''_test.py'', ''_test.rs'', ''_test.ts'', ''_test.js'',
              ''_test.c'', ''_test.h'', ''_tests.erl'', ''_test.erl'', ''_spec.rb'', ''.spec.ts'', ''.spec.js'',
              ''test.java'', ''tests.java'', ''it.java'', ''test.cs'', ''tests.cs'', ''_test.ml''])"

definition isCohesionDocOrConfig :: "string \<Rightarrow> bool" where
  "isCohesionDocOrConfig base =
     (let lower = ToLower base
      in lower \<in> {''makefile'', ''gnumakefile'', ''pyproject.toml'', ''package.json'', ''cargo.toml'',
           ''cargo.lock'', ''go.mod'', ''go.sum'', ''.gitignore'', ''readme.md'', ''pom.xml'', ''build.gradle'',
           ''build.gradle.kts'', ''settings.gradle'', ''settings.gradle.kts'', ''gradlew'', ''gradlew.bat'',
           ''rebar.config'', ''rebar.lock'', ''dune'', ''dune-project'', ''dune-workspace'', ''gemfile'',
           ''gemfile.lock'', ''cmakelists.txt'', ''meson.build'', ''tsconfig.json'', ''vite.config.ts'',
           ''vite.config.js'', ''global.json'', ''nuget.config''}
         \<or> list_ex (HasSuffix lower) [''.csproj'', ''.fsproj'', ''.sln'', ''.gemspec'', ''.md''])"

definition isMegaTaskViolation :: "(string \<Rightarrow> nat) \<Rightarrow> Task \<Rightarrow> bool" where
  "isMegaTaskViolation cmds task =
     (let nonTestCount = length (filter (\<lambda>f. let base = Base (ToLower f)
                in \<not> (isCohesionTestFile base \<or> isCohesionDocOrConfig base)) (task_TargetFiles task));
          limit = (if isSkeletonOrScaffoldTask task then 10 else 6)
      in if nonTestCount > limit then True
         else cmds (task_Title task @ '' '' @ task_Description task) > 8)"

datatype plan_error = NoTasks | MissingDetails string | DagError dag_error
  | InterfaceOnly string | MicroTask string | MegaTask string

fun ValidateTaskCohesion :: "(string \<Rightarrow> nat) \<Rightarrow> Task list \<Rightarrow> plan_error option" where
  "ValidateTaskCohesion cmds [] = None"
| "ValidateTaskCohesion cmds (t # ts) =
     (if isInterfaceOnlyTask t then Some (InterfaceOnly (task_ID t))
      else if isMicroTaskViolation t then Some (MicroTask (task_ID t))
      else if isMegaTaskViolation cmds t then Some (MegaTask (task_ID t))
      else ValidateTaskCohesion cmds ts)"

section \<open>Validation of a plan\<close>

text \<open>The function updates the slice in place; the model returns the updated tasks.\<close>

definition ValidatePlannedTasks ::
  "(string \<Rightarrow> bool) \<Rightarrow> (string \<Rightarrow> string list) \<Rightarrow> (string \<Rightarrow> nat) \<Rightarrow> string list \<Rightarrow> Task list \<Rightarrow> string
     \<Rightarrow> plan_error + Task list" where
  "ValidatePlannedTasks isFile glob cmds order tasks path =
     (if tasks = [] then Inl NoTasks
      else case find (\<lambda>t. \<not> has_details t) tasks of
        Some t \<Rightarrow> Inl (MissingDetails (task_ID t))
      | None \<Rightarrow>
          (let linked = AutoLinkSymbolDependencies order (map clean_planned_task tasks);
               resolved = ResolveTaskDependencies isFile glob linked (if path = [] then ''.'' else path)
           in case ResolveAndSortTasks resolved of
                Inl e \<Rightarrow> Inl (DagError e)
              | Inr _ \<Rightarrow> (case ValidateTaskCohesion cmds resolved of Some e \<Rightarrow> Inl e | None \<Rightarrow> Inr resolved)))"

section \<open>Facts on serialisation\<close>

definition uses_file :: "string \<Rightarrow> Task \<Rightarrow> bool" where
  "uses_file c t \<longleftrightarrow> c \<in> clean_file ` set (task_TargetFiles t)"

lemma serialize_files_deps:
  "set deps \<subseteq> set (fst (serialize_files self deps m tfs))
   \<and> set (fst (serialize_files self deps m tfs)) \<subseteq> set deps \<union> (ran m - {self})"
proof (induction tfs arbitrary: deps m)
  case Nil
  then show ?case by simp
next
  case (Cons tf tfs)
  let ?c = "clean_file tf"
  show ?case
  proof (cases "IsSharedRootBuildFile ?c")
    case False
    with Cons show ?thesis by (simp add: Let_def)
  next
    case True
    define d where "d = (case m ?c of Some prev \<Rightarrow> if prev \<noteq> self \<and> prev \<notin> set deps then deps @ [prev] else deps | None \<Rightarrow> deps)"
    have d: "set deps \<subseteq> set d" "set d \<subseteq> set deps \<union> (ran m - {self})"
      by (auto simp: d_def ran_def split: option.splits)
    have r: "ran (m(?c \<mapsto> self)) - {self} \<subseteq> ran m - {self}" by (auto simp: ran_def)
    have "fst (serialize_files self deps m (tf # tfs)) = fst (serialize_files self d (m(?c \<mapsto> self)) tfs)"
      using True by (simp add: Let_def d_def)
    then have e: "set (fst (serialize_files self deps m (tf # tfs))) = set (fst (serialize_files self d (m(?c \<mapsto> self)) tfs))"
      by (rule arg_cong)
    note IH = Cons [of d "m(?c \<mapsto> self)"]
    have "set deps \<subseteq> set (fst (serialize_files self d (m(?c \<mapsto> self)) tfs))" using IH d(1) by (meson order_trans)
    moreover have "set (fst (serialize_files self d (m(?c \<mapsto> self)) tfs)) \<subseteq> set deps \<union> (ran m - {self})"
      using IH d(2) r by (meson Un_least order_trans sup_ge2)
    ultimately show ?thesis unfolding e by (rule conjI)
  qed
qed

lemma serialize_files_links:
  "IsSharedRootBuildFile c \<Longrightarrow> c \<in> clean_file ` set tfs \<Longrightarrow> m c = Some prev \<Longrightarrow> prev \<noteq> self
   \<Longrightarrow> prev \<in> set (fst (serialize_files self deps m tfs))"
proof (induction tfs arbitrary: deps m)
  case Nil
  then show ?case by simp
next
  case (Cons tf tfs)
  show ?case
  proof (cases "clean_file tf = c")
    case True
    let ?d = "if prev \<notin> set deps then deps @ [prev] else deps"
    have "prev \<in> set ?d" by simp
    moreover have "serialize_files self deps m (tf # tfs) = serialize_files self ?d (m(c \<mapsto> self)) tfs"
      using True Cons.prems by (simp add: Let_def)
    moreover have "set ?d \<subseteq> set (fst (serialize_files self ?d (m(c \<mapsto> self)) tfs))"
      using serialize_files_deps by blast
    ultimately show ?thesis by auto
  next
    case False
    with Cons.prems(2) have "c \<in> clean_file ` set tfs" by auto
    with Cons.IH [OF Cons.prems(1) this] Cons.prems(3,4) False show ?thesis by (simp add: Let_def)
  qed
qed

lemma serialize_files_last:
  "snd (serialize_files self deps m tfs) c
     = (if IsSharedRootBuildFile c \<and> c \<in> clean_file ` set tfs then Some self else m c)"
  by (induction tfs arbitrary: deps m) (auto simp: Let_def)

lemma serialize_tasks_shape:
  "length (serialize_tasks m ts) = length ts \<and> map task_ID (serialize_tasks m ts) = map task_ID ts
   \<and> map task_Title (serialize_tasks m ts) = map task_Title ts
   \<and> map task_TargetFiles (serialize_tasks m ts) = map task_TargetFiles ts"
  by (induction m ts rule: serialize_tasks.induct) (auto simp: Let_def split: prod.splits)

lemma serialize_tasks_nth:
  "j < length ts \<Longrightarrow> \<exists>m'. serialize_tasks m ts ! j =
     (ts ! j)\<lparr>task_DependsOn := fst (serialize_files (task_ID (ts ! j)) (task_DependsOn (ts ! j)) m' (task_TargetFiles (ts ! j)))\<rparr>
   \<and> ran m' \<subseteq> ran m \<union> task_ID ` set ts"
proof (induction ts arbitrary: m j)
  case Nil
  then show ?case by simp
next
  case (Cons t ts)
  obtain d m1 where sf: "serialize_files (task_ID t) (task_DependsOn t) m (task_TargetFiles t) = (d, m1)" by fastforce
  show ?case
  proof (cases j)
    case 0
    with sf show ?thesis by (intro exI [of _ m]) (auto simp: Let_def)
  next
    case (Suc i)
    have "m1 x = Some y \<Longrightarrow> y = task_ID t \<or> m x = Some y" for x y
      using serialize_files_last [of "task_ID t" "task_DependsOn t" m "task_TargetFiles t" x] sf by (auto split: if_splits)
    then have "ran m1 \<subseteq> ran m \<union> {task_ID t}" by (fastforce simp: ran_def)
    with Cons.IH [of i m1] Cons.prems Suc sf show ?thesis by (fastforce simp: Let_def)
  qed
qed

lemma serialize_tasks_first_use:
  "IsSharedRootBuildFile c \<Longrightarrow> m c = Some p \<Longrightarrow> j < length ts \<Longrightarrow> uses_file c (ts ! j)
   \<Longrightarrow> (\<forall>l < j. \<not> uses_file c (ts ! l)) \<Longrightarrow> p \<noteq> task_ID (ts ! j)
   \<Longrightarrow> p \<in> set (task_DependsOn (serialize_tasks m ts ! j))"
proof (induction ts arbitrary: m j)
  case Nil
  then show ?case by simp
next
  case (Cons t ts)
  obtain d m1 where sf: "serialize_files (task_ID t) (task_DependsOn t) m (task_TargetFiles t) = (d, m1)" by fastforce
  show ?case
  proof (cases j)
    case 0
    with Cons.prems have "p \<in> set (fst (serialize_files (task_ID t) (task_DependsOn t) m (task_TargetFiles t)))"
      by (intro serialize_files_links [of c]) (auto simp: uses_file_def)
    with 0 sf show ?thesis by simp
  next
    case (Suc i)
    have "\<not> uses_file c t" using Cons.prems(5) Suc by (metis nth_Cons_0 zero_less_Suc)
    then have m1: "m1 c = Some p"
      using serialize_files_last [of "task_ID t" "task_DependsOn t" m "task_TargetFiles t" c] sf Cons.prems(2)
      by (auto simp: uses_file_def split: if_splits)
    have "\<forall>l < i. \<not> uses_file c (ts ! l)" using Cons.prems(5) Suc by (metis Suc_mono nth_Cons_Suc)
    with Cons.IH [where m = m1 and j = i] m1 Cons.prems Suc sf show ?thesis by simp
  qed
qed

lemma serialize_tasks_next_use:
  "IsSharedRootBuildFile c \<Longrightarrow> k < j \<Longrightarrow> j < length ts \<Longrightarrow> uses_file c (ts ! k) \<Longrightarrow> uses_file c (ts ! j)
   \<Longrightarrow> (\<forall>l. k < l \<and> l < j \<longrightarrow> \<not> uses_file c (ts ! l)) \<Longrightarrow> task_ID (ts ! k) \<noteq> task_ID (ts ! j)
   \<Longrightarrow> task_ID (ts ! k) \<in> set (task_DependsOn (serialize_tasks m ts ! j))"
proof (induction ts arbitrary: m j k)
  case Nil
  then show ?case by simp
next
  case (Cons t ts)
  obtain d m1 where sf: "serialize_files (task_ID t) (task_DependsOn t) m (task_TargetFiles t) = (d, m1)" by fastforce
  obtain i where j: "j = Suc i" using Cons.prems(2) by (cases j) auto
  show ?case
  proof (cases k)
    case 0
    then have m1: "m1 c = Some (task_ID t)"
      using serialize_files_last [of "task_ID t" "task_DependsOn t" m "task_TargetFiles t" c] sf Cons.prems(1,4)
      by (auto simp: uses_file_def split: if_splits)
    have "\<forall>l < i. \<not> uses_file c (ts ! l)"
      using Cons.prems(6) 0 j by (metis Suc_mono nth_Cons_Suc zero_less_Suc)
    with serialize_tasks_first_use [where m = m1 and j = i and ts = ts and p = "task_ID t", OF Cons.prems(1)]
      m1 Cons.prems j 0 sf show ?thesis by simp
  next
    case (Suc h)
    have "\<forall>l. h < l \<and> l < i \<longrightarrow> \<not> uses_file c (ts ! l)"
      using Cons.prems(6) Suc j by (metis Suc_mono nth_Cons_Suc)
    with Cons.IH [of h i m1] Cons.prems j Suc sf show ?thesis by simp
  qed
qed

section \<open>Facts on cleaning and linking\<close>

lemma clean_target_files_ok:
  "clean_target_files fs \<noteq> [] \<and> distinct (clean_target_files fs)
   \<and> (\<forall>f \<in> set (clean_target_files fs). f \<noteq> [] \<and> \<not> isBlacklistedPlannedFile f)"
proof -
  have "\<not> isBlacklistedPlannedFile ''.gitignore''" by code_simp
  then show ?thesis by (auto simp: clean_target_files_def Let_def distinct_dedup_acc set_dedup_acc)
qed

lemma entityProducer_ran: "ran (entityProducer tasks) \<subseteq> task_ID ` set tasks"
proof -
  have one: "ran (foldl (note_file i) m fs) \<subseteq> insert i (ran m)" for i m fs
    by (induction fs arbitrary: m) (fastforce simp: note_file_def ran_def split: if_splits)+
  have "ran (foldl (\<lambda>m t. foldl (note_file (task_ID t)) m (task_TargetFiles t)) m ts) \<subseteq> ran m \<union> task_ID ` set ts" for m ts
    using one by (induction ts arbitrary: m) (simp, fastforce)
  from this [of Map.empty tasks] show ?thesis by (simp add: entityProducer_def)
qed

lemma link_entity_keeps:
  "task_ID (link_entity pr d t e) = task_ID t \<and> task_Title (link_entity pr d t e) = task_Title t
   \<and> task_TargetFiles (link_entity pr d t e) = task_TargetFiles t
   \<and> set (task_DependsOn (link_entity pr d t e)) \<subseteq> set (task_DependsOn t) \<union> (ran pr - {task_ID t})"
  by (auto simp: link_entity_def ran_def split: option.splits)

lemma link_entities_keep:
  "task_ID (foldl (link_entity pr d) t es) = task_ID t \<and> task_Title (foldl (link_entity pr d) t es) = task_Title t
   \<and> task_TargetFiles (foldl (link_entity pr d) t es) = task_TargetFiles t
   \<and> set (task_DependsOn (foldl (link_entity pr d) t es)) \<subseteq> set (task_DependsOn t) \<union> (ran pr - {task_ID t})"
proof (induction es arbitrary: t)
  case (Cons e es)
  from Cons [of "link_entity pr d t e"] link_entity_keeps [of pr d t e] show ?case by auto
qed simp

lemma AutoLink_shape:
  "map task_ID (AutoLinkSymbolDependencies order ts) = map task_ID ts
   \<and> map task_Title (AutoLinkSymbolDependencies order ts) = map task_Title ts
   \<and> map task_TargetFiles (AutoLinkSymbolDependencies order ts) = map task_TargetFiles ts"
  by (simp add: AutoLinkSymbolDependencies_def link_entities_keep)

lemma AutoLink_no_self:
  "(\<forall>t \<in> set ts. task_ID t \<notin> set (task_DependsOn t))
   \<Longrightarrow> t \<in> set (AutoLinkSymbolDependencies order ts) \<Longrightarrow> task_ID t \<notin> set (task_DependsOn t)"
  using link_entities_keep by (fastforce simp: AutoLinkSymbolDependencies_def)

lemma AutoLink_trimmed:
  assumes "\<forall>t \<in> set ts. TrimSpace (task_ID t) = task_ID t \<and> (\<forall>d \<in> set (task_DependsOn t). TrimSpace d = d)"
    and "t \<in> set (AutoLinkSymbolDependencies order ts)" "d \<in> set (task_DependsOn t)"
  shows "TrimSpace d = d"
proof -
  from assms(2) obtain u where u: "u \<in> set ts"
    and t: "t = foldl (link_entity (entityProducer ts) (ToLower (task_Title u @ '' '' @ task_Description u))) u order"
    by (auto simp: AutoLinkSymbolDependencies_def)
  have "d \<in> set (task_DependsOn u) \<union> ran (entityProducer ts)"
    using assms(3) link_entities_keep [of "entityProducer ts" _ u order] unfolding t by blast
  with assms(1) u entityProducer_ran [of ts] show ?thesis by auto
qed

lemma ResolveTaskDependencies_shape:
  "map task_ID (ResolveTaskDependencies isFile glob ts p) = map task_ID ts
   \<and> map task_Title (ResolveTaskDependencies isFile glob ts p) = map task_Title ts
   \<and> map task_TargetFiles (ResolveTaskDependencies isFile glob ts p) = map task_TargetFiles ts"
  by (simp add: ResolveTaskDependencies_def serialize_tasks_shape resolve_task_deps_def)

text \<open>Where a resolved dependency comes from.\<close>

definition justified_dep :: "(string \<Rightarrow> bool) \<Rightarrow> (string \<Rightarrow> string list) \<Rightarrow> string \<Rightarrow> Task list \<Rightarrow> string \<Rightarrow> bool" where
  "justified_dep isFile glob p ts d \<longleftrightarrow> d \<in> set (map task_ID ts) \<or> d \<in> set (map task_Title ts)
     \<or> (isTaskReference d \<and> storyExists isFile glob p (ExtractStoryID d))"

lemma ResolveTaskDependencies_deps:
  assumes j: "j < length ts" and d: "d \<in> set (task_DependsOn (ResolveTaskDependencies isFile glob ts p ! j))"
  shows "justified_dep isFile glob p ts d
    \<and> (d \<in> TrimSpace ` set (task_DependsOn (ts ! j)) \<or> d \<in> task_ID ` set ts - {task_ID (ts ! j)})"
proof -
  let ?rs = "map (resolve_task_deps isFile glob p (known_names ts)) ts"
  have R: "ResolveTaskDependencies isFile glob ts p = serialize_tasks Map.empty ?rs"
    using j by (auto simp: ResolveTaskDependencies_def)
  from serialize_tasks_nth [of j ?rs Map.empty] j obtain m' where
    n: "serialize_tasks Map.empty ?rs ! j = (?rs ! j)\<lparr>task_DependsOn :=
        fst (serialize_files (task_ID (?rs ! j)) (task_DependsOn (?rs ! j)) m' (task_TargetFiles (?rs ! j)))\<rparr>"
    and ran: "ran m' \<subseteq> task_ID ` set ?rs" by auto
  have ids: "task_ID ` set ?rs = task_ID ` set ts" by (auto simp: resolve_task_deps_def image_iff)
  have "d \<in> set (task_DependsOn (?rs ! j)) \<union> (ran m' - {task_ID (?rs ! j)})"
    using d serialize_files_deps [of "task_DependsOn (?rs ! j)" "task_ID (?rs ! j)" m' "task_TargetFiles (?rs ! j)"]
    unfolding R n by auto
  then consider "keep_dep isFile glob p (known_names ts) d" "d \<in> TrimSpace ` set (task_DependsOn (ts ! j))"
    | "d \<in> task_ID ` set ts" "d \<noteq> task_ID (ts ! j)"
    using ran ids j by (auto simp: resolve_task_deps_def)
  then show ?thesis
    by cases (auto simp: justified_dep_def keep_dep_def known_names_def split: if_splits)
qed

section \<open>Properties\<close>

text \<open>C21: A plan that validation accepts keeps its tasks, gives every task at least one target file,
  with no duplicates and nothing from the blacklist, leaves (for identifiers without outer
  white space) no task depending on itself and no
  dependency that is neither a task of the plan nor a task of an existing story, and can be put in
  execution order.\<close>

theorem validated_plan_sound:
  assumes "ValidatePlannedTasks isFile glob cmds order tasks path = Inr ts"
    and "\<forall>t \<in> set tasks. TrimSpace (task_ID t) = task_ID t"
  shows "map task_ID ts = map task_ID tasks
    \<and> (\<forall>t \<in> set ts. task_TargetFiles t \<noteq> [] \<and> distinct (task_TargetFiles t)
        \<and> (\<forall>f \<in> set (task_TargetFiles t). \<not> isBlacklistedPlannedFile f)
        \<and> task_ID t \<notin> set (task_DependsOn t)
        \<and> (\<forall>d \<in> set (task_DependsOn t). justified_dep isFile glob (if path = [] then ''.'' else path) ts d))
    \<and> (\<exists>sorted_ts. ResolveAndSortTasks ts = Inr sorted_ts)"
proof -
  let ?p = "if path = [] then ''.'' else path"
  let ?cs = "map clean_planned_task tasks"
  let ?ls = "AutoLinkSymbolDependencies order ?cs"
  from assms have ts: "ts = ResolveTaskDependencies isFile glob ?ls ?p"
    and srt: "\<exists>sorted_ts. ResolveAndSortTasks ts = Inr sorted_ts"
    by (auto simp: ValidatePlannedTasks_def Let_def split: if_splits option.splits sum.splits)
  note sh = ResolveTaskDependencies_shape [of isFile glob ?ls ?p, folded ts]
  have ids: "map task_ID ts = map task_ID tasks" "map task_Title ts = map task_Title tasks"
    "map task_TargetFiles ts = map (clean_target_files \<circ> task_TargetFiles) tasks"
    using sh AutoLink_shape [of order ?cs] by (simp_all add: clean_planned_task_def)
  have lsn: "map task_ID ?ls = map task_ID ts" "map task_Title ?ls = map task_Title ts"
    using AutoLink_shape [of order ?cs] ids by (simp_all add: clean_planned_task_def)
  have clean: "\<forall>t \<in> set ?cs. task_ID t \<notin> set (task_DependsOn t)"
    by (auto simp: clean_planned_task_def clean_deps_def set_dedup_acc)
  have trimmed: "\<forall>t \<in> set ?cs. TrimSpace (task_ID t) = task_ID t
      \<and> (\<forall>d \<in> set (task_DependsOn t). TrimSpace d = d)"
    using assms(2) by (auto simp: clean_planned_task_def clean_deps_def set_dedup_acc)
  have "task_TargetFiles t \<noteq> [] \<and> distinct (task_TargetFiles t)
        \<and> (\<forall>f \<in> set (task_TargetFiles t). \<not> isBlacklistedPlannedFile f)
        \<and> task_ID t \<notin> set (task_DependsOn t)
        \<and> (\<forall>d \<in> set (task_DependsOn t). justified_dep isFile glob ?p ts d)" if "t \<in> set ts" for t
  proof -
    from that obtain j where j: "j < length ts" "t = ts ! j" by (metis in_set_conv_nth)
    have len: "length ?ls = length ts" "length tasks = length ts" using lsn(1) ids(1) by (metis length_map)+
    have tf: "task_TargetFiles t = clean_target_files (task_TargetFiles (tasks ! j))"
      using arg_cong [OF ids(3), of "\<lambda>l. l ! j"] j len by simp
    have id: "task_ID (?ls ! j) = task_ID t" using arg_cong [OF lsn(1), of "\<lambda>l. l ! j"] j len by simp
    have jls: "j < length ?ls" using j(1) len(1) by simp
    note deps = ResolveTaskDependencies_deps [OF jls, of _ isFile glob ?p, folded ts]
    have "justified_dep isFile glob ?p ts d" if "d \<in> set (task_DependsOn t)" for d
      using deps that unfolding justified_dep_def lsn j(2) by blast
    moreover have "task_ID t \<notin> set (task_DependsOn t)"
    proof
      assume a: "task_ID t \<in> set (task_DependsOn t)"
      with deps [of "task_ID t"] id j(2) obtain x where x: "x \<in> set (task_DependsOn (?ls ! j))" "TrimSpace x = task_ID t"
        by auto
      have "TrimSpace x = x" using AutoLink_trimmed [OF trimmed nth_mem [OF jls] x(1)] .
      with AutoLink_no_self [OF clean nth_mem [OF jls]] id x show False by simp
    qed
    ultimately show ?thesis using clean_target_files_ok [of "task_TargetFiles (tasks ! j)"] tf by auto
  qed
  with ids(1) srt show ?thesis by blast
qed

definition sample_plan_core :: Task where
  "sample_plan_core = (mk_task ''US-001-TASK-001'' ''core'' TaskPending)
     \<lparr>task_Description := ''Build the core package'', task_TargetFiles := [''core.go'', ''Makefile'']\<rparr>"

definition sample_plan_api :: Task where
  "sample_plan_api = (mk_task ''US-001-TASK-002'' ''api'' TaskPending)
     \<lparr>task_Description := ''Serve the public api'', task_TargetFiles := ['' ./Makefile'', ''api.go'', ''vendor/x.go''],
      task_DependsOn := [''US-001-TASK-002'', ''ghost'']\<rparr>"

definition sample_validated :: "plan_error + Task list" where
  "sample_validated = ValidatePlannedTasks (\<lambda>_. False) (\<lambda>_. []) (\<lambda>_. 0) []
     [sample_plan_core, sample_plan_api] []"

theorem validated_plan_sound_witness:
  "\<exists>ts. sample_validated = Inr ts \<and> map task_ID ts = [''US-001-TASK-001'', ''US-001-TASK-002'']
     \<and> (\<forall>t \<in> set ts. task_ID t \<notin> set (task_DependsOn t) \<and> task_TargetFiles t \<noteq> [])"
proof -
  have "\<not> isl sample_validated" by code_simp
  then obtain ts where ts: "sample_validated = Inr ts" by (metis sum.collapse(2))
  have trim: "\<forall>t \<in> set [sample_plan_core, sample_plan_api]. TrimSpace (task_ID t) = task_ID t" by code_simp
  have "map task_ID [sample_plan_core, sample_plan_api] = [''US-001-TASK-001'', ''US-001-TASK-002'']"
    by (simp add: sample_plan_core_def sample_plan_api_def mk_task_def)
  with validated_plan_sound [OF ts [unfolded sample_validated_def] trim] ts show ?thesis by auto
qed

text \<open>Two tasks that write the same root build file never run in an undefined order: each task
  depends on the latest task before it in the plan that targets the file.\<close>

theorem shared_build_file_serialised:
  assumes "IsSharedRootBuildFile c" and "k < j" "j < length tasks"
    and "uses_file c (tasks ! k)" "uses_file c (tasks ! j)"
    and "\<forall>l. k < l \<and> l < j \<longrightarrow> \<not> uses_file c (tasks ! l)"
    and "task_ID (tasks ! k) \<noteq> task_ID (tasks ! j)"
  shows "task_ID (tasks ! k) \<in> set (task_DependsOn (ResolveTaskDependencies isFile glob tasks path ! j))"
proof -
  let ?rs = "map (resolve_task_deps isFile glob path (known_names tasks)) tasks"
  have u: "uses_file c (?rs ! i) = uses_file c (tasks ! i)" "task_ID (?rs ! i) = task_ID (tasks ! i)" if "i < length tasks" for i
    using that by (simp_all add: uses_file_def resolve_task_deps_def)
  have "task_ID (?rs ! k) \<in> set (task_DependsOn (serialize_tasks Map.empty ?rs ! j))"
    using assms u by (intro serialize_tasks_next_use [of c]) simp_all
  with u [of k] assms(2,3) show ?thesis by (auto simp: ResolveTaskDependencies_def)
qed

theorem shared_build_file_serialised_witness:
  "task_ID sample_plan_core \<in> set (task_DependsOn (ResolveTaskDependencies (\<lambda>_. False) (\<lambda>_. [])
     [sample_plan_core, sample_plan_api] ''.'' ! 1))"
proof -
  have c: "IsSharedRootBuildFile ''makefile''" by code_simp
  have u: "uses_file ''makefile'' ([sample_plan_core, sample_plan_api] ! 0)"
    "uses_file ''makefile'' ([sample_plan_core, sample_plan_api] ! 1)"
    "task_ID ([sample_plan_core, sample_plan_api] ! 0) \<noteq> task_ID ([sample_plan_core, sample_plan_api] ! 1)"
    by code_simp+
  from shared_build_file_serialised [OF c _ _ u(1,2) _ u(3)] show ?thesis by simp
qed

end
