(* ===== verification/File_Edits.thy ===== *)
theory File_Edits
  imports Domain Go_Strings
begin

text \<open>
  Applying an agent's edits to a file: \<open>src/pkg/services/edit_file_helper.go\<close>. A file is its list
  of lines; an edit replaces its target text near the given lines, anywhere in the file when it
  occurs once, or a block of lines that agrees up to white space. Error texts are left out.
\<close>

section \<open>Arguments of the tool\<close>

definition any_str :: "(string \<times> gany) list \<Rightarrow> string \<Rightarrow> string option" where
  "any_str args k = (case map_of args k of Some (GStr s) \<Rightarrow> Some s | _ \<Rightarrow> None)"

fun first_str :: "(string \<Rightarrow> bool) \<Rightarrow> (string \<times> gany) list \<Rightarrow> string list \<Rightarrow> string" where
  "first_str P args [] = []"
| "first_str P args (k # ks) =
     (case any_str args k of
        Some s \<Rightarrow> if P s then s else first_str P args ks
      | None \<Rightarrow> first_str P args ks)"

definition ExtractEditStrings :: "(string \<times> gany) list \<Rightarrow> (string \<times> string) option" where
  "ExtractEditStrings args =
     (let target = first_str (\<lambda>s. s \<noteq> []) args
            [''target_content'', ''old_content'', ''old_str'', ''search'', ''target''];
          replacement = first_str (\<lambda>_. True) args
            [''replacement_content'', ''new_content'', ''new_str'', ''replace'', ''replacement'']
      in if target \<noteq> [] \<and> replacement \<noteq> [] then Some (target, replacement) else None)"

record ReplacementChunk =
  rc_StartLine :: int
  rc_EndLine :: int
  rc_TargetContent :: string
  rc_ReplacementContent :: string

section \<open>Matching of line blocks\<close>

definition blank_char :: "char \<Rightarrow> bool" where
  "blank_char c \<longleftrightarrow> char_code c = 32 \<or> char_code c = 9"

text \<open>\<open>IndexFunc\<close> returns -1 when every character is blank, and then the result is empty.\<close>

definition extractLeadingWhitespace :: "string \<Rightarrow> string" where
  "extractLeadingWhitespace s = (if list_all blank_char s then [] else takeWhile blank_char s)"

definition match_starts :: "string list \<Rightarrow> string list \<Rightarrow> nat list" where
  "match_starts fileLines targetLines =
     filter (\<lambda>i. map TrimSpace (take (length targetLines) (drop i fileLines)) = map TrimSpace targetLines)
       [0..<length fileLines - length targetLines + 1]"

definition matchTrimmedLines :: "string list \<Rightarrow> string list \<Rightarrow> (nat \<times> nat) option" where
  "matchTrimmedLines fileLines targetLines =
     (if targetLines = [] \<or> length fileLines < length targetLines then None
      else case match_starts fileLines targetLines of
             [i] \<Rightarrow> Some (i, i + length targetLines - 1)
           | _ \<Rightarrow> None)"

definition nonblank :: "string list \<Rightarrow> string list" where
  "nonblank ls = filter (\<lambda>t. t \<noteq> []) (map TrimSpace ls)"

definition nonblank_refs :: "string list \<Rightarrow> (nat \<times> string) list" where
  "nonblank_refs ls = filter (\<lambda>r. snd r \<noteq> []) (enumerate 0 (map TrimSpace ls))"

definition matchNormalizedLines :: "string list \<Rightarrow> string list \<Rightarrow> (nat \<times> nat) option" where
  "matchNormalizedLines fileLines targetLines =
     (let tgt = nonblank targetLines; refs = nonblank_refs fileLines; n = length tgt
      in if tgt = [] \<or> length refs < n then None
         else case filter (\<lambda>i. map snd (take n (drop i refs)) = tgt) [0..<length refs - n + 1] of
                [i] \<Rightarrow> Some (fst (refs ! i), fst (refs ! (i + n - 1)))
              | _ \<Rightarrow> None)"

section \<open>Applying edits\<close>

definition reindent :: "string \<Rightarrow> string list \<Rightarrow> string list" where
  "reindent leadIndent replLines =
     (if leadIndent \<noteq> [] \<and> replLines \<noteq> [] \<and> dropWhile blank_char (hd replLines) = hd replLines
      then map (\<lambda>l. if TrimSpace l \<noteq> [] then leadIndent @ l else l) replLines
      else replLines)"

definition splice :: "string list \<Rightarrow> nat \<Rightarrow> nat \<Rightarrow> string list \<Rightarrow> string list" where
  "splice lines a b new = take a lines @ new @ drop b lines"

definition replace_block :: "string list \<Rightarrow> nat \<Rightarrow> nat \<Rightarrow> string \<Rightarrow> string list" where
  "replace_block lines startIdx endIdx replacement =
     splice lines startIdx (endIdx + 1)
       (reindent (extractLeadingWhitespace (lines ! startIdx)) (Split replacement newline))"

definition replace_in :: "string list \<Rightarrow> nat \<Rightarrow> nat \<Rightarrow> string \<Rightarrow> string \<Rightarrow> string list" where
  "replace_in lines a b target replacement =
     splice lines a b
       (Split (Replace1 (Join (take (b - a) (drop a lines)) [newline]) target replacement) newline)"

datatype edit_error = InvalidRange int int | TargetNotFound

text \<open>The effective range of an edit, 1-based and inclusive.\<close>

definition edit_range :: "string list \<Rightarrow> ReplacementChunk \<Rightarrow> int \<times> int" where
  "edit_range lines edit =
     (let start = (if rc_StartLine edit < 1 then 1 else rc_StartLine edit);
          end_l = (if rc_EndLine edit \<le> 0 \<or> rc_EndLine edit > int (length lines)
                 then int (length lines) else rc_EndLine edit)
      in (start, end_l))"

definition apply_edit :: "string list \<Rightarrow> ReplacementChunk \<Rightarrow> edit_error + string list" where
  "apply_edit lines edit =
     (let target = normalize_crlf (rc_TargetContent edit);
          replacement = normalize_crlf (rc_ReplacementContent edit);
          (start, end_l) = edit_range lines edit
      in if start > end_l then Inl (InvalidRange start end_l)
         else let a = nat (start - 1); b = nat end_l;
                  wa = nat (start - 16); wb = min (b + 15) (length lines);
                  joined = Join lines [newline];
                  window = take (wb - wa) (drop wa lines);
                  targetLines = Split target newline
              in if Contains (Join (take (b - a) (drop a lines)) [newline]) target
                 then Inr (replace_in lines a b target replacement)
                 else if Contains (Join window [newline]) target
                 then Inr (replace_in lines wa wb target replacement)
                 else if Count joined target = 1
                 then Inr (Split (Replace1 joined target replacement) newline)
                 else if TrimSpace target \<noteq> [] \<and> Count joined (TrimSpace target) = 1
                 then Inr (Split (Replace1 joined (TrimSpace target) (TrimSpace replacement)) newline)
                 else case matchTrimmedLines window targetLines of
                   Some (s, e) \<Rightarrow> Inr (replace_block lines (wa + s) (wa + e) replacement)
                 | None \<Rightarrow>
                     (case matchTrimmedLines lines targetLines of
                        Some (s, e) \<Rightarrow> Inr (replace_block lines s e replacement)
                      | None \<Rightarrow>
                          (case matchNormalizedLines lines targetLines of
                             Some (s, e) \<Rightarrow> Inr (replace_block lines s e replacement)
                           | None \<Rightarrow> Inl TargetNotFound)))"

fun apply_edits :: "string list \<Rightarrow> ReplacementChunk list \<Rightarrow> edit_error + string list" where
  "apply_edits lines [] = Inr lines"
| "apply_edits lines (e # es) =
     (case apply_edit lines e of Inl err \<Rightarrow> Inl err | Inr lines' \<Rightarrow> apply_edits lines' es)"

definition ApplyFileEdits :: "string \<Rightarrow> ReplacementChunk list \<Rightarrow> edit_error + string" where
  "ApplyFileEdits content edits =
     (case apply_edits (Split (normalize_crlf content) newline) edits of
        Inl err \<Rightarrow> Inl err
      | Inr lines \<Rightarrow> Inr (Join lines [newline]))"

section \<open>Facts on line blocks\<close>

definition text_before :: "string list \<Rightarrow> string" where
  "text_before xs = (if xs = [] then [] else Join xs [newline] @ [newline])"

definition text_after :: "string list \<Rightarrow> string" where
  "text_after ys = (if ys = [] then [] else newline # Join ys [newline])"

lemma Join_segment:
  "seg \<noteq> [] \<Longrightarrow> Join (xs @ seg @ ys) [newline] = text_before xs @ Join seg [newline] @ text_after ys"
  by (auto simp: text_before_def text_after_def Join_append)

text \<open>Replacing text inside a block of lines replaces it inside the file.\<close>

lemma replace_in_text:
  assumes "a < b" "b \<le> length lines" "Contains (Join (take (b - a) (drop a lines)) [newline]) target"
  shows "\<exists>us vs. Join lines [newline] = us @ target @ vs
    \<and> Join (replace_in lines a b target repl) [newline] = us @ repl @ vs"
proof -
  let ?seg = "take (b - a) (drop a lines)"
  have l: "lines = take a lines @ ?seg @ drop b lines"
    using assms(1,2) by (metis append_take_drop_id drop_drop le_add_diff_inverse2 less_imp_le_nat)
  have ne: "?seg \<noteq> []" using assms(1,2) by auto
  from Replace1_split [OF assms(3), of repl] obtain us vs where r: "Join ?seg [newline] = us @ target @ vs"
    "Replace1 (Join ?seg [newline]) target repl = us @ repl @ vs" by blast
  have "Join lines [newline] = text_before (take a lines) @ (us @ target @ vs) @ text_after (drop b lines)"
    using Join_segment [OF ne, of "take a lines" "drop b lines"] l r(1) by simp
  moreover have "Join (replace_in lines a b target repl) [newline]
      = text_before (take a lines) @ (us @ repl @ vs) @ text_after (drop b lines)"
    unfolding replace_in_def splice_def r(2) by (simp add: Join_segment)
  ultimately show ?thesis
    by (intro exI [of _ "text_before (take a lines) @ us"] exI [of _ "vs @ text_after (drop b lines)"]) simp
qed

text \<open>What a block match promises: the block lies in the file and agrees with the target in its
  non-blank lines, trimmed.\<close>

definition block_match :: "string list \<Rightarrow> string list \<Rightarrow> nat \<Rightarrow> nat \<Rightarrow> bool" where
  "block_match lines targetLines s e \<longleftrightarrow> s \<le> e \<and> e < length lines
     \<and> nonblank (take (e + 1 - s) (drop s lines)) = nonblank targetLines"

lemma matchTrimmedLines_block:
  assumes "matchTrimmedLines lines target = Some (s, e)"
  shows "block_match lines target s e"
proof -
  let ?n = "length target"
  from assms have n: "target \<noteq> []" "?n \<le> length lines" and ms: "match_starts lines target = [s]" and e: "e = s + ?n - 1"
    by (auto simp: matchTrimmedLines_def split: if_splits list.splits)
  have "s \<in> set (match_starts lines target)" by (simp add: ms)
  then have s: "s < length lines - ?n + 1" "map TrimSpace (take ?n (drop s lines)) = map TrimSpace target"
    unfolding match_starts_def by (simp_all del: upt_Suc)
  have pos: "0 < ?n" using n(1) by simp
  have "s \<le> e" "e < length lines" "e + 1 - s = ?n" using pos s(1) n(2) e by linarith+
  with s(2) show ?thesis by (simp add: block_match_def nonblank_def)
qed

lemma window_block:
  assumes "block_match (take (wb - wa) (drop wa lines)) target s e" "wb \<le> length lines"
  shows "block_match lines target (wa + s) (wa + e)"
proof -
  have b: "s \<le> e" "e < wb - wa" using assms by (auto simp: block_match_def)
  then have "take (e + 1 - s) (drop s (take (wb - wa) (drop wa lines))) = take (e + 1 - s) (drop (wa + s) lines)"
    by (simp add: drop_take add.commute)
  with assms b show ?thesis by (auto simp: block_match_def)
qed

text \<open>In a strictly increasing list the elements between two of its members are the slice between
  their positions.\<close>

lemma sorted_slice:
  fixes key :: "'a \<Rightarrow> nat"
  assumes "sorted_wrt (\<lambda>a b. key a < key b) xs" "i \<le> j" "j < length xs"
  shows "filter (\<lambda>x. key (xs ! i) \<le> key x \<and> key x \<le> key (xs ! j)) xs = take (j + 1 - i) (drop i xs)"
proof -
  have split: "xs = take i xs @ take (j + 1 - i) (drop i xs) @ drop (j + 1) xs"
  proof -
    have "drop (j + 1) xs = drop (j + 1 - i) (drop i xs)" using assms(2) by simp
    then show ?thesis by (simp only: append_take_drop_id)
  qed
  have lt: "p < q \<Longrightarrow> q < length xs \<Longrightarrow> key (xs ! p) < key (xs ! q)" for p q
    using assms(1) by (simp add: sorted_wrt_iff_nth_less)
  let ?P = "\<lambda>x. key (xs ! i) \<le> key x \<and> key x \<le> key (xs ! j)"
  have lo: "filter ?P (take i xs) = []"
  proof (intro filter_False ballI)
    fix x assume "x \<in> set (take i xs)"
    then obtain p where "p < i" "x = xs ! p" by (auto simp: in_set_conv_nth)
    with lt [of p i] assms(2,3) show "\<not> ?P x" by simp
  qed
  have hi: "filter ?P (drop (j + 1) xs) = []"
  proof (intro filter_False ballI)
    fix x assume "x \<in> set (drop (j + 1) xs)"
    then obtain p where p: "p < length xs - (j + 1)" "x = xs ! (j + 1 + p)" by (auto simp: in_set_conv_nth)
    have "key (xs ! j) < key (xs ! (j + 1 + p))" using p(1) by (intro lt) linarith+
    then show "\<not> ?P x" by (simp add: p(2))
  qed
  have mid: "filter ?P (take (j + 1 - i) (drop i xs)) = take (j + 1 - i) (drop i xs)"
  proof (intro filter_True ballI)
    fix x assume "x \<in> set (take (j + 1 - i) (drop i xs))"
    then obtain p where p: "p < j + 1 - i" "i + p < length xs" "x = xs ! (i + p)"
      by (auto simp: in_set_conv_nth)
    have "key (xs ! i) \<le> key (xs ! (i + p))" using lt [of i "i + p"] p by (cases p) (auto intro: less_imp_le)
    moreover have "i + p = j \<or> i + p < j" using p(1) by linarith
    then have "key (xs ! (i + p)) \<le> key (xs ! j)" using lt [of "i + p" j] assms(3) by auto
    ultimately show "?P x" by (simp add: p(3))
  qed
  have "filter ?P xs = filter ?P (take i xs @ take (j + 1 - i) (drop i xs) @ drop (j + 1) xs)"
    by (rule arg_cong [OF split])
  also have "\<dots> = take (j + 1 - i) (drop i xs)" unfolding filter_append lo mid hi by simp
  finally show ?thesis .
qed

lemma nonblank_refs_sorted: "sorted_wrt (\<lambda>a b. fst a < fst b) (nonblank_refs ls)"
proof -
  have "sorted_wrt (\<lambda>a b. fst a < fst b) (enumerate 0 xs)" for xs :: "string list"
    by (simp add: sorted_wrt_iff_nth_less nth_enumerate_eq)
  then show ?thesis by (simp add: nonblank_refs_def sorted_wrt_filter)
qed

lemma enumerate_slice:
  "a \<le> b \<Longrightarrow> map snd (filter (\<lambda>r. n + a \<le> fst r \<and> fst r < n + b) (enumerate n xs)) = take (b - a) (drop a xs)"
proof (induction xs arbitrary: n a b)
  case Nil
  then show ?case by simp
next
  case (Cons x xs)
  show ?case
  proof (cases a)
    case 0
    show ?thesis
    proof (cases b)
      case 0
      with \<open>a = 0\<close> show ?thesis by (auto simp: filter_empty_conv)
    next
      case (Suc b')
      have "filter (\<lambda>r. n \<le> fst r \<and> fst r < n + Suc b') (enumerate (Suc n) xs)
          = filter (\<lambda>r. Suc n + 0 \<le> fst r \<and> fst r < Suc n + b') (enumerate (Suc n) xs)"
        by (rule filter_cong) (auto simp: in_set_enumerate_eq)
      with Cons.IH [of 0 b' "Suc n"] \<open>a = 0\<close> Suc show ?thesis by simp
    qed
  next
    case (Suc a')
    then obtain b' where b: "b = Suc b'" using Cons.prems by (cases b) auto
    with Cons.IH [of a' b' "Suc n"] Cons.prems Suc show ?thesis by simp
  qed
qed

lemma refs_slice:
  assumes "a \<le> b"
  shows "map snd (filter (\<lambda>r. a \<le> fst r \<and> fst r \<le> b) (nonblank_refs ls)) = nonblank (take (b + 1 - a) (drop a ls))"
proof -
  have "map snd (filter (\<lambda>r. a \<le> fst r \<and> fst r \<le> b) (enumerate 0 (map TrimSpace ls)))
      = take (b + 1 - a) (drop a (map TrimSpace ls))"
    using enumerate_slice [of a "b + 1" 0 "map TrimSpace ls"] assms by (simp add: less_Suc_eq_le)
  then have "filter (\<lambda>t. t \<noteq> []) (map snd (filter (\<lambda>r. a \<le> fst r \<and> fst r \<le> b) (enumerate 0 (map TrimSpace ls))))
      = nonblank (take (b + 1 - a) (drop a ls))" by (simp add: nonblank_def take_map drop_map)
  then show ?thesis by (simp add: nonblank_refs_def filter_map comp_def conj_commute)
qed

lemma matchNormalizedLines_block:
  assumes "matchNormalizedLines lines target = Some (s, e)"
  shows "block_match lines target s e"
proof -
  let ?tgt = "nonblank target" and ?refs = "nonblank_refs lines"
  let ?n = "length ?tgt"
  from assms obtain i where n: "?tgt \<noteq> []" "?n \<le> length ?refs"
    and ms: "filter (\<lambda>i. map snd (take ?n (drop i ?refs)) = ?tgt) [0..<length ?refs - ?n + 1] = [i]"
    and se: "s = fst (?refs ! i)" "e = fst (?refs ! (i + ?n - 1))"
    by (auto simp: matchNormalizedLines_def Let_def split: if_splits list.splits)
  have "i \<in> set (filter (\<lambda>i. map snd (take ?n (drop i ?refs)) = ?tgt) [0..<length ?refs - ?n + 1])"
    unfolding ms by simp
  then have i: "i < length ?refs - ?n + 1" "map snd (take ?n (drop i ?refs)) = ?tgt" by (simp_all del: upt_Suc)
  define j where "j = i + ?n - 1"
  have pos: "0 < ?n" using n(1) by simp
  have j: "i \<le> j" "j < length ?refs" "j + 1 - i = ?n" unfolding j_def using pos i(1) n(2) by linarith+
  note sorted = nonblank_refs_sorted [of lines]
  have se': "s = fst (?refs ! i)" "e = fst (?refs ! j)" using se unfolding j_def by simp_all
  have le: "s \<le> e"
    using sorted j unfolding se' by (cases "i = j") (auto simp: sorted_wrt_iff_nth_less intro: less_imp_le)
  have "?refs ! j \<in> set ?refs" using j(2) by simp
  then have "e < length lines" unfolding se'(2) by (auto simp: nonblank_refs_def in_set_enumerate_eq)
  moreover have "filter (\<lambda>r. s \<le> fst r \<and> fst r \<le> e) ?refs = take ?n (drop i ?refs)"
    using sorted_slice [OF sorted j(1,2)] j(3) unfolding se' by simp
  ultimately show ?thesis using le refs_slice [OF le, of lines] i(2) by (simp add: block_match_def)
qed

text \<open>The three ways a successful edit changes the file.\<close>

definition text_replaced :: "string list \<Rightarrow> string list \<Rightarrow> string \<Rightarrow> string \<Rightarrow> bool" where
  "text_replaced lines lines' old new \<longleftrightarrow>
     (\<exists>us vs. Join lines [newline] = us @ old @ vs \<and> Join lines' [newline] = us @ new @ vs)"

definition block_replaced :: "string list \<Rightarrow> string list \<Rightarrow> string list \<Rightarrow> string list \<Rightarrow> bool" where
  "block_replaced lines lines' targetLines replLines \<longleftrightarrow>
     (\<exists>s e indent. block_match lines targetLines s e \<and> lines' = take s lines @ reindent indent replLines @ drop (e + 1) lines)"

lemma Count_one_replaced:
  "Count (Join lines [newline]) t = 1 \<Longrightarrow>
     text_replaced lines (Split (Replace1 (Join lines [newline]) t r) newline) t r"
  using Replace1_split [of "Join lines [newline]" t r] Count_pos [of "Join lines [newline]" t]
  by (auto simp: text_replaced_def)

lemma replace_block_replaced:
  "block_match lines targetLines s e \<Longrightarrow> block_replaced lines (replace_block lines s e r) targetLines (Split r newline)"
  by (auto simp: block_replaced_def replace_block_def splice_def)

lemma edit_range_bounds:
  "edit_range lines edit = (start, end_l) \<Longrightarrow> \<not> start > end_l \<Longrightarrow> lines \<noteq> [] \<Longrightarrow>
     nat (start - 1) < nat end_l \<and> nat end_l \<le> length lines
     \<and> nat (start - 16) < min (nat end_l + 15) (length lines)"
  by (auto simp: edit_range_def Let_def split: if_splits)

lemma apply_edit_cases:
  assumes "apply_edit lines edit = Inr lines'" "lines \<noteq> []"
  shows "text_replaced lines lines' (normalize_crlf (rc_TargetContent edit)) (normalize_crlf (rc_ReplacementContent edit))
    \<or> text_replaced lines lines' (TrimSpace (normalize_crlf (rc_TargetContent edit)))
         (TrimSpace (normalize_crlf (rc_ReplacementContent edit)))
    \<or> block_replaced lines lines' (Split (normalize_crlf (rc_TargetContent edit)) newline)
         (Split (normalize_crlf (rc_ReplacementContent edit)) newline)"
proof -
  obtain start end_l where r: "edit_range lines edit = (start, end_l)" by fastforce
  let ?t = "normalize_crlf (rc_TargetContent edit)" and ?rp = "normalize_crlf (rc_ReplacementContent edit)"
  have ok: "\<not> start > end_l" using assms(1) r by (auto simp: apply_edit_def Let_def)
  note b = edit_range_bounds [OF r ok assms(2)]
  define a bb wa where "a = nat (start - 1)" and "bb = nat end_l" and "wa = nat (start - 16)"
  define wb where "wb = min (bb + 15) (length lines)"
  define tl where "tl = Split ?t newline"
  have bounds: "a < bb" "bb \<le> length lines" "wa < wb" "wb \<le> length lines"
    using b by (simp_all add: a_def bb_def wa_def wb_def)
  note res = assms(1) [unfolded apply_edit_def Let_def r prod.case a_def [symmetric] bb_def [symmetric]
      wa_def [symmetric], folded wb_def tl_def]
  have near: "text_replaced lines (replace_in lines x y ?t ?rp) ?t ?rp"
    if "x < y" "y \<le> length lines" "Contains (Join (take (y - x) (drop x lines)) [newline]) ?t" for x y
    using replace_in_text [OF that] by (simp add: text_replaced_def)
  from res ok consider
      "Contains (Join (take (bb - a) (drop a lines)) [newline]) ?t" "lines' = replace_in lines a bb ?t ?rp"
    | "Contains (Join (take (wb - wa) (drop wa lines)) [newline]) ?t" "lines' = replace_in lines wa wb ?t ?rp"
    | "Count (Join lines [newline]) ?t = 1" "lines' = Split (Replace1 (Join lines [newline]) ?t ?rp) newline"
    | "Count (Join lines [newline]) (TrimSpace ?t) = 1"
        "lines' = Split (Replace1 (Join lines [newline]) (TrimSpace ?t) (TrimSpace ?rp)) newline"
    | u v where "matchTrimmedLines (take (wb - wa) (drop wa lines)) tl = Some (u, v)"
        "lines' = replace_block lines (wa + u) (wa + v) ?rp"
    | u v where "matchTrimmedLines lines tl = Some (u, v) \<or> matchNormalizedLines lines tl = Some (u, v)"
        "lines' = replace_block lines u v ?rp"
    by (simp split: if_splits option.splits prod.splits) blast+
  then show ?thesis
  proof cases
    case 1
    then show ?thesis using near bounds by blast
  next
    case 2
    then show ?thesis using near bounds by blast
  next
    case 5
    then have "block_match lines tl (wa + u) (wa + v)"
      using window_block [OF matchTrimmedLines_block bounds(4)] by blast
    then show ?thesis using 5(2) replace_block_replaced unfolding tl_def by blast
  next
    case 6
    then have "block_match lines tl u v" using matchTrimmedLines_block matchNormalizedLines_block by blast
    then show ?thesis using 6(2) replace_block_replaced unfolding tl_def by blast
  qed (use Count_one_replaced in blast)+
qed

lemma splice_Join_ne: "new \<noteq> [] \<Longrightarrow> splice lines a b new \<noteq> []"
  by (simp add: splice_def)

lemma cr_code: "char_code c = 13 \<longleftrightarrow> c = CHR 0x0D"
proof -
  have "char_code (CHR 0x0D) = 13" by simp
  then show ?thesis by (metis of_char_eq_iff)
qed

lemma normalize_id: "CHR 0x0D \<notin> set s \<Longrightarrow> normalize_crlf s = s"
  by (induction s rule: normalize_crlf.induct) (auto simp: cr_code)

section \<open>Properties\<close>

text \<open>A successful edit changes one place of the file and nothing else: it replaces one occurrence
  of the target (or of the trimmed target) by the replacement, or one block of whole lines that agrees
  with the target in its non-blank lines, trimmed, by the lines of the replacement.\<close>

theorem edit_changes_one_place:
  assumes "ApplyFileEdits content [edit] = Inr content'"
  shows "\<exists>lines'. content' = Join lines' [newline] \<and>
    (let lines = Split (normalize_crlf content) newline;
         t = normalize_crlf (rc_TargetContent edit); r = normalize_crlf (rc_ReplacementContent edit)
     in text_replaced lines lines' t r \<or> text_replaced lines lines' (TrimSpace t) (TrimSpace r)
        \<or> block_replaced lines lines' (Split t newline) (Split r newline))"
proof -
  let ?lines = "Split (normalize_crlf content) newline"
  from assms obtain lines' where l: "apply_edit ?lines edit = Inr lines'" "content' = Join lines' [newline]"
    by (auto simp: ApplyFileEdits_def split: sum.splits)
  from apply_edit_cases [OF l(1) Split_not_Nil] l(2) show ?thesis
    unfolding Let_def by (intro exI [of _ lines'] conjI)
qed

definition sample_edit :: ReplacementChunk where
  "sample_edit = \<lparr>rc_StartLine = 1, rc_EndLine = 1, rc_TargetContent = ''b'' @ [newline] @ ''  c'',
     rc_ReplacementContent = ''x''\<rparr>"

definition sample_file :: string where
  "sample_file = ''a'' @ [newline] @ ''  b'' @ [newline, newline] @ ''c '' @ [newline] @ ''d''"

definition sample_edited :: string where
  "sample_edited = ''a'' @ [newline] @ ''  x'' @ [newline] @ ''d''"

theorem edit_changes_one_place_witness:
  "ApplyFileEdits sample_file [sample_edit] = Inr sample_edited \<and>
   (\<exists>lines'. sample_edited = Join lines' [newline] \<and>
    (let lines = Split (normalize_crlf sample_file) newline;
         t = normalize_crlf (rc_TargetContent sample_edit); r = normalize_crlf (rc_ReplacementContent sample_edit)
     in text_replaced lines lines' t r \<or> text_replaced lines lines' (TrimSpace t) (TrimSpace r)
        \<or> block_replaced lines lines' (Split t newline) (Split r newline)))"
proof -
  have "ApplyFileEdits sample_file [sample_edit] = Inr sample_edited" by code_simp
  with edit_changes_one_place [OF this] show ?thesis by blast
qed

text \<open>An edit whose target occurs exactly once in the file always succeeds and replaces exactly
  that occurrence, however wrong its line numbers are, as long as they form a range.\<close>

theorem unique_target_replaced:
  assumes "Count content (rc_TargetContent edit) = 1"
    and "CHR 0x0D \<notin> set (content @ rc_TargetContent edit @ rc_ReplacementContent edit)"
    and "edit_range (Split content newline) edit = (start, end_l)" "start \<le> end_l"
  shows "\<exists>us vs. content = us @ rc_TargetContent edit @ vs
    \<and> ApplyFileEdits content [edit] = Inr (us @ rc_ReplacementContent edit @ vs)"
proof -
  let ?lines = "Split content newline" and ?t = "rc_TargetContent edit" and ?r = "rc_ReplacementContent edit"
  have n: "normalize_crlf content = content" "normalize_crlf ?t = ?t" "normalize_crlf ?r = ?r"
    using assms(2) by (simp_all add: normalize_id)
  have ok: "\<not> start > end_l" using assms(4) by simp
  note b = edit_range_bounds [OF assms(3) ok Split_not_Nil]
  have near: "text_replaced ?lines (replace_in ?lines x y ?t ?r) ?t ?r"
    if "x < y" "y \<le> length ?lines" "Contains (Join (take (y - x) (drop x ?lines)) [newline]) ?t" for x y
    using replace_in_text [OF that] by (simp add: text_replaced_def)
  have one: "text_replaced ?lines (Split (Replace1 content ?t ?r) newline) ?t ?r"
    using Count_one_replaced [of ?lines ?t ?r] assms(1) by simp
  have "\<exists>lines'. apply_edit ?lines edit = Inr lines' \<and> text_replaced ?lines lines' ?t ?r"
    using b ok assms(1) one unfolding apply_edit_def Let_def n assms(3) prod.case Join_Split
    by (auto intro!: near)
  then obtain lines' us vs where "apply_edit ?lines edit = Inr lines'"
    "content = us @ ?t @ vs" "Join lines' [newline] = us @ ?r @ vs" by (auto simp: text_replaced_def)
  note res = this
  then have "ApplyFileEdits content [edit] = Inr (us @ ?r @ vs)"
    unfolding ApplyFileEdits_def n(1) apply_edits.simps res(1) res(3) by (simp only: sum.case apply_edits.simps res(3))
  with res(2) show ?thesis by blast
qed

theorem unique_target_replaced_witness:
  "\<exists>us vs. ''abc'' = us @ ''b'' @ vs
    \<and> ApplyFileEdits ''abc'' [\<lparr>rc_StartLine = -5, rc_EndLine = 99, rc_TargetContent = ''b'',
        rc_ReplacementContent = ''x''\<rparr>] = Inr (us @ ''x'' @ vs)"
proof -
  let ?e = "\<lparr>rc_StartLine = -5, rc_EndLine = 99, rc_TargetContent = ''b'', rc_ReplacementContent = ''x''\<rparr>"
  have "Count ''abc'' (rc_TargetContent ?e) = 1"
    "CHR 0x0D \<notin> set (''abc'' @ rc_TargetContent ?e @ rc_ReplacementContent ?e)"
    "edit_range (Split ''abc'' newline) ?e = (1, 1)" by code_simp+
  from unique_target_replaced [OF this] show ?thesis by simp
qed

end
