(* ===== verification/Conflict_Merge.thy ===== *)
theory Conflict_Merge
  imports Go_Strings
begin

text \<open>
  Deterministic resolution of merge conflicts on file contents: \<open>CleanConflictMarkers\<close> and
  \<open>ContainsConflictMarkers\<close> (\<open>orchestrator_execute_workspace.go\<close>), the line union of manifests
  (\<open>rebase_conflict_resolver.go\<close>) and \<open>OptimisticUnionMerge\<close> (\<open>rebase_queue.go\<close>). A file is
  read as a string; reading and writing it is left to the callers. Re-encoding of a
  \<open>package.json\<close> is the parameter \<open>reformat\<close>: \<open>None\<close> when the text is no JSON object.
\<close>

section \<open>Conflict markers\<close>

definition is_marker :: "string \<Rightarrow> bool" where
  "is_marker line =
     (let trimmed = TrimSpace line
      in HasPrefix trimmed ''<<<<<<<'' \<or> HasPrefix trimmed ''=======''
         \<or> HasPrefix trimmed ''>>>>>>>'' \<or> HasPrefix trimmed ''|||||||'')"

definition ContainsConflictMarkers :: "string \<Rightarrow> bool" where
  "ContainsConflictMarkers content = list_ex is_marker (Split content newline)"

fun clean_lines :: "bool \<Rightarrow> string list \<Rightarrow> string list" where
  "clean_lines inOurs [] = []"
| "clean_lines inOurs (line # ls) =
     (let trimmed = TrimSpace line
      in if HasPrefix trimmed ''<<<<<<<'' then clean_lines True ls
         else if HasPrefix trimmed ''|||||||'' then clean_lines True ls
         else if HasPrefix trimmed ''======='' then clean_lines False ls
         else if HasPrefix trimmed ''>>>>>>>'' then clean_lines False ls
         else if inOurs then clean_lines True ls
         else line # clean_lines False ls)"

definition CleanConflictMarkers :: "string \<Rightarrow> string" where
  "CleanConflictMarkers content = Join (clean_lines False (Split content newline)) [newline]"

section \<open>The optimistic union\<close>

text \<open>Lines of the base, each once unless blank, then the lines of the worker not seen before.\<close>

fun union_base :: "string list \<Rightarrow> string list \<Rightarrow> string list \<times> string list" where
  "union_base seen [] = ([], seen)"
| "union_base seen (l # ls) =
     (if l \<notin> set seen \<or> TrimSpace l = []
      then (let (out, seen') = union_base (l # seen) ls in (l # out, seen'))
      else union_base seen ls)"

definition OptimisticUnionMerge :: "string \<Rightarrow> string \<Rightarrow> string" where
  "OptimisticUnionMerge baseContent workerContent =
     (let (merged, seen) = union_base [] (Split baseContent newline)
      in Join (merged @ dedup_acc seen (Split workerContent newline)) [newline])"

section \<open>The line union of a manifest\<close>

definition IsAutoResolvableConflictFile :: "string \<Rightarrow> bool" where
  "IsAutoResolvableConflictFile filePath =
     (let base = ToLower (Base filePath)
      in base \<in> {''cargo.toml'', ''go.mod'', ''package.json'', ''requirements.txt'', ''gemfile'',
                 ''lib.rs'', ''index.ts'', ''index.js'', ''__init__.py''}
         \<or> HasSuffix base ''.csproj'')"

text \<open>\<open>bufio.Scanner\<close> with its defaults: lines without their end, one carriage return before the
  end dropped, and an error at a line of 64 KiB or more.\<close>

definition raw_lines :: "string \<Rightarrow> string list" where
  "raw_lines s = (let ps = Split s newline in if last ps = [] then butlast ps else ps)"

definition drop_cr :: "string \<Rightarrow> string" where
  "drop_cr l = (if l \<noteq> [] \<and> char_code (last l) = 13 then butlast l else l)"

definition MaxScanTokenSize :: nat where
  "MaxScanTokenSize = 65536"

fun union_theirs :: "string list \<Rightarrow> string list \<Rightarrow> string list" where
  "union_theirs seen [] = []"
| "union_theirs seen (l # ls) =
     (let trimmed = TrimSpace l
      in if trimmed = [] \<or> trimmed \<notin> set seen
         then l # union_theirs (if trimmed \<noteq> [] then trimmed # seen else seen) ls
         else union_theirs seen ls)"

definition merge_sides :: "string list \<Rightarrow> string list \<Rightarrow> string list" where
  "merge_sides ours theirs =
     ours @ union_theirs (filter (\<lambda>t. t \<noteq> []) (map TrimSpace ours)) theirs"

datatype side = Outside | InOurs "string list" | InTheirs "string list" "string list"

definition union_step :: "side \<Rightarrow> string \<Rightarrow> side \<times> string list" where
  "union_step st line =
     (if HasPrefix line ''<<<<<<<'' then (InOurs [], [])
      else case st of
        Outside \<Rightarrow> (Outside, [line])
      | InOurs ours \<Rightarrow>
          if HasPrefix line ''======='' then (InTheirs ours [], [])
          else if HasPrefix line ''>>>>>>>'' then (Outside, merge_sides ours [])
          else (InOurs (ours @ [line]), [])
      | InTheirs ours theirs \<Rightarrow>
          if HasPrefix line ''======='' then (InTheirs ours theirs, [])
          else if HasPrefix line ''>>>>>>>'' then (Outside, merge_sides ours theirs)
          else (InTheirs ours (theirs @ [line]), []))"

fun union_run :: "side \<Rightarrow> string list \<Rightarrow> string list" where
  "union_run st [] = []"
| "union_run st (l # ls) = (let (st', out) = union_step st l in out @ union_run st' ls)"

datatype resolve_error = TokenTooLong | ReadError

definition resolveLineUnionConflict :: "string \<Rightarrow> resolve_error + string" where
  "resolveLineUnionConflict content =
     (if list_ex (\<lambda>l. length l \<ge> MaxScanTokenSize) (raw_lines content) then Inl TokenTooLong
      else Inr (concat (map (\<lambda>l. l @ [newline]) (union_run Outside (map drop_cr (raw_lines content))))))"

definition resolvePackageJSONConflict :: "(string \<Rightarrow> string option) \<Rightarrow> string \<Rightarrow> resolve_error + string" where
  "resolvePackageJSONConflict reformat content =
     (case resolveLineUnionConflict content of
        Inl e \<Rightarrow> Inl e
      | Inr lines \<Rightarrow> Inr (case reformat lines of Some text \<Rightarrow> text | None \<Rightarrow> lines))"

text \<open>The content to write back, or \<open>None\<close> when the file is left as it is.\<close>

definition AutoResolveConflictFile ::
  "(string \<Rightarrow> string option) \<Rightarrow> string \<Rightarrow> string option \<Rightarrow> resolve_error + string option" where
  "AutoResolveConflictFile reformat filePath file =
     (case file of
        None \<Rightarrow> Inl ReadError
      | Some str \<Rightarrow>
          if \<not> Contains str ''<<<<<<<'' \<or> \<not> Contains str ''======='' \<or> \<not> Contains str ''>>>>>>>''
          then Inr None
          else
            let base = ToLower (Base filePath);
                finish = (\<lambda>r. case r of Inl e \<Rightarrow> Inl e | Inr t \<Rightarrow> Inr (if t = [] then None else Some t))
            in if base = ''package.json'' then finish (resolvePackageJSONConflict reformat str)
               else if base \<in> {''cargo.toml'', ''go.mod'', ''requirements.txt'', ''gemfile''} \<or> HasSuffix base ''.csproj''
               then finish (resolveLineUnionConflict str)
               else if base \<in> {''lib.rs'', ''index.ts'', ''index.js'', ''__init__.py''}
               then finish (resolveLineUnionConflict str)
               else Inr None)"

section \<open>Facts\<close>

lemma clean_lines_subset: "l \<in> set (clean_lines b ls) \<Longrightarrow> l \<in> set ls \<and> \<not> is_marker l"
  by (induction b ls rule: clean_lines.induct) (auto simp: Let_def is_marker_def split: if_splits)

lemma clean_lines_id: "\<forall>l \<in> set ls. \<not> is_marker l \<Longrightarrow> clean_lines False ls = ls"
  by (induction ls) (auto simp: Let_def is_marker_def)

lemma blank_no_marker: "\<not> is_marker []"
  by (simp add: is_marker_def TrimSpace_def HasPrefix_def)

lemma lines_no_newline: "l \<in> set (Split s newline) \<Longrightarrow> newline \<notin> set l"
  by (rule Split_no_sep)

lemma Split_Join_lines:
  "xs \<noteq> [] \<Longrightarrow> set xs \<subseteq> set (Split s newline) \<union> set (Split t newline) \<Longrightarrow> Split (Join xs [newline]) newline = xs"
  by (rule Split_Join) (auto dest: lines_no_newline)

lemma union_base_set:
  "union_base seen ls = (out, seen') \<Longrightarrow>
     set seen' = set seen \<union> set out \<and> set out \<subseteq> set ls \<and> set ls \<subseteq> set seen'"
proof (induction ls arbitrary: seen out seen')
  case Nil
  then show ?case by simp
next
  case (Cons l ls)
  show ?case
  proof (cases "l \<notin> set seen \<or> TrimSpace l = []")
    case True
    obtain out1 where u: "union_base (l # seen) ls = (out1, seen')" "out = l # out1"
      using Cons.prems True by (auto split: prod.splits)
    from Cons.IH [OF u(1)] u(2) show ?thesis by auto
  next
    case False
    with Cons.prems have "union_base seen ls = (out, seen')" by simp
    from Cons.IH [OF this] False show ?thesis by auto
  qed
qed

text \<open>In the union of both sides every line of either side is present, up to outer white space.\<close>

lemma union_theirs_keeps:
  "l \<in> set ls \<Longrightarrow> TrimSpace l \<in> set seen \<or> TrimSpace l \<in> TrimSpace ` set (union_theirs seen ls)"
  by (induction seen ls rule: union_theirs.induct) (auto simp: Let_def split: if_splits)

lemma union_theirs_subset: "set (union_theirs seen ls) \<subseteq> set ls"
  by (induction seen ls rule: union_theirs.induct) (auto simp: Let_def)

lemma merge_sides_keeps:
  "TrimSpace ` set (merge_sides o1 t1) = TrimSpace ` (set o1 \<union> set t1) \<and> set (merge_sides o1 t1) \<subseteq> set o1 \<union> set t1"
proof -
  have "TrimSpace l \<in> TrimSpace ` set (merge_sides o1 t1)" if "l \<in> set t1" for l
    using union_theirs_keeps [OF that, of "filter (\<lambda>t. t \<noteq> []) (map TrimSpace o1)"]
    by (auto simp: merge_sides_def)
  with union_theirs_subset [of "filter (\<lambda>t. t \<noteq> []) (map TrimSpace o1)" t1] show ?thesis
    by (auto simp: merge_sides_def)
qed

lemma OptimisticUnionMerge_lines:
  "Split (OptimisticUnionMerge b w) newline =
     fst (union_base [] (Split b newline)) @ dedup_acc (snd (union_base [] (Split b newline))) (Split w newline)"
proof -
  obtain out seen where u: "union_base [] (Split b newline) = (out, seen)" by fastforce
  note s = union_base_set [OF u]
  have "out \<noteq> []" using s by (metis Split_not_Nil empty_subsetI list.set(1) set_empty2 subset_antisym sup_bot_left)
  then have "out @ dedup_acc seen (Split w newline) \<noteq> []" by simp
  moreover have "set (out @ dedup_acc seen (Split w newline)) \<subseteq> set (Split b newline) \<union> set (Split w newline)"
    using s by (auto simp: set_dedup_acc)
  ultimately show ?thesis by (simp add: OptimisticUnionMerge_def u Split_Join_lines)
qed

text \<open>The lines of a file that are no block markers, and whether every block is closed before the
  next one opens and before the end.\<close>

fun payload :: "bool \<Rightarrow> string list \<Rightarrow> string list" where
  "payload inside [] = []"
| "payload inside (l # ls) =
     (if HasPrefix l ''<<<<<<<'' then payload True ls
      else if inside \<and> HasPrefix l ''======='' then payload True ls
      else if inside \<and> HasPrefix l ''>>>>>>>'' then payload False ls
      else l # payload inside ls)"

fun blocks_closed :: "bool \<Rightarrow> string list \<Rightarrow> bool" where
  "blocks_closed inside [] \<longleftrightarrow> \<not> inside"
| "blocks_closed inside (l # ls) \<longleftrightarrow>
     (if HasPrefix l ''<<<<<<<'' then \<not> inside \<and> blocks_closed True ls
      else if inside \<and> HasPrefix l ''======='' then blocks_closed True ls
      else if inside \<and> HasPrefix l ''>>>>>>>'' then blocks_closed False ls
      else blocks_closed inside ls)"

fun pending :: "side \<Rightarrow> string list" where
  "pending Outside = []"
| "pending (InOurs o1) = o1"
| "pending (InTheirs o1 t1) = o1 @ t1"

text \<open>\<open>=======\<close> and \<open>>>>>>>>\<close> cannot both start a line, nor either with \<open><<<<<<<\<close>.\<close>

lemma union_run_payload:
  "blocks_closed (st \<noteq> Outside) ls \<Longrightarrow>
     TrimSpace ` set (union_run st ls) = TrimSpace ` (set (pending st) \<union> set (payload (st \<noteq> Outside) ls))
     \<and> set (union_run st ls) \<subseteq> set (pending st) \<union> set (payload (st \<noteq> Outside) ls)"
proof (induction ls arbitrary: st)
  case Nil
  then show ?case by (cases st) auto
next
  case (Cons l ls)
  obtain st' out where u: "union_step st l = (st', out)" by fastforce
  have bc: "blocks_closed (st' \<noteq> Outside) ls"
    using Cons.prems u by (cases st) (auto simp: union_step_def split: if_splits)
  note IH = Cons.IH [OF bc]
  have "TrimSpace ` (set out \<union> (set (pending st') \<union> set (payload (st' \<noteq> Outside) ls)))
      = TrimSpace ` (set (pending st) \<union> set (payload (st \<noteq> Outside) (l # ls)))
    \<and> set out \<union> (set (pending st') \<union> set (payload (st' \<noteq> Outside) ls))
      \<subseteq> set (pending st) \<union> set (payload (st \<noteq> Outside) (l # ls))"
  proof (cases st)
    case Outside
    show ?thesis
    proof (cases "HasPrefix l ''<<<<<<<''")
      case True
      with u Outside have "st' = InOurs []" "out = []" by (simp_all add: union_step_def)
      with True Outside show ?thesis by simp
    next
      case False
      with u Outside have "st' = Outside" "out = [l]" by (simp_all add: union_step_def)
      with False Outside show ?thesis by simp
    qed
  next
    case (InOurs o1)
    have m1: "\<not> HasPrefix l ''<<<<<<<''" using Cons.prems InOurs by (auto split: if_splits)
    note m = merge_sides_keeps [of o1 "[]"]
    consider "HasPrefix l ''=======''" | "\<not> HasPrefix l ''=======''" "HasPrefix l ''>>>>>>>''"
      | "\<not> HasPrefix l ''=======''" "\<not> HasPrefix l ''>>>>>>>''" by blast
    then show ?thesis
    proof cases
      case 1
      with u InOurs m1 have "st' = InTheirs o1 []" "out = []" by (simp_all add: union_step_def)
      with 1 m1 InOurs show ?thesis by simp
    next
      case 2
      with u InOurs m1 have "st' = Outside" "out = merge_sides o1 []" by (simp_all add: union_step_def)
      with 2 m1 InOurs m show ?thesis by (simp add: image_Un) blast
    next
      case 3
      with u InOurs m1 have "st' = InOurs (o1 @ [l])" "out = []" by (simp_all add: union_step_def)
      with 3 m1 InOurs show ?thesis by simp
    qed
  next
    case (InTheirs o1 t1)
    have m1: "\<not> HasPrefix l ''<<<<<<<''" using Cons.prems InTheirs by (auto split: if_splits)
    note m = merge_sides_keeps [of o1 t1]
    consider "HasPrefix l ''=======''" | "\<not> HasPrefix l ''=======''" "HasPrefix l ''>>>>>>>''"
      | "\<not> HasPrefix l ''=======''" "\<not> HasPrefix l ''>>>>>>>''" by blast
    then show ?thesis
    proof cases
      case 1
      with u InTheirs m1 have "st' = InTheirs o1 t1" "out = []" by (simp_all add: union_step_def)
      with 1 m1 InTheirs show ?thesis by simp
    next
      case 2
      with u InTheirs m1 have "st' = Outside" "out = merge_sides o1 t1" by (simp_all add: union_step_def)
      with 2 m1 InTheirs m show ?thesis by (simp add: image_Un) blast
    next
      case 3
      with u InTheirs m1 have "st' = InTheirs o1 (t1 @ [l])" "out = []" by (simp_all add: union_step_def)
      with 3 m1 InTheirs show ?thesis by simp
    qed
  qed
  note step = this
  let ?B = "set (pending st') \<union> set (payload (st' \<noteq> Outside) ls)"
  have run: "set (union_run st (l # ls)) = set out \<union> set (union_run st' ls)" using u by simp
  have "TrimSpace ` set (union_run st (l # ls)) = TrimSpace ` set out \<union> TrimSpace ` ?B"
    unfolding run image_Un using IH by (simp add: image_Un)
  then have "TrimSpace ` set (union_run st (l # ls)) = TrimSpace ` (set out \<union> ?B)" by (simp only: image_Un)
  note image = this
  have "set (union_run st (l # ls)) \<subseteq> set out \<union> ?B" unfolding run using IH by (meson Un_mono order_refl)
  then show ?case
    by (rule conjI [OF trans [OF image conjunct1 [OF step]] subset_trans [OF _ conjunct2 [OF step]]])
qed

lemma union_base_distinct:
  "union_base seen ls = (out, seen') \<Longrightarrow>
     distinct (filter (\<lambda>l. TrimSpace l \<noteq> []) out)
     \<and> (\<forall>l \<in> set out. TrimSpace l \<noteq> [] \<longrightarrow> l \<notin> set seen)"
proof (induction ls arbitrary: seen out seen')
  case Nil
  then show ?case by simp
next
  case (Cons l ls)
  show ?case
  proof (cases "l \<notin> set seen \<or> TrimSpace l = []")
    case True
    obtain out1 where u: "union_base (l # seen) ls = (out1, seen')" "out = l # out1"
      using Cons.prems True by (auto split: prod.splits)
    from Cons.IH [OF u(1)] u(2) True show ?thesis by auto
  next
    case False
    with Cons.prems have "union_base seen ls = (out, seen')" by simp
    from Cons.IH [OF this] show ?thesis .
  qed
qed

text \<open>Joining lines, each with its end, and splitting again gives the lines back.\<close>

lemma Join_terminated: "concat (map (\<lambda>l. l @ [c]) ls) = Join (ls @ [[]]) [c]"
proof (induction ls)
  case (Cons l ls)
  then show ?case by (cases ls) auto
qed simp

lemma raw_lines_terminated:
  "\<forall>l \<in> set ls. newline \<notin> set l \<Longrightarrow> raw_lines (concat (map (\<lambda>l. l @ [newline]) ls)) = ls"
  by (simp add: raw_lines_def Join_terminated Split_Join Let_def)

lemma raw_lines_no_newline: "l \<in> set (map drop_cr (raw_lines s)) \<Longrightarrow> newline \<notin> set l"
  using lines_no_newline [of _ s]
  by (auto simp: raw_lines_def drop_cr_def Let_def dest!: in_set_butlastD split: if_splits)

section \<open>Properties\<close>

text \<open>Whatever a file holds, the cleaned file has no conflict marker, and cleaning changes exactly
  the files that have one.\<close>

theorem cleaned_file_has_no_markers:
  "\<not> ContainsConflictMarkers (CleanConflictMarkers content)
   \<and> (CleanConflictMarkers content = content \<longleftrightarrow> \<not> ContainsConflictMarkers content)"
proof -
  let ?ls = "clean_lines False (Split content newline)"
  have "\<forall>l \<in> set (Split (Join ?ls [newline]) newline). \<not> is_marker l"
  proof (cases "?ls = []")
    case True
    then show ?thesis using blank_no_marker by (simp add: Split_def)
  next
    case False
    then have "Split (Join ?ls [newline]) newline = ?ls"
      by (rule Split_Join_lines [where s = content and t = content]) (auto dest: clean_lines_subset)
    then show ?thesis by (auto dest: clean_lines_subset)
  qed
  then have clean: "\<not> ContainsConflictMarkers (CleanConflictMarkers content)"
    by (auto simp: ContainsConflictMarkers_def CleanConflictMarkers_def list_ex_iff)
  moreover have "CleanConflictMarkers content = content" if "\<not> ContainsConflictMarkers content"
  proof -
    have "?ls = Split content newline"
      using that by (intro clean_lines_id) (auto simp: ContainsConflictMarkers_def list_ex_iff)
    then show ?thesis by (simp add: CleanConflictMarkers_def)
  qed
  ultimately show ?thesis by (metis (no_types))
qed

text \<open>The optimistic union of two versions has exactly the lines of both, none of them twice
  unless it is blank.\<close>

theorem optimistic_union_lines:
  "set (Split (OptimisticUnionMerge b w) newline) = set (Split b newline) \<union> set (Split w newline)
   \<and> distinct (filter (\<lambda>l. TrimSpace l \<noteq> []) (Split (OptimisticUnionMerge b w) newline))"
proof -
  obtain out seen where u: "union_base [] (Split b newline) = (out, seen)" by fastforce
  note s = union_base_set [OF u] and d = union_base_distinct [OF u]
  have l: "Split (OptimisticUnionMerge b w) newline = out @ dedup_acc seen (Split w newline)"
    by (simp add: OptimisticUnionMerge_lines u)
  have "set out \<inter> set (dedup_acc seen (Split w newline)) = {}" using s by (auto simp: set_dedup_acc)
  then have "distinct (filter (\<lambda>l. TrimSpace l \<noteq> []) (out @ dedup_acc seen (Split w newline)))"
    using d distinct_filter [OF distinct_dedup_acc [of seen "Split w newline"]] by auto
  with s show ?thesis unfolding l by (auto simp: set_dedup_acc)
qed

text \<open>Resolving a manifest whose conflict blocks are closed loses nothing: up to outer white space
  the result has exactly the lines outside the blocks and the lines of both sides, and every line of
  the result is one of these.\<close>

theorem manifest_union_keeps_sides:
  assumes "resolveLineUnionConflict content = Inr out"
    and "blocks_closed False (map drop_cr (raw_lines content))"
  shows "TrimSpace ` set (raw_lines out) = TrimSpace ` set (payload False (map drop_cr (raw_lines content)))
    \<and> set (raw_lines out) \<subseteq> set (payload False (map drop_cr (raw_lines content)))"
proof -
  let ?ls = "map drop_cr (raw_lines content)"
  have p: "set (payload b ls) \<subseteq> set ls" for b ls
    by (induction b ls rule: payload.induct) auto
  note r = union_run_payload [of Outside ?ls]
  have u: "TrimSpace ` set (union_run Outside ?ls) = TrimSpace ` set (payload False ?ls)"
    "set (union_run Outside ?ls) \<subseteq> set (payload False ?ls)" using r assms(2) by simp_all
  have "newline \<notin> set l" if "l \<in> set (union_run Outside ?ls)" for l
    using that u(2) p [of False ?ls] raw_lines_no_newline [of l content] by blast
  then have "raw_lines out = union_run Outside ?ls"
    using assms(1) raw_lines_terminated by (auto simp: resolveLineUnionConflict_def split: if_splits)
  with u show ?thesis by simp
qed

definition sample_manifest :: string where
  "sample_manifest = concat (map (\<lambda>l. l @ [newline])
     [''a'', ''<<<<<<< HEAD'', ''b'', ''======='', '' b'', ''c'', ''>>>>>>> w''])"

theorem manifest_union_keeps_sides_witness:
  "\<exists>out. resolveLineUnionConflict sample_manifest = Inr out \<and> raw_lines out = [''a'', ''b'', ''c'']
     \<and> TrimSpace ` set (raw_lines out) = TrimSpace ` set [''a'', ''b'', '' b'', ''c'']"
proof -
  let ?out = "concat (map (\<lambda>l. l @ [newline]) [''a'', ''b'', ''c''])"
  have raw: "raw_lines sample_manifest = [''a'', ''<<<<<<< HEAD'', ''b'', ''======='', '' b'', ''c'', ''>>>>>>> w'']"
    by code_simp
  have u: "union_run Outside (map drop_cr (raw_lines sample_manifest)) = [''a'', ''b'', ''c'']" by code_simp
  have r: "resolveLineUnionConflict sample_manifest = Inr ?out"
    unfolding resolveLineUnionConflict_def u unfolding raw by (simp add: MaxScanTokenSize_def)
  have c: "blocks_closed False (map drop_cr (raw_lines sample_manifest))"
    "payload False (map drop_cr (raw_lines sample_manifest)) = [''a'', ''b'', '' b'', ''c'']"
    "raw_lines ?out = [''a'', ''b'', ''c'']" by code_simp+
  from manifest_union_keeps_sides [OF r c(1)] r c(2,3) show ?thesis by (intro exI [of _ ?out]) simp
qed

end
