(* ===== verification/Rebase_Queue.thy ===== *)
theory Rebase_Queue
  imports Conflict_Merge
begin

text \<open>
  The integration of a worker branch, \<open>executeRebase\<close> of \<open>src/pkg/services/rebase_queue.go\<close>: a
  merge and, on conflict, four fallback tiers. Git, the file system, the resolver agent and the
  clean-up of stale lock files are outside the program and form the environment \<open>env\<close> over a world
  \<open>'w\<close>; the state carries the world and the log of what was done. The queue runs one job at a time
  and every git command holds the client's lock, so a job is a sequence of such commands. Progress
  messages are left out, and the outcome names the tier that succeeded.
\<close>

section \<open>Environment and log\<close>

record 'w env =
  env_git :: "'w \<Rightarrow> string list \<Rightarrow> 'w \<times> string \<times> bool"
  env_read :: "'w \<Rightarrow> string \<Rightarrow> string option"
  env_write :: "'w \<Rightarrow> string \<Rightarrow> string \<Rightarrow> 'w \<times> bool"
  env_sandbox :: "'w \<Rightarrow> string \<Rightarrow> string option"
  env_resolver :: "('w \<Rightarrow> string \<Rightarrow> string \<Rightarrow> 'w \<times> bool) option"
  env_reformat :: "string \<Rightarrow> string option"
  env_clean_locks :: "'w \<Rightarrow> 'w"

text \<open>The history records the git commands with their success, the files written, the runs of the resolver, and for each check
  of the index what the check had before it: the files that git listed as staged (\<open>None\<close> if it failed) and the world.\<close>

datatype 'w rebase_event = Git "string list" bool | Wrote string | Inspected "string option" 'w | Resolved bool

record 'w job =
  job_world :: 'w
  job_log :: "'w rebase_event list"

definition run_git :: "'w env \<Rightarrow> 'w job \<Rightarrow> string list \<Rightarrow> 'w job \<times> string \<times> bool" where
  "run_git env s args =
     (let (w, out, ok) = env_git env (job_world s) args
      in (\<lparr>job_world = w, job_log = job_log s @ [Git args ok]\<rparr>, out, ok))"

definition write_file :: "'w env \<Rightarrow> 'w job \<Rightarrow> string \<Rightarrow> string \<Rightarrow> 'w job \<times> bool" where
  "write_file env s path text =
     (let (w, ok) = env_write env (job_world s) path text
      in (\<lparr>job_world = w, job_log = job_log s @ [Wrote path]\<rparr>, ok))"

abbreviation git_do :: "'w env \<Rightarrow> 'w job \<Rightarrow> string list \<Rightarrow> 'w job" where
  "git_do env s args \<equiv> fst (run_git env s args)"

section \<open>The check for conflict markers in the index\<close>

definition file_has_markers :: "'w env \<Rightarrow> 'w \<Rightarrow> string \<Rightarrow> bool" where
  "file_has_markers env w file =
     (case env_sandbox env w file of
        None \<Rightarrow> False
      | Some path \<Rightarrow> (case env_read env w path of None \<Rightarrow> False | Some data \<Rightarrow> ContainsConflictMarkers data))"

definition hasStagedConflictMarkers :: "'w env \<Rightarrow> 'w job \<Rightarrow> 'w job \<times> bool" where
  "hasStagedConflictMarkers env s =
     (let (s1, out, ok) = run_git env s [''diff'', ''--name-only'', ''--cached''];
          found = ok \<and> list_ex (file_has_markers env (job_world s1)) (Fields (TrimSpace out))
      in (s1\<lparr>job_log := job_log s1 @ [Inspected (if ok then Some out else None) (job_world s1)]\<rparr>, found))"

section \<open>The tiers\<close>

text \<open>Stage everything and commit unless a staged file still has markers.\<close>

definition commit_unless_markers :: "'w env \<Rightarrow> 'w job \<Rightarrow> string \<Rightarrow> 'w job \<times> bool" where
  "commit_unless_markers env s msg =
     (let s1 = git_do env s [''add'', ''--all''];
          (s2, found) = hasStagedConflictMarkers env s1
      in if found then (s2, False)
         else let (s3, out, ok) = run_git env s2 [''commit'', ''-m'', msg] in (s3, ok))"

definition checkout_base :: "'w env \<Rightarrow> 'w job \<Rightarrow> string \<Rightarrow> 'w job \<times> bool" where
  "checkout_base env s base =
     (let (s1, out1, ok1) = run_git env s [''checkout'', base]
      in if ok1 then (s1, True)
         else let s2 = git_do env s1 [''merge'', ''--abort''];
                  s3 = git_do env s2 [''reset'', ''--hard'', ''HEAD''];
                  (s4, out4, ok4) = run_git env s3 [''checkout'', base]
              in if ok4 then (s4, True)
                 else let s5 = git_do env s4 [''checkout'', ''-b'', base];
                          (s6, out6, ok6) = run_git env s5 [''checkout'', base]
                      in (s6, ok6))"

definition conflicted_files :: "'w env \<Rightarrow> 'w job \<Rightarrow> 'w job \<times> string list" where
  "conflicted_files env s =
     (let (s1, out, ok) = run_git env s [''diff'', ''--name-only'', ''--diff-filter=U'']
      in (s1, Fields (TrimSpace out)))"

definition clean_file_markers :: "'w env \<Rightarrow> 'w job \<Rightarrow> string \<Rightarrow> 'w job \<times> bool" where
  "clean_file_markers env s path =
     (case env_read env (job_world s) path of
        None \<Rightarrow> (s, False)
      | Some content \<Rightarrow> (fst (write_file env s path (CleanConflictMarkers content)), True))"

definition tier2_file :: "'w env \<Rightarrow> 'w job \<Rightarrow> string \<Rightarrow> 'w job \<times> bool" where
  "tier2_file env s file =
     (case env_sandbox env (job_world s) file of
        None \<Rightarrow> (s, False)
      | Some path \<Rightarrow>
          if IsAutoResolvableConflictFile file then
            (case AutoResolveConflictFile (env_reformat env) path (env_read env (job_world s) path) of
               Inr (Some text) \<Rightarrow>
                 (let (s1, ok) = write_file env s path text
                  in if ok then (s1, True) else clean_file_markers env s1 path)
             | _ \<Rightarrow> clean_file_markers env s path)
          else clean_file_markers env s path)"

fun tier2_files :: "'w env \<Rightarrow> 'w job \<Rightarrow> string list \<Rightarrow> 'w job \<times> bool" where
  "tier2_files env s [] = (s, True)"
| "tier2_files env s (f # fs) =
     (let (s1, ok) = tier2_file env s f; (s2, ok2) = tier2_files env s1 fs in (s2, ok \<and> ok2))"

definition tier2 :: "'w env \<Rightarrow> 'w job \<Rightarrow> string \<Rightarrow> 'w job \<times> bool" where
  "tier2 env s branch =
     (let (s1, files) = conflicted_files env s
      in if files = [] then (s1, False)
         else let (s2, cleanedAll) = tier2_files env s1 files
              in if cleanedAll
                 then commit_unless_markers env s2 (''merge: auto-resolved conflict markers for '' @ branch)
                 else (s2, False))"

definition tier3 :: "'w env \<Rightarrow> 'w job \<Rightarrow> string \<Rightarrow> string \<Rightarrow> 'w job \<times> bool" where
  "tier3 env s branch base =
     (case env_resolver env of
        None \<Rightarrow> (s, False)
      | Some resolver \<Rightarrow>
          (let (w, ok) = resolver (job_world s) branch base;
               s1 = \<lparr>job_world = w, job_log = job_log s @ [Resolved ok]\<rparr>
           in if ok then commit_unless_markers env s1 (''merge: synthesized dual-file features for '' @ branch)
              else (s1, False)))"

definition tier4_file :: "'w env \<Rightarrow> string \<Rightarrow> 'w job \<Rightarrow> string \<Rightarrow> 'w job" where
  "tier4_file env branch s file =
     (case env_sandbox env (job_world s) file of
        None \<Rightarrow> s
      | Some path \<Rightarrow>
          (let (s1, baseContent, ok1) = run_git env s [''show'', ''HEAD:'' @ file];
               (s2, workerContent, ok2) = run_git env s1 [''show'', branch @ '':'' @ file]
           in fst (write_file env s2 path
                (CleanConflictMarkers (OptimisticUnionMerge baseContent workerContent)))))"

definition tier4 :: "'w env \<Rightarrow> 'w job \<Rightarrow> string \<Rightarrow> 'w job \<times> bool" where
  "tier4 env s branch =
     (let (s1, files) = conflicted_files env s
      in commit_unless_markers env (foldl (tier4_file env branch) s1 files)
           (''merge: optimistic union for '' @ branch))"

definition tier5 :: "'w env \<Rightarrow> 'w job \<Rightarrow> string \<Rightarrow> string \<Rightarrow> 'w job \<times> bool" where
  "tier5 env s branch base =
     (let s1 = git_do env s [''merge'', ''--abort''];
          s2 = git_do env s1 [''checkout'', base];
          (s3, out3, ok3) = run_git env s2 [''checkout'', branch, ''--'', ''.'']
      in if \<not> ok3 then (s3, False)
         else let s4 = git_do env s3 [''add'', ''-A''];
                  (s5, out5, ok5) = run_git env s4
                     [''commit'', ''-m'', ''feat: forced overlay merge of branch '' @ branch @ '' [fallback tier 5]'']
              in (s5, ok5 \<or> Contains out5 ''nothing to commit'' \<or> Contains out5 ''working tree clean''))"

section \<open>The job\<close>

datatype rebase_outcome = MergedTier nat | CheckoutFailed | AllTiersFailed

definition integrate :: "'w env \<Rightarrow> 'w job \<Rightarrow> string \<Rightarrow> string \<Rightarrow> 'w job \<times> rebase_outcome" where
  "integrate env s branch base =
     (let (s1, ok1) = checkout_base env s base
      in if \<not> ok1 then (s1, CheckoutFailed)
         else let (s2, out2, ok2) = run_git env s1
                    [''merge'', ''--no-ff'', ''-m'', ''merge: incorporate worker branch '' @ branch, branch]
         in if ok2 then (s2, MergedTier 1)
         else let (s3, ok3) = tier2 env s2 branch in if ok3 then (s3, MergedTier 2)
         else let (s4, ok4) = tier3 env s3 branch base in if ok4 then (s4, MergedTier 3)
         else let (s5, ok5) = tier4 env s4 branch in if ok5 then (s5, MergedTier 4)
         else let (s6, ok6) = tier5 env s5 branch base in if ok6 then (s6, MergedTier 5)
         else (git_do env (git_do env s6 [''merge'', ''--abort'']) [''reset'', ''--hard'', ''HEAD''], AllTiersFailed))"

definition executeRebase :: "'w env \<Rightarrow> 'w \<Rightarrow> string \<Rightarrow> string \<Rightarrow> 'w job \<times> rebase_outcome" where
  "executeRebase env w branch base =
     (let s0 = \<lparr>job_world = env_clean_locks env w, job_log = []\<rparr>;
          (s1, out, ok) = run_git env s0 [''stash'', ''--include-untracked''];
          stashed = ok \<and> \<not> Contains out ''No local changes to save'';
          (s2, res) = integrate env s1 branch base
      in (if stashed then git_do env s2 [''stash'', ''pop''] else s2, res))"

section \<open>What a log promises\<close>

fun is_merge_commit :: "'w rebase_event \<Rightarrow> bool" where
  "is_merge_commit (Git [c, m, msg] ok) \<longleftrightarrow> c = ''commit'' \<and> m = ''-m'' \<and> HasPrefix msg ''merge: ''"
| "is_merge_commit _ \<longleftrightarrow> False"

fun is_stash :: "'w rebase_event \<Rightarrow> bool" where
  "is_stash (Git (c # args) ok) \<longleftrightarrow> c = ''stash''"
| "is_stash _ \<longleftrightarrow> False"

text \<open>Every merge commit directly follows an inspection of the index: git has listed the staged files, and in the world of
  the commit none of them that can be resolved and read has conflict markers, unless git failed to list them.\<close>

definition no_staged_markers :: "'w env \<Rightarrow> string option \<Rightarrow> 'w \<Rightarrow> bool" where
  "no_staged_markers env staged w \<longleftrightarrow>
     (\<forall>out file path text. staged = Some out \<longrightarrow> file \<in> set (Fields (TrimSpace out)) \<longrightarrow> env_sandbox env w file = Some path
        \<longrightarrow> env_read env w path = Some text \<longrightarrow> \<not> ContainsConflictMarkers text)"

definition just_inspected :: "'w env \<Rightarrow> 'w rebase_event list \<Rightarrow> bool" where
  "just_inspected env log \<longleftrightarrow>
     (\<exists>pre staged w. log = pre @ [Git [''diff'', ''--name-only'', ''--cached''] (staged \<noteq> None), Inspected staged w]
        \<and> no_staged_markers env staged w)"

definition commits_checked :: "'w env \<Rightarrow> 'w rebase_event list \<Rightarrow> bool" where
  "commits_checked env log \<longleftrightarrow> (\<forall>i < length log. is_merge_commit (log ! i) \<longrightarrow> just_inspected env (take i log))"

lemma commits_checked_snoc:
  "commits_checked env (log @ [e]) \<longleftrightarrow> commits_checked env log \<and> (is_merge_commit e \<longrightarrow> just_inspected env log)"
  by (auto simp: commits_checked_def All_less_Suc nth_append)

text \<open>A part of a job only appends to the log, never touches the stash and keeps the promise.\<close>

definition good_part :: "'w env \<Rightarrow> 'w job \<Rightarrow> 'w job \<Rightarrow> bool" where
  "good_part env s s' \<longleftrightarrow> (\<exists>es. job_log s' = job_log s @ es \<and> (\<forall>e \<in> set es. \<not> is_stash e))
     \<and> (commits_checked env (job_log s) \<longrightarrow> commits_checked env (job_log s'))"

lemma good_refl [intro]: "good_part env s s"
  by (simp add: good_part_def)

lemma good_trans [trans]: "good_part env s t \<Longrightarrow> good_part env t u \<Longrightarrow> good_part env s u"
  unfolding good_part_def by (metis Un_iff append_assoc set_append)

lemma good_event:
  "\<not> is_stash e \<Longrightarrow> \<not> is_merge_commit e \<Longrightarrow> job_log s' = job_log s @ [e] \<Longrightarrow> good_part env s s'"
  by (auto simp: good_part_def commits_checked_snoc)

lemma after_git:
  assumes "good_part env s t" "run_git env t (c # as) = (u, out, ok)" "c \<notin> {''stash'', ''commit''}"
  shows "good_part env s u"
proof -
  have l: "job_log u = job_log t @ [Git (c # as) ok]" using assms(2) by (auto simp: run_git_def split: prod.splits)
  have "\<not> is_merge_commit (Git (c # as) ok)"
    using assms(3) by (cases "Git (c # as) ok" rule: is_merge_commit.cases) auto
  then have "good_part env t u" using assms(3) l by (intro good_event [of "Git (c # as) ok"]) auto
  with assms(1) show ?thesis by (rule good_trans)
qed

lemma after_git_do: "good_part env s t \<Longrightarrow> c \<notin> {''stash'', ''commit''} \<Longrightarrow> good_part env s (git_do env t (c # as))"
  by (rule after_git [of env s t c as _ "fst (snd (run_git env t (c # as)))" "snd (snd (run_git env t (c # as)))"]) simp_all

lemma after_write:
  assumes "good_part env s t" "write_file env t p x = (u, ok)"
  shows "good_part env s u"
proof -
  have "job_log u = job_log t @ [Wrote p]" using assms(2) by (auto simp: write_file_def split: prod.splits)
  then have "good_part env t u" by (intro good_event [of "Wrote p"]) auto
  with assms(1) show ?thesis by (rule good_trans)
qed

lemma file_has_markers_iff:
  "\<not> list_ex (file_has_markers env w) (Fields (TrimSpace out)) \<longleftrightarrow> no_staged_markers env (Some out) w"
  by (auto simp: no_staged_markers_def file_has_markers_def list_ex_iff split: option.splits)

lemma after_check:
  assumes "good_part env s t" "hasStagedConflictMarkers env t = (u, found)"
  shows "good_part env s u \<and> (\<not> found \<longrightarrow> just_inspected env (job_log u))"
proof -
  obtain s1 out ok where r: "run_git env t [''diff'', ''--name-only'', ''--cached''] = (s1, out, ok)" by (metis surj_pair)
  let ?staged = "if ok then Some out else None"
  have g: "good_part env s s1" by (rule after_git [OF assms(1) r]) simp
  have l: "job_log u = job_log s1 @ [Inspected ?staged (job_world s1)]"
    and f: "found \<longleftrightarrow> ok \<and> list_ex (file_has_markers env (job_world s1)) (Fields (TrimSpace out))"
    using assms(2) r by (auto simp: hasStagedConflictMarkers_def Let_def)
  have "job_log s1 = job_log t @ [Git [''diff'', ''--name-only'', ''--cached''] ok]" using r by (auto simp: run_git_def split: prod.splits)
  with l have "job_log u = job_log t @ [Git [''diff'', ''--name-only'', ''--cached''] (?staged \<noteq> None), Inspected ?staged (job_world s1)]"
    by simp
  moreover have "\<not> found \<Longrightarrow> no_staged_markers env ?staged (job_world s1)"
    using f file_has_markers_iff [of env "job_world s1" out] by (cases ok) (auto simp: no_staged_markers_def)
  ultimately have "\<not> found \<longrightarrow> just_inspected env (job_log u)" unfolding just_inspected_def by blast
  moreover have "good_part env s1 u" by (rule good_event [OF _ _ l]) simp_all
  ultimately show ?thesis using good_trans [OF g] by blast
qed

lemma after_commit:
  assumes "good_part env s t" "commit_unless_markers env t msg = (u, ok)"
  shows "good_part env s u"
proof -
  let ?s1 = "git_do env t [''add'', ''--all'']"
  obtain s2 found where c: "hasStagedConflictMarkers env ?s1 = (s2, found)" by fastforce
  have "good_part env s ?s1" by (rule after_git_do [OF assms(1)]) simp
  note g = after_check [OF this c]
  show ?thesis
  proof (cases found)
    case True
    with assms(2) c g show ?thesis by (simp add: commit_unless_markers_def Let_def)
  next
    case False
    obtain s3 out ok3 where r: "run_git env s2 [''commit'', ''-m'', msg] = (s3, out, ok3)" by (metis surj_pair)
    have l: "job_log s3 = job_log s2 @ [Git [''commit'', ''-m'', msg] ok3]"
      using r by (auto simp: run_git_def split: prod.splits)
    have "good_part env s2 s3" using g False unfolding good_part_def l commits_checked_snoc by auto
    moreover have "u = s3" using assms(2) c False r by (simp add: commit_unless_markers_def Let_def)
    ultimately show ?thesis using g good_trans by blast
  qed
qed

lemma after_conflicted: "good_part env s t \<Longrightarrow> conflicted_files env t = (u, fs) \<Longrightarrow> good_part env s u"
  by (auto simp: conflicted_files_def split: prod.splits intro: after_git)

lemma after_checkout:
  assumes "good_part env s t" "checkout_base env t base = (u, ok)"
  shows "good_part env s u"
proof -
  obtain s1 out1 ok1 where r1: "run_git env t [''checkout'', base] = (s1, out1, ok1)" by (metis surj_pair)
  let ?s3 = "git_do env (git_do env s1 [''merge'', ''--abort'']) [''reset'', ''--hard'', ''HEAD'']"
  obtain s4 out4 ok4 where r4: "run_git env ?s3 [''checkout'', base] = (s4, out4, ok4)" by (metis surj_pair)
  let ?s5 = "git_do env s4 [''checkout'', ''-b'', base]"
  obtain s6 out6 ok6 where r6: "run_git env ?s5 [''checkout'', base] = (s6, out6, ok6)" by (metis surj_pair)
  have g1: "good_part env s s1" by (rule after_git [OF assms(1) r1]) simp
  have "good_part env s ?s3" by (rule after_git_do [OF after_git_do [OF g1]]) simp_all
  then have g4: "good_part env s s4" by (rule after_git [OF _ r4]) simp
  have "good_part env s ?s5" by (rule after_git_do [OF g4]) simp
  then have g6: "good_part env s s6" by (rule after_git [OF _ r6]) simp
  have "u \<in> {s1, s4, s6}" using assms(2) r1 r4 r6 by (auto simp: checkout_base_def Let_def split: if_splits)
  with g1 g4 g6 show ?thesis by auto
qed

lemma after_clean: "good_part env s t \<Longrightarrow> clean_file_markers env t p = (u, ok) \<Longrightarrow> good_part env s u"
  by (auto simp: clean_file_markers_def split: option.splits intro: after_write [OF _ prod.collapse [symmetric]])

lemma after_tier2_file: "good_part env s t \<Longrightarrow> tier2_file env t f = (u, ok) \<Longrightarrow> good_part env s u"
  unfolding tier2_file_def
  by (auto split: option.splits if_splits sum.splits prod.splits intro: after_clean after_write)

lemma after_tier2_files: "good_part env s t \<Longrightarrow> tier2_files env t fs = (u, ok) \<Longrightarrow> good_part env s u"
proof (induction fs arbitrary: t ok)
  case Nil
  then show ?case by simp
next
  case (Cons f fs)
  obtain t1 ok1 where f: "tier2_file env t f = (t1, ok1)" by fastforce
  obtain t2 ok2 where fs: "tier2_files env t1 fs = (t2, ok2)" by fastforce
  have "good_part env s t2" using Cons.IH [OF after_tier2_file [OF Cons.prems(1) f]] fs Cons.prems(2) f by simp
  then show ?case using Cons.prems(2) f fs by simp
qed

lemma after_tier2:
  assumes "good_part env s t" "tier2 env t b = (u, ok)"
  shows "good_part env s u"
proof -
  obtain t1 files where c: "conflicted_files env t = (t1, files)" by fastforce
  obtain t2 cleaned where f: "tier2_files env t1 files = (t2, cleaned)" by fastforce
  obtain t3 ok3 where m: "commit_unless_markers env t2 (''merge: auto-resolved conflict markers for '' @ b) = (t3, ok3)"
    by fastforce
  have g1: "good_part env s t1" by (rule after_conflicted [OF assms(1) c])
  have g2: "good_part env s t2" by (rule after_tier2_files [OF g1 f])
  have g3: "good_part env s t3" by (rule after_commit [OF g2 m])
  have "u \<in> {t1, t2, t3}" using assms(2) c f m by (auto simp: tier2_def split: if_splits)
  with g1 g2 g3 show ?thesis by auto
qed

lemma after_tier3:
  assumes "good_part env s t" "tier3 env t b base = (u, ok)"
  shows "good_part env s u"
proof (cases "env_resolver env")
  case None
  with assms show ?thesis by (simp add: tier3_def)
next
  case (Some resolver)
  obtain w rok where r: "resolver (job_world t) b base = (w, rok)" by fastforce
  let ?t1 = "\<lparr>job_world = w, job_log = job_log t @ [Resolved rok]\<rparr>"
  have "good_part env t ?t1" by (rule good_event [of "Resolved rok"]) simp_all
  with assms(1) have g1: "good_part env s ?t1" by (rule good_trans)
  obtain t2 ok2 where m: "commit_unless_markers env ?t1 (''merge: synthesized dual-file features for '' @ b) = (t2, ok2)"
    by fastforce
  have g2: "good_part env s t2" by (rule after_commit [OF g1 m])
  have "u \<in> {?t1, t2}" using assms(2) Some r m by (cases rok) (simp_all add: tier3_def)
  with g1 g2 show ?thesis by auto
qed

lemma after_tier4_file:
  assumes "good_part env s t"
  shows "good_part env s (tier4_file env b t f)"
proof (cases "env_sandbox env (job_world t) f")
  case None
  with assms show ?thesis by (simp add: tier4_file_def)
next
  case (Some path)
  obtain t1 basec ok1 where r1: "run_git env t [''show'', ''HEAD:'' @ f] = (t1, basec, ok1)" by (metis surj_pair)
  obtain t2 workerc ok2 where r2: "run_git env t1 [''show'', b @ '':'' @ f] = (t2, workerc, ok2)" by (metis surj_pair)
  have "good_part env s t1" by (rule after_git [OF assms r1]) simp
  then have "good_part env s t2" by (rule after_git [OF _ r2]) simp
  from after_write [OF this prod.collapse [symmetric]] show ?thesis
    using Some r1 r2 by (simp add: tier4_file_def)
qed

lemma after_tier4:
  assumes "good_part env s t" "tier4 env t b = (u, ok)"
  shows "good_part env s u"
proof -
  obtain t1 files where c: "conflicted_files env t = (t1, files)" by fastforce
  have g: "good_part env s t' \<Longrightarrow> good_part env s (foldl (tier4_file env b) t' fs)" for t' fs
    by (induction fs arbitrary: t') (simp_all add: after_tier4_file)
  have g1: "good_part env s (foldl (tier4_file env b) t1 files)" by (rule g [OF after_conflicted [OF assms(1) c]])
  show ?thesis by (rule after_commit [OF g1]) (use assms(2) c in \<open>simp add: tier4_def\<close>)
qed

text \<open>The forced commit of the last tier is the only commit without a check; its message is no merge message.\<close>

lemma after_tier5:
  assumes "good_part env s t" "tier5 env t b base = (u, ok)"
  shows "good_part env s u"
proof -
  let ?t2 = "git_do env (git_do env t [''merge'', ''--abort'']) [''checkout'', base]"
  let ?msg = "''feat: forced overlay merge of branch '' @ b @ '' [fallback tier 5]''"
  obtain t3 out3 ok3 where r3: "run_git env ?t2 [''checkout'', b, ''--'', ''.''] = (t3, out3, ok3)" by (metis surj_pair)
  let ?t4 = "git_do env t3 [''add'', ''-A'']"
  obtain t5 out5 ok5 where r5: "run_git env ?t4 [''commit'', ''-m'', ?msg] = (t5, out5, ok5)" by (metis surj_pair)
  have "good_part env s ?t2" by (rule after_git_do [OF after_git_do [OF assms(1)]]) simp_all
  then have g3: "good_part env s t3" by (rule after_git [OF _ r3]) simp
  then have g4: "good_part env s ?t4" by (rule after_git_do) simp
  have l: "job_log t5 = job_log ?t4 @ [Git [''commit'', ''-m'', ?msg] ok5]"
    using r5 by (auto simp: run_git_def split: prod.splits)
  have "good_part env ?t4 t5" by (rule good_event [OF _ _ l]) (simp_all add: HasPrefix_def)
  with g4 have g5: "good_part env s t5" by (rule good_trans)
  have "u \<in> {t3, t5}" using assms(2) r3 r5 by (auto simp: tier5_def split: if_splits)
  with g3 g5 show ?thesis by auto
qed

lemma after_integrate:
  assumes "integrate env s b base = (u, res)"
  shows "good_part env s u"
proof -
  obtain s1 ok1 where r1: "checkout_base env s base = (s1, ok1)" by fastforce
  obtain s2 out2 ok2 where r2: "run_git env s1
      [''merge'', ''--no-ff'', ''-m'', ''merge: incorporate worker branch '' @ b, b] = (s2, out2, ok2)" by (metis surj_pair)
  obtain s3 ok3 where r3: "tier2 env s2 b = (s3, ok3)" by fastforce
  obtain s4 ok4 where r4: "tier3 env s3 b base = (s4, ok4)" by fastforce
  obtain s5 ok5 where r5: "tier4 env s4 b = (s5, ok5)" by fastforce
  obtain s6 ok6 where r6: "tier5 env s5 b base = (s6, ok6)" by fastforce
  let ?s8 = "git_do env (git_do env s6 [''merge'', ''--abort'']) [''reset'', ''--hard'', ''HEAD'']"
  have g1: "good_part env s s1" by (rule after_checkout [OF good_refl r1])
  have g2: "good_part env s s2" by (rule after_git [OF g1 r2]) simp
  have g3: "good_part env s s3" by (rule after_tier2 [OF g2 r3])
  have g4: "good_part env s s4" by (rule after_tier3 [OF g3 r4])
  have g5: "good_part env s s5" by (rule after_tier4 [OF g4 r5])
  have g6: "good_part env s s6" by (rule after_tier5 [OF g5 r6])
  have g8: "good_part env s ?s8" by (rule after_git_do [OF after_git_do [OF g6]]) simp_all
  have "u \<in> {s1, s2, s3, s4, s5, s6, ?s8}"
    using assms r1 r2 r3 r4 r5 r6 by (simp add: integrate_def split: if_splits)
  with g1 g2 g3 g4 g5 g6 g8 show ?thesis by auto
qed

section \<open>What an outcome promises\<close>

text \<open>The last event of the job proper, by its outcome.\<close>

fun succeeded :: "string \<Rightarrow> 'w rebase_event \<Rightarrow> bool" where
  "succeeded c (Git (c' # args) ok) \<longleftrightarrow> c' = c \<and> ok"
| "succeeded c _ \<longleftrightarrow> False"

definition outcome_recorded :: "rebase_outcome \<Rightarrow> 'w rebase_event list \<Rightarrow> bool" where
  "outcome_recorded res log \<longleftrightarrow> log \<noteq> [] \<and>
     (case res of
        MergedTier n \<Rightarrow>
          if n = 1 then succeeded ''merge'' (last log)
          else if n < 5 then succeeded ''commit'' (last log) \<and> is_merge_commit (last log)
          else n = 5 \<and> (\<exists>msg ok. last log = Git [''commit'', ''-m'', msg] ok)
      | CheckoutFailed \<Rightarrow> (\<exists>base. last log = Git [''checkout'', base] False)
      | AllTiersFailed \<Rightarrow> (\<exists>ok1 ok2 pre.
          log = pre @ [Git [''merge'', ''--abort''] ok1, Git [''reset'', ''--hard'', ''HEAD''] ok2]))"

lemma run_git_log: "run_git env s args = (t, out, ok) \<Longrightarrow> job_log t = job_log s @ [Git args ok]"
  by (auto simp: run_git_def split: prod.splits)

lemma git_do_log: "\<exists>ok. job_log (git_do env s args) = job_log s @ [Git args ok]"
  using run_git_log [of env s args "fst (run_git env s args)"] by (metis prod.collapse)

lemma commit_last:
  assumes "commit_unless_markers env t msg = (u, True)" "HasPrefix msg ''merge: ''"
  shows "job_log u \<noteq> [] \<and> succeeded ''commit'' (last (job_log u)) \<and> is_merge_commit (last (job_log u))"
proof -
  obtain s2 found where c: "hasStagedConflictMarkers env (git_do env t [''add'', ''--all'']) = (s2, found)" by fastforce
  obtain s3 out ok3 where r: "run_git env s2 [''commit'', ''-m'', msg] = (s3, out, ok3)" by (metis surj_pair)
  have "u = s3 \<and> ok3" using assms(1) c r by (auto simp: commit_unless_markers_def split: if_splits)
  with run_git_log [OF r] assms(2) show ?thesis by simp
qed

lemma checkout_last: "checkout_base env s base = (u, False) \<Longrightarrow> outcome_recorded CheckoutFailed (job_log u)"
  by (auto simp: checkout_base_def Let_def outcome_recorded_def split: prod.splits if_splits dest!: run_git_log)

lemma tier2_last: "tier2 env s b = (u, True) \<Longrightarrow> outcome_recorded (MergedTier 2) (job_log u)"
  by (auto simp: tier2_def outcome_recorded_def HasPrefix_def split: prod.splits if_splits dest!: commit_last)

lemma tier3_last: "tier3 env s b base = (u, True) \<Longrightarrow> outcome_recorded (MergedTier 3) (job_log u)"
  by (auto simp: tier3_def Let_def outcome_recorded_def HasPrefix_def
      split: prod.splits if_splits option.splits dest!: commit_last)

lemma tier4_last: "tier4 env s b = (u, True) \<Longrightarrow> outcome_recorded (MergedTier 4) (job_log u)"
  by (auto simp: tier4_def outcome_recorded_def HasPrefix_def split: prod.splits dest!: commit_last)

lemma tier5_last:
  assumes "tier5 env s b base = (u, True)"
  shows "outcome_recorded (MergedTier 5) (job_log u)"
proof -
  let ?t2 = "git_do env (git_do env s [''merge'', ''--abort'']) [''checkout'', base]"
  let ?msg = "''feat: forced overlay merge of branch '' @ b @ '' [fallback tier 5]''"
  obtain t3 out3 ok3 where r3: "run_git env ?t2 [''checkout'', b, ''--'', ''.''] = (t3, out3, ok3)" by (metis surj_pair)
  obtain t5 out5 ok5 where r5: "run_git env (git_do env t3 [''add'', ''-A'']) [''commit'', ''-m'', ?msg] = (t5, out5, ok5)"
    by (metis surj_pair)
  have "u = t5" using assms r3 r5 by (auto simp: tier5_def split: if_splits)
  with run_git_log [OF r5] show ?thesis by (simp add: outcome_recorded_def)
qed

lemma abort_last:
  "outcome_recorded AllTiersFailed (job_log (git_do env (git_do env s [''merge'', ''--abort'']) [''reset'', ''--hard'', ''HEAD'']))"
proof -
  obtain ok1 where l1: "job_log (git_do env s [''merge'', ''--abort'']) = job_log s @ [Git [''merge'', ''--abort''] ok1]"
    using git_do_log by blast
  obtain ok2 where
    "job_log (git_do env (git_do env s [''merge'', ''--abort'']) [''reset'', ''--hard'', ''HEAD''])
       = job_log (git_do env s [''merge'', ''--abort'']) @ [Git [''reset'', ''--hard'', ''HEAD''] ok2]"
    using git_do_log by blast
  with l1 show ?thesis by (simp add: outcome_recorded_def)
qed

lemma integrate_outcome:
  assumes "integrate env s b base = (u, res)"
  shows "outcome_recorded res (job_log u)"
proof -
  obtain s1 ok1 where r1: "checkout_base env s base = (s1, ok1)" by fastforce
  obtain s2 out2 ok2 where r2: "run_git env s1
      [''merge'', ''--no-ff'', ''-m'', ''merge: incorporate worker branch '' @ b, b] = (s2, out2, ok2)" by (metis surj_pair)
  obtain s3 ok3 where r3: "tier2 env s2 b = (s3, ok3)" by fastforce
  obtain s4 ok4 where r4: "tier3 env s3 b base = (s4, ok4)" by fastforce
  obtain s5 ok5 where r5: "tier4 env s4 b = (s5, ok5)" by fastforce
  obtain s6 ok6 where r6: "tier5 env s5 b base = (s6, ok6)" by fastforce
  have i: "integrate env s b base =
     (if \<not> ok1 then (s1, CheckoutFailed) else if ok2 then (s2, MergedTier 1) else if ok3 then (s3, MergedTier 2)
      else if ok4 then (s4, MergedTier 3) else if ok5 then (s5, MergedTier 4) else if ok6 then (s6, MergedTier 5)
      else (git_do env (git_do env s6 [''merge'', ''--abort'']) [''reset'', ''--hard'', ''HEAD''], AllTiersFailed))"
    using r1 r2 r3 r4 r5 r6 by (simp add: integrate_def)
  have m: "ok2 \<Longrightarrow> outcome_recorded (MergedTier 1) (job_log s2)"
    using run_git_log [OF r2] by (simp add: outcome_recorded_def)
  show ?thesis
    using assms unfolding i
    using r1 r3 r4 r5 r6 m checkout_last tier2_last tier3_last tier4_last tier5_last abort_last
    by (auto split: if_splits)
qed

lemma executeRebase_parts:
  obtains s1 out ok u res where
    "run_git env \<lparr>job_world = env_clean_locks env w, job_log = []\<rparr> [''stash'', ''--include-untracked''] = (s1, out, ok)"
    "integrate env s1 b base = (u, res)"
    "executeRebase env w b base =
       (if ok \<and> \<not> Contains out ''No local changes to save'' then git_do env u [''stash'', ''pop''] else u, res)"
proof -
  obtain s1 out ok where 1:
    "run_git env \<lparr>job_world = env_clean_locks env w, job_log = []\<rparr> [''stash'', ''--include-untracked''] = (s1, out, ok)"
    by (metis surj_pair)
  obtain u res where 2: "integrate env s1 b base = (u, res)" by fastforce
  from that [OF 1 2] 1 2 show thesis by (simp add: executeRebase_def)
qed

section \<open>Properties\<close>

text \<open>C12: Whatever git, the file system and the resolver do, a job makes one of the merge commits of tiers 2 to 4 only right
  after it has asked git for the staged files and read them: in the world of the commit no staged file that can be resolved and
  read has conflict markers. The one exception is that git failed to list the files, which the code takes for an index without markers.
\<close>

theorem rebase_commits_checked: "commits_checked env (job_log (fst (executeRebase env w branch base)))"
proof -
  obtain s1 out ok u res where p:
    "run_git env \<lparr>job_world = env_clean_locks env w, job_log = []\<rparr> [''stash'', ''--include-untracked''] = (s1, out, ok)"
    "integrate env s1 branch base = (u, res)"
    "executeRebase env w branch base =
       (if ok \<and> \<not> Contains out ''No local changes to save'' then git_do env u [''stash'', ''pop''] else u, res)"
    by (rule executeRebase_parts)
  have "commits_checked env (job_log s1)" using run_git_log [OF p(1)] by (simp add: commits_checked_def)
  then have c: "commits_checked env (job_log u)" using after_integrate [OF p(2)] by (simp add: good_part_def)
  obtain ok' where "job_log (git_do env u [''stash'', ''pop'']) = job_log u @ [Git [''stash'', ''pop''] ok']"
    using git_do_log by blast
  with c p(3) show ?thesis by (simp add: commits_checked_snoc)
qed

text \<open>C22: a job stashes the local changes first and, if that saved something, restores them as its very last
  step on every path; between the two it never touches the stash, and its last step is the one its
  outcome claims: a successful merge (tier 1), a successful checked merge commit (tiers 2 to 4), the
  forced commit (tier 5), a failed checkout of the base, or the abort and hard reset when every tier failed.
\<close>

theorem rebase_stash_and_outcome:
  "\<exists>out ok body ok'.
     snd (env_git env (env_clean_locks env w) [''stash'', ''--include-untracked'']) = (out, ok)
   \<and> job_log (fst (executeRebase env w branch base)) = Git [''stash'', ''--include-untracked''] ok # body
       @ (if ok \<and> \<not> Contains out ''No local changes to save'' then [Git [''stash'', ''pop''] ok'] else [])
   \<and> list_all (\<lambda>e. \<not> is_stash e) body
   \<and> outcome_recorded (snd (executeRebase env w branch base)) (Git [''stash'', ''--include-untracked''] ok # body)"
proof -
  obtain s1 out ok u res where p:
    "run_git env \<lparr>job_world = env_clean_locks env w, job_log = []\<rparr> [''stash'', ''--include-untracked''] = (s1, out, ok)"
    "integrate env s1 branch base = (u, res)"
    "executeRebase env w branch base =
       (if ok \<and> \<not> Contains out ''No local changes to save'' then git_do env u [''stash'', ''pop''] else u, res)"
    by (rule executeRebase_parts)
  obtain ok' where l': "job_log (git_do env u [''stash'', ''pop'']) = job_log u @ [Git [''stash'', ''pop''] ok']"
    using git_do_log by blast
  obtain body where b: "job_log u = job_log s1 @ body" "list_all (\<lambda>e. \<not> is_stash e) body"
    using after_integrate [OF p(2)] by (auto simp: good_part_def list_all_iff)
  have l: "job_log u = Git [''stash'', ''--include-untracked''] ok # body" using b run_git_log [OF p(1)] by simp
  have "outcome_recorded res (Git [''stash'', ''--include-untracked''] ok # body)"
    using integrate_outcome [OF p(2)] l by simp
  moreover have "snd (env_git env (env_clean_locks env w) [''stash'', ''--include-untracked'']) = (out, ok)"
    using p(1) by (auto simp: run_git_def split: prod.splits)
  ultimately show ?thesis using b p(3) l l' by (intro exI [of _ out] exI [of _ ok] exI [of _ body] exI [of _ ok']) simp
qed

end
