(* ===== verification/Token_Accounting.thy ===== *)
theory Token_Accounting
  imports Domain
begin

text \<open>
  The token ledger of \<open>src/pkg/services/token_accounting.go\<close>: usage is recorded per story, per task,
  per agent and in total, and copied into a state on demand. Counters are Go \<open>int64\<close> values, so every
  addition wraps (\<open>wrap64\<close>). The three Go maps of pointers are maps of values: a pointer is reached
  only through its map, under the lock. The abstract ledger \<open>spent\<close> sums over the recorded calls.
\<close>

section \<open>Data\<close>

record TokenUsage =
  tu_InputTokens :: int
  tu_OutputTokens :: int
  tu_ReasoningTokens :: int
  tu_CachedTokens :: int
  tu_TotalTokens :: int

record StoryTokenBreakdown =
  sb_StoryID :: string
  sb_InputTokens :: int
  sb_OutputTokens :: int
  sb_TotalTokens :: int

record token_service =
  tk_storyTokens :: "string \<rightharpoonup> StoryTokenBreakdown"
  tk_taskTokens :: "string \<rightharpoonup> TokenUsage"
  tk_agentTokens :: "string \<rightharpoonup> TokenUsage"
  tk_totalInput :: int
  tk_totalOutput :: int

definition NewTokenAccountingService :: token_service where
  "NewTokenAccountingService = \<lparr>tk_storyTokens = Map.empty, tk_taskTokens = Map.empty,
     tk_agentTokens = Map.empty, tk_totalInput = 0, tk_totalOutput = 0\<rparr>"

section \<open>Operations\<close>

definition charge_story :: "TokenUsage \<Rightarrow> string \<Rightarrow> (string \<rightharpoonup> StoryTokenBreakdown) \<Rightarrow> (string \<rightharpoonup> StoryTokenBreakdown)" where
  "charge_story usage storyID m =
     (if storyID = [] then m
      else let sb = (case m storyID of Some sb \<Rightarrow> sb
                     | None \<Rightarrow> \<lparr>sb_StoryID = storyID, sb_InputTokens = 0, sb_OutputTokens = 0, sb_TotalTokens = 0\<rparr>)
           in m(storyID \<mapsto> sb\<lparr>sb_InputTokens := wrap64 (sb_InputTokens sb + tu_InputTokens usage),
                             sb_OutputTokens := wrap64 (sb_OutputTokens sb + tu_OutputTokens usage),
                             sb_TotalTokens := wrap64 (sb_TotalTokens sb + tu_TotalTokens usage)\<rparr>))"

definition zero_usage :: TokenUsage where
  "zero_usage = \<lparr>tu_InputTokens = 0, tu_OutputTokens = 0, tu_ReasoningTokens = 0, tu_CachedTokens = 0, tu_TotalTokens = 0\<rparr>"

definition charge_usage :: "TokenUsage \<Rightarrow> string \<Rightarrow> (string \<rightharpoonup> TokenUsage) \<Rightarrow> (string \<rightharpoonup> TokenUsage)" where
  "charge_usage usage key m =
     (if key = [] then m
      else let tu = (case m key of Some tu \<Rightarrow> tu | None \<Rightarrow> zero_usage)
           in m(key \<mapsto> tu\<lparr>tu_InputTokens := wrap64 (tu_InputTokens tu + tu_InputTokens usage),
                       tu_OutputTokens := wrap64 (tu_OutputTokens tu + tu_OutputTokens usage),
                       tu_TotalTokens := wrap64 (tu_TotalTokens tu + tu_TotalTokens usage)\<rparr>))"

definition RecordLLMUsage :: "token_service \<Rightarrow> string \<Rightarrow> string \<Rightarrow> string \<Rightarrow> TokenUsage \<Rightarrow> token_service" where
  "RecordLLMUsage s storyID taskID agentID usage =
     s\<lparr>tk_totalInput := wrap64 (tk_totalInput s + tu_InputTokens usage),
       tk_totalOutput := wrap64 (tk_totalOutput s + tu_OutputTokens usage),
       tk_storyTokens := charge_story usage storyID (tk_storyTokens s),
       tk_taskTokens := charge_usage usage taskID (tk_taskTokens s),
       tk_agentTokens := charge_usage usage agentID (tk_agentTokens s)\<rparr>"

definition GetStoryBreakdown :: "token_service \<Rightarrow> string \<Rightarrow> StoryTokenBreakdown" where
  "GetStoryBreakdown s storyID =
     (case tk_storyTokens s storyID of Some sb \<Rightarrow> sb
      | None \<Rightarrow> \<lparr>sb_StoryID = storyID, sb_InputTokens = 0, sb_OutputTokens = 0, sb_TotalTokens = 0\<rparr>)"

text \<open>\<open>order\<close> is the order in which Go ranges over the keys of the map.\<close>

definition GetAllStoryBreakdowns :: "string list \<Rightarrow> token_service \<Rightarrow> StoryTokenBreakdown list" where
  "GetAllStoryBreakdowns order s =
     sort_stable (\<lambda>a b. string_less (sb_StoryID a) (sb_StoryID b))
       (List.map_filter (tk_storyTokens s) order)"

definition GetTotalBreakdown :: "token_service \<Rightarrow> int \<times> int \<times> int" where
  "GetTotalBreakdown s = (tk_totalInput s, tk_totalOutput s, wrap64 (tk_totalInput s + tk_totalOutput s))"

definition bill_story :: "token_service \<Rightarrow> Story \<Rightarrow> Story" where
  "bill_story s x = (case tk_storyTokens s (story_ID x) of None \<Rightarrow> x
     | Some sb \<Rightarrow> x\<lparr>story_InputTokens := sb_InputTokens sb, story_OutputTokens := sb_OutputTokens sb,
                   story_TokensUsed := sb_TotalTokens sb\<rparr>)"

definition bill_task :: "token_service \<Rightarrow> Task \<Rightarrow> Task" where
  "bill_task s x = (case tk_taskTokens s (task_ID x) of None \<Rightarrow> x
     | Some tu \<Rightarrow> x\<lparr>task_InputTokens := tu_InputTokens tu, task_OutputTokens := tu_OutputTokens tu,
                   task_TokensUsed := tu_TotalTokens tu\<rparr>)"

definition bill_agent :: "token_service \<Rightarrow> Agent \<Rightarrow> Agent" where
  "bill_agent s x = (case tk_agentTokens s (agent_ID x) of None \<Rightarrow> x
     | Some au \<Rightarrow> x\<lparr>agent_InputTokens := tu_InputTokens au, agent_OutputTokens := tu_OutputTokens au,
                   agent_TokensUsed := tu_TotalTokens au\<rparr>)"

definition ApplyToState :: "token_service \<Rightarrow> State \<Rightarrow> State" where
  "ApplyToState s state = state
     \<lparr>st_Metadata := (st_Metadata state)\<lparr>meta_TotalInputTokens := tk_totalInput s,
        meta_TotalOutputTokens := tk_totalOutput s,
        meta_TotalTokensUsed := wrap64 (tk_totalInput s + tk_totalOutput s)\<rparr>,
      st_Stories := map (bill_story s) (st_Stories state),
      st_Tasks := map (bill_task s) (st_Tasks state),
      st_ActiveAgents := map (bill_agent s) (st_ActiveAgents state)\<rparr>"

section \<open>The abstract ledger\<close>

record usage_call =
  uc_story :: string
  uc_task :: string
  uc_agent :: string
  uc_usage :: TokenUsage

definition record_call :: "token_service \<Rightarrow> usage_call \<Rightarrow> token_service" where
  "record_call s c = RecordLLMUsage s (uc_story c) (uc_task c) (uc_agent c) (uc_usage c)"

definition record_all :: "usage_call list \<Rightarrow> token_service" where
  "record_all cs = foldl record_call NewTokenAccountingService cs"

definition spent :: "(TokenUsage \<Rightarrow> int) \<Rightarrow> usage_call list \<Rightarrow> int" where
  "spent f cs = wrap64 (\<Sum>c\<leftarrow>cs. f (uc_usage c))"

definition charged :: "(usage_call \<Rightarrow> string) \<Rightarrow> string \<Rightarrow> usage_call list \<Rightarrow> usage_call list" where
  "charged key k cs = (if k = [] then [] else filter (\<lambda>c. key c = k) cs)"

definition story_ledger :: "usage_call list \<Rightarrow> string \<rightharpoonup> StoryTokenBreakdown" where
  "story_ledger cs k = (let own = charged uc_story k cs in if own = [] then None
     else Some \<lparr>sb_StoryID = k, sb_InputTokens = spent tu_InputTokens own,
                sb_OutputTokens = spent tu_OutputTokens own, sb_TotalTokens = spent tu_TotalTokens own\<rparr>)"

definition usage_ledger :: "(usage_call \<Rightarrow> string) \<Rightarrow> usage_call list \<Rightarrow> string \<rightharpoonup> TokenUsage" where
  "usage_ledger key cs k = (let own = charged key k cs in if own = [] then None
     else Some \<lparr>tu_InputTokens = spent tu_InputTokens own, tu_OutputTokens = spent tu_OutputTokens own,
                tu_ReasoningTokens = 0, tu_CachedTokens = 0, tu_TotalTokens = spent tu_TotalTokens own\<rparr>)"

definition ledger :: "usage_call list \<Rightarrow> token_service" where
  "ledger cs = \<lparr>tk_storyTokens = story_ledger cs, tk_taskTokens = usage_ledger uc_task cs,
     tk_agentTokens = usage_ledger uc_agent cs,
     tk_totalInput = spent tu_InputTokens cs, tk_totalOutput = spent tu_OutputTokens cs\<rparr>"

section \<open>The service keeps the ledger\<close>

lemma spent_Nil [simp]: "spent f [] = 0"
  by (simp add: spent_def)

lemma spent_snoc: "spent f (cs @ [c]) = wrap64 (spent f cs + f (uc_usage c))"
  by (simp add: spent_def)

lemma charged_snoc:
  "charged key k (cs @ [c]) = charged key k cs @ (if k \<noteq> [] \<and> key c = k then [c] else [])"
  by (simp add: charged_def)

lemma charge_story_ledger: "charge_story (uc_usage c) (uc_story c) (story_ledger cs) = story_ledger (cs @ [c])"
proof
  fix k
  show "charge_story (uc_usage c) (uc_story c) (story_ledger cs) k = story_ledger (cs @ [c]) k"
    by (cases "k = []"; cases "k = uc_story c"; cases "charged uc_story k cs")
      (simp_all add: charge_story_def story_ledger_def charged_snoc spent_snoc Let_def
        spent_snoc [of _ "[]", simplified], auto simp: charged_def spent_def add.assoc)
qed

lemma charge_usage_ledger: "charge_usage (uc_usage c) (key c) (usage_ledger key cs) = usage_ledger key (cs @ [c])"
proof
  fix k
  show "charge_usage (uc_usage c) (key c) (usage_ledger key cs) k = usage_ledger key (cs @ [c]) k"
    by (cases "k = []"; cases "k = key c"; cases "charged key k cs")
      (simp_all add: charge_usage_def usage_ledger_def charged_snoc spent_snoc Let_def zero_usage_def
        spent_snoc [of _ "[]", simplified], auto simp: charged_def spent_def add.assoc)
qed

interpretation tk: traced NewTokenAccountingService record_call "\<lambda>cs s. s = ledger cs"
proof unfold_locales
  show "NewTokenAccountingService = ledger []"
    by (auto simp: NewTokenAccountingService_def ledger_def story_ledger_def usage_ledger_def charged_def)
next
  fix cs s c
  assume "s = ledger cs"
  then show "record_call s c = ledger (cs @ [c])"
    by (simp add: record_call_def RecordLLMUsage_def ledger_def spent_snoc charge_story_ledger charge_usage_ledger)
qed

lemma record_all_ledger: "record_all cs = ledger cs"
  unfolding record_all_def by (rule tk.rel_run)

section \<open>The list of all stories\<close>

lemma sort_stable_sorted:
  assumes "\<And>x y. x \<in> set xs \<Longrightarrow> y \<in> set xs \<Longrightarrow> key x = key y \<Longrightarrow> x = y"
  shows "distinct xs \<Longrightarrow> sorted_wrt (\<lambda>a b. string_less (key a) (key b)) (sort_stable (\<lambda>a b. string_less (key a) (key b)) xs)"
  using assms
proof (induction xs)
  case Nil
  then show ?case by simp
next
  case (Cons x xs)
  let ?lt = "\<lambda>a b. string_less (key a) (key b)"
  have ins: "sorted_wrt ?lt ys \<Longrightarrow> \<forall>y \<in> set ys. key y \<noteq> key x \<Longrightarrow> sorted_wrt ?lt (insert_stable ?lt x ys)" for ys
  proof (induction ys)
    case Nil
    then show ?case by simp
  next
    case (Cons y ys)
    have "set (insert_stable ?lt x ys) = insert x (set ys)"
      by (metis mset_insert_stable set_mset_add_mset_insert set_mset_mset)
    with Cons show ?case
      by (auto dest: string_less_total intro: string_less_trans [of "key x" "key y"])
  qed
  have "sorted_wrt ?lt (sort_stable ?lt xs)" using Cons by simp
  moreover have "\<forall>y \<in> set (sort_stable ?lt xs). key y \<noteq> key x" using Cons.prems by auto
  ultimately show ?case using ins by simp
qed

text \<open>Whatever the order in which the map is ranged over, the list is the same: the recorded stories
  sorted by identifier.\<close>

lemma all_breakdowns:
  assumes "distinct order" "set order = dom (story_ledger cs)"
  shows "sorted_wrt string_less (map sb_StoryID (GetAllStoryBreakdowns order (ledger cs)))
       \<and> set (GetAllStoryBreakdowns order (ledger cs)) = ran (story_ledger cs)"
proof -
  let ?bs = "List.map_filter (story_ledger cs) order"
  have id: "story_ledger cs k = Some b \<Longrightarrow> sb_StoryID b = k" for k b
    by (auto simp: story_ledger_def Let_def split: if_splits)
  have bs: "?bs = map (\<lambda>k. the (story_ledger cs k)) order"
    using assms(2) by (auto simp: map_filter_def filter_id_conv domD intro!: map_cong)
  have ks: "map sb_StoryID ?bs = order"
    unfolding bs using assms(2) id by (auto intro!: map_idI)
  with assms(1) have "distinct (map sb_StoryID ?bs)" by (rule back_subst [of distinct _ _, OF _ sym])
  then have d: "distinct ?bs" and i: "inj_on sb_StoryID (set ?bs)" unfolding distinct_map by blast+
  have "set ?bs = ran (story_ledger cs)"
    unfolding bs using assms(2) by (force simp: ran_def image_iff)
  with sort_stable_sorted [of ?bs sb_StoryID, OF inj_onD [OF i] d] show ?thesis
    by (simp add: GetAllStoryBreakdowns_def ledger_def sorted_wrt_map)
qed

section \<open>Properties\<close>

text \<open>C23: After any sequence of recorded calls the totals and the breakdown of each story are the 64-bit sums over the calls
  charged to it, and \<open>ApplyToState\<close> changes nothing in a state but the counters: the totals of its metadata become the sums over all
  calls, and those of each story, task and agent the sums over the calls charged to it, unless no call names
  it; calls without an identifier count in the totals only.
\<close>

theorem token_ledger_exact:
  "GetTotalBreakdown (record_all cs) = (spent tu_InputTokens cs, spent tu_OutputTokens cs,
           spent (\<lambda>u. tu_InputTokens u + tu_OutputTokens u) cs)
    \<and> GetStoryBreakdown (record_all cs) sid = \<lparr>sb_StoryID = sid,
           sb_InputTokens = spent tu_InputTokens (charged uc_story sid cs),
           sb_OutputTokens = spent tu_OutputTokens (charged uc_story sid cs),
           sb_TotalTokens = spent tu_TotalTokens (charged uc_story sid cs)\<rparr>
    \<and> ApplyToState (record_all cs) st = st
      \<lparr>st_Metadata := (st_Metadata st)\<lparr>meta_TotalInputTokens := spent tu_InputTokens cs, meta_TotalOutputTokens := spent tu_OutputTokens cs,
         meta_TotalTokensUsed := spent (\<lambda>u. tu_InputTokens u + tu_OutputTokens u) cs\<rparr>,
       st_Stories := map (\<lambda>x. let own = charged uc_story (story_ID x) cs in if own = [] then x
         else x\<lparr>story_InputTokens := spent tu_InputTokens own, story_OutputTokens := spent tu_OutputTokens own,
           story_TokensUsed := spent tu_TotalTokens own\<rparr>) (st_Stories st),
       st_Tasks := map (\<lambda>t. let own = charged uc_task (task_ID t) cs in if own = [] then t
         else t\<lparr>task_InputTokens := spent tu_InputTokens own, task_OutputTokens := spent tu_OutputTokens own,
           task_TokensUsed := spent tu_TotalTokens own\<rparr>) (st_Tasks st),
       st_ActiveAgents := map (\<lambda>a. let own = charged uc_agent (agent_ID a) cs in if own = [] then a
         else a\<lparr>agent_InputTokens := spent tu_InputTokens own, agent_OutputTokens := spent tu_OutputTokens own,
           agent_TokensUsed := spent tu_TotalTokens own\<rparr>) (st_ActiveAgents st)\<rparr>"
proof -
  have total: "wrap64 (spent tu_InputTokens cs + spent tu_OutputTokens cs)
     = spent (\<lambda>u. tu_InputTokens u + tu_OutputTokens u) cs"
    by (simp add: spent_def sum_list_addf)
  have bills: "bill_story (ledger cs) x = (let own = charged uc_story (story_ID x) cs in if own = [] then x
      else x\<lparr>story_InputTokens := spent tu_InputTokens own, story_OutputTokens := spent tu_OutputTokens own,
        story_TokensUsed := spent tu_TotalTokens own\<rparr>)"
    "bill_task (ledger cs) t = (let own = charged uc_task (task_ID t) cs in if own = [] then t
      else t\<lparr>task_InputTokens := spent tu_InputTokens own, task_OutputTokens := spent tu_OutputTokens own,
        task_TokensUsed := spent tu_TotalTokens own\<rparr>)"
    "bill_agent (ledger cs) a = (let own = charged uc_agent (agent_ID a) cs in if own = [] then a
      else a\<lparr>agent_InputTokens := spent tu_InputTokens own, agent_OutputTokens := spent tu_OutputTokens own,
        agent_TokensUsed := spent tu_TotalTokens own\<rparr>)" for x t a
    by (simp_all add: bill_story_def bill_task_def bill_agent_def ledger_def story_ledger_def usage_ledger_def Let_def)
  have "ApplyToState (ledger cs) st = st
      \<lparr>st_Metadata := (st_Metadata st)\<lparr>meta_TotalInputTokens := spent tu_InputTokens cs, meta_TotalOutputTokens := spent tu_OutputTokens cs,
         meta_TotalTokensUsed := spent (\<lambda>u. tu_InputTokens u + tu_OutputTokens u) cs\<rparr>,
       st_Stories := map (bill_story (ledger cs)) (st_Stories st), st_Tasks := map (bill_task (ledger cs)) (st_Tasks st),
       st_ActiveAgents := map (bill_agent (ledger cs)) (st_ActiveAgents st)\<rparr>"
    by (simp add: ApplyToState_def ledger_def total)
  moreover have "GetTotalBreakdown (ledger cs) = (spent tu_InputTokens cs, spent tu_OutputTokens cs,
      spent (\<lambda>u. tu_InputTokens u + tu_OutputTokens u) cs)"
    by (simp add: GetTotalBreakdown_def ledger_def total)
  moreover have "GetStoryBreakdown (ledger cs) sid = \<lparr>sb_StoryID = sid,
           sb_InputTokens = spent tu_InputTokens (charged uc_story sid cs),
           sb_OutputTokens = spent tu_OutputTokens (charged uc_story sid cs),
           sb_TotalTokens = spent tu_TotalTokens (charged uc_story sid cs)\<rparr>"
    by (auto simp: GetStoryBreakdown_def ledger_def story_ledger_def Let_def)
  ultimately show ?thesis unfolding record_all_ledger bills [abs_def] by blast
qed

end
