(* ===== verification/Spec_Session.thy ===== *)
theory Spec_Session
  imports Domain
begin

text \<open>
  The specification review session of \<open>src/pkg/domain/spec_session.go\<close>: an append-only list of
  revisions with a cursor that undo, redo and checkout move. The digest function and the clock are
  arguments. A session value is a non-nil pointer; the methods' answers to a nil receiver are the ones
  for a session without revisions. Go slice indexing out of range is the result \<open>Panic\<close>.
\<close>

section \<open>Data\<close>

datatype SpecTurnKind = SpecTurnInitial | SpecTurnRefine | SpecTurnAudit | SpecTurnRollback

record SpecRevision =
  rev_Version :: int
  rev_Content :: string
  rev_SnapshotPath :: string
  rev_SHA256 :: string
  rev_Prompt :: string
  rev_Kind :: SpecTurnKind
  rev_ParentVer :: int
  rev_DiffSummary :: string
  rev_InputTokens :: int
  rev_OutputTokens :: int
  rev_TokensUsed :: int
  rev_ModelRoles :: "(string \<times> string) list"
  rev_CreatedAt :: gtime

record SpecSession =
  ss_ID :: string
  ss_ProjectPath :: string
  ss_TargetFile :: string
  ss_ActiveVerIndex :: int
  ss_Revisions :: "SpecRevision list"
  ss_CurrentSpec :: string
  ss_IsComplete :: bool
  ss_CreatedAt :: gtime
  ss_UpdatedAt :: gtime

datatype session_error = AtEarliest | AtLatest | NoRevisions | InvalidVersion int | Panic

section \<open>Operations\<close>

definition LatestRevision :: "SpecSession \<Rightarrow> SpecRevision option" where
  "LatestRevision s = (if ss_Revisions s = [] then None else Some (last (ss_Revisions s)))"

definition ActiveRevision :: "SpecSession \<Rightarrow> SpecRevision option" where
  "ActiveRevision s =
     (if ss_Revisions s = [] then None
      else if ss_ActiveVerIndex s < 0 \<or> ss_ActiveVerIndex s \<ge> int (length (ss_Revisions s)) then LatestRevision s
      else Some (ss_Revisions s ! nat (ss_ActiveVerIndex s)))"

definition CanUndo :: "SpecSession \<Rightarrow> bool" where
  "CanUndo s = (if length (ss_Revisions s) \<le> 1 then False else ss_ActiveVerIndex s > 0)"

definition CanRedo :: "SpecSession \<Rightarrow> bool" where
  "CanRedo s = (if length (ss_Revisions s) = 0 then False
     else ss_ActiveVerIndex s < int (length (ss_Revisions s)) - 1)"

text \<open>The common part of undo, redo and checkout: set the cursor, then read the revision under it.\<close>

definition move_to :: "gtime \<Rightarrow> SpecSession \<Rightarrow> int \<Rightarrow> session_error + SpecSession \<times> SpecRevision" where
  "move_to now s i =
     (if i < 0 \<or> i \<ge> int (length (ss_Revisions s)) then Inl Panic
      else let rv = ss_Revisions s ! nat i
           in Inr (s\<lparr>ss_ActiveVerIndex := i, ss_CurrentSpec := rev_Content rv, ss_UpdatedAt := now\<rparr>, rv))"

definition Undo :: "gtime \<Rightarrow> SpecSession \<Rightarrow> session_error + SpecSession \<times> SpecRevision" where
  "Undo now s = (if \<not> CanUndo s then Inl AtEarliest else move_to now s (ss_ActiveVerIndex s - 1))"

definition Redo :: "gtime \<Rightarrow> SpecSession \<Rightarrow> session_error + SpecSession \<times> SpecRevision" where
  "Redo now s = (if \<not> CanRedo s then Inl AtLatest else move_to now s (ss_ActiveVerIndex s + 1))"

definition Checkout :: "gtime \<Rightarrow> SpecSession \<Rightarrow> int \<Rightarrow> session_error + SpecSession \<times> SpecRevision" where
  "Checkout now s version =
     (if ss_Revisions s = [] then Inl NoRevisions
      else if version < 1 \<or> version > int (length (ss_Revisions s)) then Inl (InvalidVersion version)
      else move_to now s (version - 1))"

definition TotalTokensUsed :: "SpecSession \<Rightarrow> int" where
  "TotalTokensUsed s = foldl (\<lambda>total rv. wrap64 (total + rev_TokensUsed rv)) 0 (ss_Revisions s)"

definition AddRevision ::
  "(string \<Rightarrow> string) \<Rightarrow> gtime \<Rightarrow> SpecSession \<Rightarrow> string \<Rightarrow> string \<Rightarrow> SpecTurnKind \<Rightarrow> string \<Rightarrow> int
     \<Rightarrow> SpecSession \<times> SpecRevision" where
  "AddRevision sha256hex now s content prompt kind diffSummary tokensUsed =
     (let parentVer = (case ActiveRevision s of None \<Rightarrow> 0 | Some active \<Rightarrow> rev_Version active);
          rv = \<lparr>rev_Version = int (length (ss_Revisions s)) + 1, rev_Content = content, rev_SnapshotPath = [],
                rev_SHA256 = sha256hex content, rev_Prompt = prompt, rev_Kind = kind, rev_ParentVer = parentVer,
                rev_DiffSummary = diffSummary, rev_InputTokens = 0, rev_OutputTokens = 0,
                rev_TokensUsed = tokensUsed, rev_ModelRoles = [], rev_CreatedAt = now\<rparr>
      in (s\<lparr>ss_Revisions := ss_Revisions s @ [rv],
            ss_ActiveVerIndex := int (length (ss_Revisions s @ [rv])) - 1,
            ss_CurrentSpec := content, ss_UpdatedAt := rev_CreatedAt rv\<rparr>, rv))"

section \<open>Sessions in use\<close>

text \<open>A session starts without revisions and changes by these operations only; a failed move leaves it
  as it is.\<close>

datatype session_op = OpUndo gtime | OpRedo gtime | OpCheckout gtime int
  | OpAdd "string \<Rightarrow> string" gtime string string SpecTurnKind string int

definition moved :: "SpecSession \<Rightarrow> session_error + SpecSession \<times> SpecRevision \<Rightarrow> SpecSession" where
  "moved s r = (case r of Inl e \<Rightarrow> s | Inr (s', rv) \<Rightarrow> s')"

fun apply_op :: "SpecSession \<Rightarrow> session_op \<Rightarrow> SpecSession" where
  "apply_op s (OpUndo now) = moved s (Undo now s)"
| "apply_op s (OpRedo now) = moved s (Redo now s)"
| "apply_op s (OpCheckout now v) = moved s (Checkout now s v)"
| "apply_op s (OpAdd sha256hex now c p k d n) = fst (AddRevision sha256hex now s c p k d n)"

definition new_session :: "string \<Rightarrow> string \<Rightarrow> string \<Rightarrow> gtime \<Rightarrow> SpecSession" where
  "new_session i path target now = \<lparr>ss_ID = i, ss_ProjectPath = path, ss_TargetFile = target,
     ss_ActiveVerIndex = 0, ss_Revisions = [], ss_CurrentSpec = [], ss_IsComplete = False,
     ss_CreatedAt = now, ss_UpdatedAt = now\<rparr>"

definition run_session :: "SpecSession \<Rightarrow> session_op list \<Rightarrow> SpecSession" where
  "run_session s ops = foldl apply_op s ops"

section \<open>Well-formed sessions\<close>

definition numbered :: "SpecRevision list \<Rightarrow> bool" where
  "numbered rs \<longleftrightarrow> map rev_Version rs = map int [1..<Suc (length rs)]"

definition parents_older :: "SpecRevision list \<Rightarrow> bool" where
  "parents_older rs \<longleftrightarrow> list_all (\<lambda>rv. 0 \<le> rev_ParentVer rv \<and> rev_ParentVer rv < rev_Version rv) rs"

definition session_ok :: "SpecSession \<Rightarrow> bool" where
  "session_ok s \<longleftrightarrow> numbered (ss_Revisions s) \<and> parents_older (ss_Revisions s)
     \<and> (if ss_Revisions s = [] then ss_ActiveVerIndex s = 0
        else 0 \<le> ss_ActiveVerIndex s \<and> ss_ActiveVerIndex s < int (length (ss_Revisions s))
             \<and> ss_CurrentSpec s = rev_Content (ss_Revisions s ! nat (ss_ActiveVerIndex s)))"

lemma numbered_nth: "numbered rs \<Longrightarrow> i < length rs \<Longrightarrow> rev_Version (rs ! i) = int i + 1"
  unfolding numbered_def by (drule arg_cong [where f = "\<lambda>xs. xs ! i"]) (simp del: upt_Suc)

lemma numbered_snoc: "numbered rs \<Longrightarrow> rev_Version rv = int (length rs) + 1 \<Longrightarrow> numbered (rs @ [rv])"
  by (simp add: numbered_def)

lemma move_to_ok: "session_ok s \<Longrightarrow> move_to now s i = Inr (s', rv) \<Longrightarrow> session_ok s'"
  by (auto simp: session_ok_def move_to_def Let_def split: if_splits)

lemma move_to_Inr:
  "0 \<le> i \<Longrightarrow> i < int (length (ss_Revisions s)) \<Longrightarrow> move_to now s i =
     Inr (s\<lparr>ss_ActiveVerIndex := i, ss_CurrentSpec := rev_Content (ss_Revisions s ! nat i), ss_UpdatedAt := now\<rparr>,
          ss_Revisions s ! nat i)"
  by (simp add: move_to_def Let_def)

lemma AddRevision_ok:
  assumes "session_ok s"
  shows "session_ok (fst (AddRevision sha256hex now s c p k d n))"
proof -
  let ?rs = "ss_Revisions s"
  have r: "(case ActiveRevision s of None \<Rightarrow> 0 | Some active \<Rightarrow> rev_Version active) \<in> {0..int (length ?rs)}"
  proof (cases "?rs = []")
    case True
    then show ?thesis by (simp add: ActiveRevision_def)
  next
    case False
    with assms have i: "0 \<le> ss_ActiveVerIndex s" "ss_ActiveVerIndex s < int (length ?rs)"
      by (auto simp: session_ok_def)
    with False have "ActiveRevision s = Some (?rs ! nat (ss_ActiveVerIndex s))" by (simp add: ActiveRevision_def)
    moreover have "rev_Version (?rs ! nat (ss_ActiveVerIndex s)) = ss_ActiveVerIndex s + 1"
      using numbered_nth [of ?rs "nat (ss_ActiveVerIndex s)"] assms i by (auto simp: session_ok_def)
    ultimately show ?thesis using i by simp
  qed
  with assms show ?thesis
    by (auto simp: AddRevision_def Let_def session_ok_def numbered_snoc parents_older_def)
qed

lemma apply_op_ok: "session_ok s \<Longrightarrow> session_ok (apply_op s opn)"
  by (cases opn) (auto simp: moved_def Undo_def Redo_def Checkout_def AddRevision_ok
      split: sum.splits if_splits dest: move_to_ok)

lemma run_session_ok: "session_ok s \<Longrightarrow> session_ok (run_session s ops)"
  unfolding run_session_def by (induction ops arbitrary: s) (simp_all add: apply_op_ok)

lemma new_session_ok: "session_ok (new_session i p t now)"
  by (simp add: session_ok_def new_session_def numbered_def parents_older_def)

lemma run_new_session_ok: "session_ok (run_session (new_session i p t now) ops)"
  by (rule run_session_ok [OF new_session_ok])

lemma apply_op_grows: "prefix (ss_Revisions s) (ss_Revisions (apply_op s opn))"
  by (cases opn) (auto simp: moved_def Undo_def Redo_def Checkout_def move_to_def AddRevision_def Let_def
      split: sum.splits if_splits)

lemma run_session_grows: "prefix (ss_Revisions s) (ss_Revisions (run_session s ops))"
  unfolding run_session_def
proof (induction ops arbitrary: s)
  case (Cons a ops)
  with apply_op_grows [of s a] show ?case using prefix_order.trans by fastforce
qed simp

section \<open>Properties\<close>

text \<open>C24: a session that is only changed by its operations stays well formed: the versions are 1 to n in
  order, every parent is an older version or none, the cursor is on an existing revision and the current
  specification is that revision's content. So no move ever panics, and revisions already made are
  never changed or dropped.
\<close>

theorem session_type_safe:
  "session_ok (run_session (new_session i path target created) ops)
   \<and> prefix (ss_Revisions (run_session (new_session i path target created) ops))
            (ss_Revisions (run_session (new_session i path target created) (ops @ ops')))
   \<and> Undo now (run_session (new_session i path target created) ops) \<noteq> Inl Panic
   \<and> Redo now (run_session (new_session i path target created) ops) \<noteq> Inl Panic
   \<and> Checkout now (run_session (new_session i path target created) ops) v \<noteq> Inl Panic"
proof -
  let ?s = "run_session (new_session i path target created) ops"
  have ok: "session_ok ?s" by (rule run_new_session_ok)
  have "run_session (new_session i path target created) (ops @ ops') = run_session ?s ops'"
    by (simp add: run_session_def)
  then have "prefix (ss_Revisions ?s) (ss_Revisions (run_session (new_session i path target created) (ops @ ops')))"
    by (simp add: run_session_grows)
  moreover have "Undo now ?s \<noteq> Inl Panic"
    using ok by (auto simp: Undo_def CanUndo_def session_ok_def move_to_Inr split: if_splits)
  moreover have "Redo now ?s \<noteq> Inl Panic"
    using ok by (auto simp: Redo_def CanRedo_def session_ok_def move_to_Inr split: if_splits)
  moreover have "Checkout now ?s v \<noteq> Inl Panic"
    by (auto simp: Checkout_def move_to_Inr)
  ultimately show ?thesis using ok by blast
qed

lemma undo_redo:
  assumes "session_ok s" "CanUndo s"
  shows "\<exists>s1 r1 r2. Undo now1 s = Inr (s1, r1) \<and> Redo now2 s1 = Inr (s\<lparr>ss_UpdatedAt := now2\<rparr>, r2)
       \<and> ActiveRevision s = Some r2"
  using assms
  by (auto simp: Undo_def Redo_def CanUndo_def CanRedo_def ActiveRevision_def session_ok_def move_to_Inr
      split: if_splits)

lemma add_checkout:
  assumes "AddRevision sha256hex now s c p k d n = (s1, rv)"
  shows "\<exists>s3. Checkout now3 (run_session s1 ops) (rev_Version rv) = Inr (s3, rv) \<and> ss_CurrentSpec s3 = c"
proof -
  have rv: "ss_Revisions s1 = ss_Revisions s @ [rv]" "rev_Version rv = int (length (ss_Revisions s)) + 1" "rev_Content rv = c"
    using assms by (auto simp: AddRevision_def Let_def)
  obtain zs where zs: "ss_Revisions (run_session s1 ops) = ss_Revisions s @ rv # zs"
    using run_session_grows [of s1 ops] unfolding rv(1) by (auto elim: prefixE)
  show ?thesis
    by (simp add: Checkout_def zs move_to_Inr rv(2) rv(3) nth_append)
qed

text \<open>C25: in any such session that can undo, an undo succeeds and a redo after it gives back the same session
  and the revision that was active before (only the time of the last update differs); and the revision
  that \<open>AddRevision\<close> then returns is the one that a checkout of its version finds after any further
  operations, with the content that was added.
\<close>

theorem session_roundtrips:
  assumes "CanUndo (run_session (new_session i path target created) ops)"
    and "AddRevision sha256hex now (run_session (new_session i path target created) ops) c p k d n = (s2, rv)"
  shows "(\<exists>s1 r1 r2. Undo now1 (run_session (new_session i path target created) ops) = Inr (s1, r1)
      \<and> Redo now2 s1 = Inr ((run_session (new_session i path target created) ops)\<lparr>ss_UpdatedAt := now2\<rparr>, r2)
      \<and> ActiveRevision (run_session (new_session i path target created) ops) = Some r2)
    \<and> (\<exists>s3. Checkout now3 (run_session s2 ops') (rev_Version rv) = Inr (s3, rv) \<and> ss_CurrentSpec s3 = c)"
  using undo_redo [OF run_new_session_ok assms(1)] add_checkout [OF assms(2)] by blast

text \<open>A session with two drafts: the second is undone and redone, a third is added after the undo.\<close>

definition two_drafts :: "session_op list" where
  "two_drafts = [OpAdd (\<lambda>x. ''h'' @ x) 1 ''draft one'' ''write it'' SpecTurnInitial [] 10,
                 OpAdd (\<lambda>x. ''h'' @ x) 2 ''draft two'' ''shorter'' SpecTurnRefine ''-3'' 20]"

lemma session_roundtrips_witness:
  "(\<exists>s1 r1 r2. Undo 5 (run_session (new_session ''s'' ''/p'' ''spec.md'' 0) two_drafts) = Inr (s1, r1)
      \<and> Redo 6 s1 = Inr ((run_session (new_session ''s'' ''/p'' ''spec.md'' 0) two_drafts)\<lparr>ss_UpdatedAt := 6\<rparr>, r2)
      \<and> ActiveRevision (run_session (new_session ''s'' ''/p'' ''spec.md'' 0) two_drafts) = Some r2)
    \<and> (\<exists>s3. Checkout 7 (run_session (fst (AddRevision (\<lambda>x. x) 3 (run_session (new_session ''s'' ''/p'' ''spec.md'' 0) two_drafts)
                                      ''draft three'' ''more'' SpecTurnAudit [] 1)) [OpUndo 8])
                (rev_Version (snd (AddRevision (\<lambda>x. x) 3 (run_session (new_session ''s'' ''/p'' ''spec.md'' 0) two_drafts)
                                      ''draft three'' ''more'' SpecTurnAudit [] 1)))
              = Inr (s3, snd (AddRevision (\<lambda>x. x) 3 (run_session (new_session ''s'' ''/p'' ''spec.md'' 0) two_drafts)
                                      ''draft three'' ''more'' SpecTurnAudit [] 1))
           \<and> ss_CurrentSpec s3 = ''draft three'')"
proof -
  have "CanUndo (run_session (new_session ''s'' ''/p'' ''spec.md'' 0) two_drafts)"
    by (simp add: two_drafts_def run_session_def new_session_def AddRevision_def Let_def CanUndo_def)
  from session_roundtrips [OF this prod.collapse [symmetric]] show ?thesis .
qed

end
