(* ===== verification/Task_Escalation.thy ===== *)
theory Task_Escalation
  imports Domain
begin

text \<open>
  The escalation ladder of a failing task, \<open>src/pkg/services/task_escalator.go\<close>, with the getters of its
  configuration (\<open>escalation_types.go\<close>) and the model test \<open>IsThinkingOnlyModel\<close>. A pointer to a Go bool
  is an option. The decision's free-text reason is left out. \<open>None\<close> as a decision is the Go panic of an
  index below zero, which only a negative upgrade counter can cause.
\<close>

section \<open>Configuration\<close>

record TaskEscalationConfig =
  esc_Enabled :: bool
  esc_ThinkingThresholdTurns :: int
  esc_ModelUpgradeThresholdTurns :: int
  esc_MaxModelUpgrades :: int
  esc_SplitOnMaxUpgrades :: "bool option"
  esc_CleanWorktreeOnEscalate :: "bool option"
  esc_UpgradedModels :: "string list"

definition GetThinkingThresholdTurns :: "TaskEscalationConfig \<Rightarrow> int" where
  "GetThinkingThresholdTurns c = (if esc_ThinkingThresholdTurns c > 0 then esc_ThinkingThresholdTurns c else 2)"

definition GetModelUpgradeThresholdTurns :: "TaskEscalationConfig \<Rightarrow> int" where
  "GetModelUpgradeThresholdTurns c =
     (if esc_ModelUpgradeThresholdTurns c > 0 then esc_ModelUpgradeThresholdTurns c else 2)"

definition GetMaxModelUpgrades :: "TaskEscalationConfig \<Rightarrow> int" where
  "GetMaxModelUpgrades c = (if esc_MaxModelUpgrades c > 0 then esc_MaxModelUpgrades c else 2)"

definition IsSplitOnMaxUpgradesEnabled :: "TaskEscalationConfig \<Rightarrow> bool" where
  "IsSplitOnMaxUpgradesEnabled c = (case esc_SplitOnMaxUpgrades c of Some b \<Rightarrow> b | None \<Rightarrow> True)"

definition IsCleanWorktreeOnEscalateEnabled :: "TaskEscalationConfig \<Rightarrow> bool" where
  "IsCleanWorktreeOnEscalateEnabled c = (case esc_CleanWorktreeOnEscalate c of Some b \<Rightarrow> b | None \<Rightarrow> True)"

definition IsThinkingOnlyModel :: "string \<Rightarrow> bool" where
  "IsThinkingOnlyModel model =
     (let m = TrimPrefix (ToLower (TrimSpace model)) ''models/''
      in Contains m ''3.1-pro'' \<or> Contains m ''3.6-pro'' \<or> Contains m ''2.5-pro'' \<or> Contains m ''o1''
       \<or> Contains m ''o3-mini'' \<or> Contains m ''thinking-only'' \<or> Contains m ''reasoning-only'')"

section \<open>The escalator\<close>

record ProgressiveTaskEscalator =
  pe_cfg :: TaskEscalationConfig
  pe_availableUpgradedModels :: "string list"

definition NewProgressiveTaskEscalator :: "TaskEscalationConfig \<Rightarrow> string list \<Rightarrow> ProgressiveTaskEscalator" where
  "NewProgressiveTaskEscalator cfg available =
     (let upgrades = (if length (esc_UpgradedModels cfg) = 0 then available else esc_UpgradedModels cfg)
      in \<lparr>pe_cfg = cfg, pe_availableUpgradedModels = upgrades\<rparr>)"

record EscalationDecision =
  dec_EnableThinking :: bool
  dec_UpgradeModel :: bool
  dec_TargetModel :: string
  dec_ShouldSplit :: bool
  dec_CleanWorktree :: bool

definition selectUpgradedModel :: "ProgressiveTaskEscalator \<Rightarrow> int \<Rightarrow> string option" where
  "selectUpgradedModel e currentUpgrades =
     (let models = pe_availableUpgradedModels e
      in if length models = 0 then Some []
         else let idx = (if currentUpgrades \<ge> int (length models) then int (length models) - 1 else currentUpgrades)
              in if idx < 0 then None else Some (models ! nat idx))"

definition thinking_threshold :: "TaskEscalationConfig \<Rightarrow> Task \<Rightarrow> int" where
  "thinking_threshold cfg task =
     (let complexity0 = ToUpper (TrimSpace (task_Complexity task));
          complexity = (if complexity0 \<noteq> ''LOW'' \<and> complexity0 \<noteq> ''HIGH'' then ''MEDIUM'' else complexity0);
          threshold = GetThinkingThresholdTurns cfg
      in if complexity = ''HIGH'' \<and> threshold > 1 then 1 else threshold)"

definition EvaluateEscalation :: "ProgressiveTaskEscalator \<Rightarrow> Task option \<Rightarrow> int \<Rightarrow> EscalationDecision option" where
  "EvaluateEscalation e task_ptr turn =
     (let baseline = \<lparr>dec_EnableThinking = False, dec_UpgradeModel = False, dec_TargetModel = [],
                      dec_ShouldSplit = False, dec_CleanWorktree = False\<rparr>
      in case task_ptr of None \<Rightarrow> Some baseline
      | Some task \<Rightarrow>
        if \<not> esc_Enabled (pe_cfg e) then Some baseline
        else let thinkingThreshold = thinking_threshold (pe_cfg e) task;
                 modelUpgradeThreshold = GetModelUpgradeThresholdTurns (pe_cfg e);
                 totalFails = task_Retries task
        in if task_ModelUpgrades task \<ge> GetMaxModelUpgrades (pe_cfg e) \<and> IsSplitOnMaxUpgradesEnabled (pe_cfg e)
           then Some (baseline\<lparr>dec_EnableThinking := True, dec_ShouldSplit := True, dec_CleanWorktree := True\<rparr>)
           else if totalFails \<ge> wrap64 (thinkingThreshold + modelUpgradeThreshold) then
             (case selectUpgradedModel e (task_ModelUpgrades task) of None \<Rightarrow> None
              | Some targetModel \<Rightarrow> Some
                 \<lparr>dec_EnableThinking = IsThinkingOnlyModel targetModel
                      \<or> totalFails \<ge> wrap64 (wrap64 (thinkingThreshold + modelUpgradeThreshold) + 1),
                  dec_UpgradeModel = (targetModel \<noteq> []), dec_TargetModel = targetModel, dec_ShouldSplit = False,
                  dec_CleanWorktree = IsCleanWorktreeOnEscalateEnabled (pe_cfg e)\<rparr>)
           else if totalFails \<ge> thinkingThreshold \<or> turn \<ge> thinkingThreshold
           then Some (baseline\<lparr>dec_EnableThinking := True\<rparr>)
           else Some baseline)"

section \<open>Splitting\<close>

definition split_suffixes :: "string list" where
  "split_suffixes = [''-A'', ''-B'', ''-C'']"

definition split_phases :: "string list" where
  "split_phases = [''Core Models & Interfaces'', ''Business Logic Implementation'', ''Integrations & Verification'']"

definition split_part_numbers :: "string list" where
  "split_part_numbers = [''1'', ''2'', ''3'']"

definition split_part :: "Task \<Rightarrow> nat \<Rightarrow> string \<Rightarrow> nat \<Rightarrow> Task" where
  "split_part task filesPerSubtask prevSubtaskID i =
     (let n = length (task_TargetFiles task);
          startIdx = min (i * filesPerSubtask) n;
          endIdx = min (i * filesPerSubtask + filesPerSubtask) n
      in (mk_task (task_ID task @ split_suffixes ! i)
            (task_Title task @ '' (Part '' @ split_part_numbers ! i @ '': '' @ split_phases ! i @ '')'') TaskPending)
         \<lparr>task_Description := ''Decomposed subtask from high-complexity parent '' @ task_ID task @ ''.'' @ [newline]
             @ ''Phase: '' @ split_phases ! i @ ''.'' @ [newline] @ ''Original objective: '' @ task_Description task,
           task_ChangeType := task_ChangeType task,
           task_DependsOn := (if i = 0 then task_DependsOn task else [prevSubtaskID]),
           task_TargetFiles := take (endIdx - startIdx) (drop startIdx (task_TargetFiles task)),
           task_StoryID := task_StoryID task, task_Complexity := ''MEDIUM'',
           task_ParentTaskID := task_ID task, task_Retries := 0, task_MaxRetries := task_MaxRetries task\<rparr>)"

fun split_parts :: "Task \<Rightarrow> nat \<Rightarrow> string \<Rightarrow> nat list \<Rightarrow> Task list" where
  "split_parts task filesPerSubtask prevSubtaskID [] = []"
| "split_parts task filesPerSubtask prevSubtaskID (i # is) =
     (let subtask = split_part task filesPerSubtask prevSubtaskID i
      in subtask # split_parts task filesPerSubtask (task_ID subtask) is)"

definition splitCount :: "Task \<Rightarrow> nat" where
  "splitCount task = (if length (task_TargetFiles task) \<ge> 4 then 3 else 2)"

text \<open>The only error is the nil task.\<close>

definition SplitTask :: "Task option \<Rightarrow> unit + Task list" where
  "SplitTask task_ptr = (case task_ptr of None \<Rightarrow> Inl ()
     | Some task \<Rightarrow>
        (let parts = splitCount task;
             per = (length (task_TargetFiles task) + parts - 1) div parts;
             filesPerSubtask = (if per \<le> 0 then 1 else per)
         in Inr (split_parts task filesPerSubtask [] [0..<parts])))"

section \<open>Properties\<close>

lemma splitCount_cases: "splitCount t = 2 \<or> splitCount t = 3"
  by (simp add: splitCount_def)

lemma split_parts_2: "[0..<2] = [0, 1 :: nat]" and split_parts_3: "[0..<3] = [0, 1, 2 :: nat]"
  by (simp_all add: upt_rec)

text \<open>The parts of a split, field by field.\<close>

lemma split_part_fields [simp]:
  "task_ID (split_part t k p i) = task_ID t @ split_suffixes ! i"
  "task_DependsOn (split_part t k p i) = (if i = 0 then task_DependsOn t else [p])"
  "task_TargetFiles (split_part t k p i) = take k (drop (i * k) (task_TargetFiles t))"
  "task_StoryID (split_part t k p i) = task_StoryID t" "task_ParentTaskID (split_part t k p i) = task_ID t"
  "task_Status (split_part t k p i) = TaskPending" "task_Retries (split_part t k p i) = 0"
  by (simp_all add: split_part_def mk_task_def Let_def min_def)

lemma chunks_cover:
  "length xs \<le> 2 * k \<Longrightarrow> take k xs @ take k (drop k xs) = xs"
  "length xs \<le> 3 * k \<Longrightarrow> take k xs @ take k (drop k xs) @ take k (drop (2 * k) xs) = xs"
proof -
  show "length xs \<le> 2 * k \<Longrightarrow> take k xs @ take k (drop k xs) = xs" by simp
  assume "length xs \<le> 3 * k"
  then have "take k (drop k xs) @ take k (drop (2 * k) xs) = drop k xs"
    using append_take_drop_id [of k "drop k xs"] by (simp add: mult_2)
  then show "take k xs @ take k (drop k xs) @ take k (drop (2 * k) xs) = xs" by simp
qed

text \<open>splitting a task gives two or three pending subtasks that partition its target files in order, form
  a chain behind the dependencies of the task, and have distinct identifiers that extend the task's.
\<close>

theorem split_partitions_files:
  "\<exists>ts. SplitTask (Some task) = Inr ts \<and> length ts = splitCount task
     \<and> concat (map task_TargetFiles ts) = task_TargetFiles task
     \<and> map task_DependsOn ts = task_DependsOn task # map (\<lambda>t. [task_ID t]) (butlast ts)
     \<and> distinct (map task_ID ts)
     \<and> list_all (\<lambda>t. prefix (task_ID task) (task_ID t) \<and> task_ID t \<noteq> task_ID task
           \<and> task_ParentTaskID t = task_ID task \<and> task_StoryID t = task_StoryID task
           \<and> task_Status t = TaskPending \<and> task_Retries t = 0) ts"
proof -
  let ?n = "length (task_TargetFiles task)"
  define per where "per = (let p = (?n + splitCount task - 1) div splitCount task in if p \<le> 0 then 1 else p)"
  have s: "SplitTask (Some task) = Inr (split_parts task per [] [0..<splitCount task])"
    by (simp add: SplitTask_def per_def Let_def)
  have cover: "?n \<le> splitCount task * per" "0 < per"
    using splitCount_cases [of task] by (auto simp: per_def Let_def)
  show ?thesis
  proof (cases "splitCount task = 2")
    case True
    with cover s chunks_cover(1) [of "task_TargetFiles task" per] show ?thesis
      by (simp add: split_parts_2 split_suffixes_def Let_def)
  next
    case False
    with splitCount_cases have 3: "splitCount task = 3" by blast
    with cover s chunks_cover(2) [of "task_TargetFiles task" per] show ?thesis
      by (simp add: split_parts_3 split_suffixes_def Let_def)
  qed
qed

end
