(* ===== verification/State_Store.thy ===== *)
theory State_Store
  imports Domain
begin

text \<open>
  The SQLite repository of \<open>src/pkg/infrastructure/storage\<close>: optimistic concurrency on a version column,
  relation groups that are rewritten only when their content hash has changed, and the queries that load
  a state. A table is its list of rows in row order, each with its \<open>state_id\<close>; the SQL statements of the
  source are the list operations \<open>upsert\<close> (\<open>INSERT .. ON CONFLICT(key) DO UPDATE\<close>), \<open>insert_new\<close>
  (\<open>INSERT\<close> under the table's unique keys), \<open>insert_ignore\<close> (\<open>ON CONFLICT DO NOTHING\<close>), filters and
  sorts. Foreign keys are declared but not enforced, as the connection never turns them on.

  Arguments: \<open>fp\<close> is the content hash (SHA-256 of the JSON text), \<open>uuid\<close> the fresh identifiers,
  \<open>action_name\<close> the formatted fall-back identifier of an action, \<open>healthy\<close> whether the database executes
  the transaction at all. Times compare chronologically.
\<close>

section \<open>SQL statements on tables\<close>

definition upsert :: "('r \<Rightarrow> 'k) \<Rightarrow> ('r \<Rightarrow> 'r \<Rightarrow> 'r) \<Rightarrow> 'r list \<Rightarrow> 'r \<Rightarrow> 'r list" where
  "upsert key upd rows new =
     (if list_ex (\<lambda>r. key r = key new) rows
      then map (\<lambda>r. if key r = key new then upd r new else r) rows
      else rows @ [new])"

definition insert_ignore :: "('r \<Rightarrow> 'k) \<Rightarrow> 'r list \<Rightarrow> 'r \<Rightarrow> 'r list" where
  "insert_ignore key rows new = (if list_ex (\<lambda>r. key r = key new) rows then rows else rows @ [new])"

definition insert_new :: "('r \<Rightarrow> 'r \<Rightarrow> bool) \<Rightarrow> 'r list \<Rightarrow> 'r \<Rightarrow> 'r list option" where
  "insert_new clash rows new = (if list_ex (clash new) rows then None else Some (rows @ [new]))"

fun insert_all :: "('r list \<Rightarrow> 'r \<Rightarrow> 'r list option) \<Rightarrow> 'r list \<Rightarrow> 'r list \<Rightarrow> 'r list option" where
  "insert_all ins rows [] = Some rows"
| "insert_all ins rows (n # ns) = (case ins rows n of None \<Rightarrow> None | Some rows' \<Rightarrow> insert_all ins rows' ns)"

section \<open>The database\<close>

record db =
  db_state :: "State list"
  db_stories :: "(string \<times> Story) list"
  db_tasks :: "(string \<times> Task) list"
  db_clarifications :: "(string \<times> Clarification) list"
  db_actions :: "(string \<times> Action) list"
  db_files :: "(string \<times> FileInfo) list"
  db_criteria :: "(string \<times> ValidationCriterion) list"
  db_agents :: "(string \<times> Agent) list"
  db_contracts :: "(string \<times> StoryContract) list"
  db_phases :: "(string \<times> ReviewPhase) list"
  db_scenarios :: "(string \<times> QAScenario) list"
  db_findings :: "(string \<times> QAFinding) list"

text \<open>The columns of the tables: what a row keeps of a value.\<close>

definition nullTimePtr :: "gtime option \<Rightarrow> gtime option" where
  "nullTimePtr t = (if t = Some 0 then None else t)"

definition state_columns :: "int \<Rightarrow> State \<Rightarrow> State" where
  "state_columns version s = s\<lparr>st_Version := version, st_Clarifications := [], st_ValidationCriteria := [],
     st_Stories := [], st_Tasks := [], st_ActiveAgents := [], st_Files := [], st_LastActions := [],
     st_StoryContracts := [], st_ReviewPhases := [], st_QAScenarios := [], st_QAFindings := [], st_Orders := []\<rparr>"

definition story_columns :: "string \<Rightarrow> Story \<Rightarrow> Story" where
  "story_columns sid s = s\<lparr>story_StateID := sid, story_StartedAt := nullTimePtr (story_StartedAt s),
     story_CompletedAt := nullTimePtr (story_CompletedAt s)\<rparr>"

definition task_columns :: "Task \<Rightarrow> Task" where
  "task_columns t = t\<lparr>task_StartedAt := nullTimePtr (task_StartedAt t),
     task_CompletedAt := nullTimePtr (task_CompletedAt t), task_FailureEnvelope := None,
     task_RecoveryDirective := [], task_UserDirectives := [], task_StallCount := 0,
     task_LastResortUsed := False, task_FallbackUsed := False, task_Complexity := [],
     task_ModelUpgrades := 0, task_ParentTaskID := []\<rparr>"

definition clarification_columns :: "string \<Rightarrow> Clarification \<Rightarrow> Clarification" where
  "clarification_columns fresh c =
     c\<lparr>clar_ID := (if clar_ID c = [] then fresh else clar_ID c), clar_TaskID := []\<rparr>"

definition phase_columns :: "ReviewPhase \<Rightarrow> ReviewPhase" where
  "phase_columns p = p\<lparr>rp_InputTokens := 0, rp_OutputTokens := 0\<rparr>"

section \<open>Saving one relation group\<close>

datatype store_error = VersionConflict | DuplicateTask string | UniqueViolation | DatabaseError | NoRows

definition saveStories :: "State \<Rightarrow> db \<Rightarrow> db" where
  "saveStories s d =
     (let sid = st_ID s
      in if st_Stories s = [] then d\<lparr>db_stories := filter (\<lambda>r. fst r \<noteq> sid) (db_stories d)\<rparr>
         else let rows = foldl (upsert (\<lambda>r. story_ID (snd r))
                     (\<lambda>old new. (fst new, (snd new)\<lparr>story_CreatedAt := story_CreatedAt (snd old)\<rparr>)))
                     (db_stories d) (map (\<lambda>x. (sid, story_columns sid x)) (st_Stories s))
              in d\<lparr>db_stories := filter (\<lambda>r. \<not> (fst r = sid \<and> story_ID (snd r) \<notin> set (map story_ID (st_Stories s)))) rows\<rparr>)"

fun first_duplicate :: "string list \<Rightarrow> string list \<Rightarrow> string option" where
  "first_duplicate seen [] = None"
| "first_duplicate seen (x # xs) = (if x \<in> set seen then Some x else first_duplicate (x # seen) xs)"

definition saveTasks :: "State \<Rightarrow> db \<Rightarrow> store_error + db" where
  "saveTasks s d =
     (if st_Tasks s = [] then Inr d
      else case first_duplicate [] (map task_ID (st_Tasks s)) of Some i \<Rightarrow> Inl (DuplicateTask i)
      | None \<Rightarrow>
         (let sid = st_ID s;
              ids = map task_ID (st_Tasks s);
              storyIDs = filter (\<lambda>x. x \<noteq> []) (map task_StoryID (st_Tasks s));
              rows = foldl (upsert (\<lambda>r. task_ID (snd r))
                       (\<lambda>old new. (fst new, (snd new)\<lparr>task_CreatedAt := task_CreatedAt (snd old)\<rparr>)))
                       (db_tasks d) (map (\<lambda>t. (sid, task_columns t)) (st_Tasks s))
          in Inr (d\<lparr>db_tasks := filter (\<lambda>r. \<not> (fst r = sid
               \<and> (storyIDs = [] \<or> task_StoryID (snd r) \<in> set storyIDs) \<and> task_ID (snd r) \<notin> set ids)) rows\<rparr>)))"

definition saveClarifications :: "(nat \<Rightarrow> string) \<Rightarrow> State \<Rightarrow> db \<Rightarrow> store_error + db" where
  "saveClarifications uuid s d =
     (case insert_all (insert_new (\<lambda>a b. clar_ID (snd a) = clar_ID (snd b)))
             (filter (\<lambda>r. fst r \<noteq> st_ID s) (db_clarifications d))
             (map (\<lambda>(i, c). (st_ID s, clarification_columns (uuid i) c)) (enumerate 0 (st_Clarifications s))) of
        None \<Rightarrow> Inl UniqueViolation
      | Some rows \<Rightarrow> Inr (d\<lparr>db_clarifications := rows\<rparr>))"

definition saveActions :: "(State \<Rightarrow> Action \<Rightarrow> string) \<Rightarrow> State \<Rightarrow> db \<Rightarrow> db" where
  "saveActions action_name s d =
     d\<lparr>db_actions := foldl (insert_ignore (\<lambda>r. act_ID (snd r))) (db_actions d)
         (map (\<lambda>a. (st_ID s, a\<lparr>act_ID := (if act_ID a = [] then action_name s a else act_ID a)\<rparr>)) (st_LastActions s))\<rparr>"

text \<open>Workspace files, validation criteria and agents have the same three statements.\<close>

definition replace_rows :: "('a \<Rightarrow> 'k) \<Rightarrow> (string \<times> 'a \<Rightarrow> 'k2) \<Rightarrow> string \<Rightarrow> 'a list \<Rightarrow> (string \<times> 'a) list \<Rightarrow> (string \<times> 'a) list" where
  "replace_rows item_key row_key sid xs rows =
     (if xs = [] then filter (\<lambda>r. fst r \<noteq> sid) rows
      else filter (\<lambda>r. \<not> (fst r = sid \<and> item_key (snd r) \<notin> set (map item_key xs)))
             (foldl (upsert row_key (\<lambda>old new. new)) rows (map (Pair sid) xs)))"

definition saveWorkspaceFiles :: "State \<Rightarrow> db \<Rightarrow> db" where
  "saveWorkspaceFiles s d =
     d\<lparr>db_files := replace_rows file_Path (\<lambda>r. (file_Path (snd r), fst r)) (st_ID s) (st_Files s) (db_files d)\<rparr>"

definition saveValidationCriteria :: "State \<Rightarrow> db \<Rightarrow> db" where
  "saveValidationCriteria s d =
     d\<lparr>db_criteria := replace_rows crit_ID (\<lambda>r. crit_ID (snd r)) (st_ID s) (st_ValidationCriteria s) (db_criteria d)\<rparr>"

definition saveActiveAgents :: "State \<Rightarrow> db \<Rightarrow> db" where
  "saveActiveAgents s d =
     d\<lparr>db_agents := replace_rows agent_ID (\<lambda>r. agent_ID (snd r)) (st_ID s) (st_ActiveAgents s) (db_agents d)\<rparr>"

definition phase_key :: "ReviewPhase \<Rightarrow> string \<times> string \<times> string \<times> string \<times> int" where
  "phase_key p = (rp_StoryID p, rp_TaskID p, rp_Role p, rp_ArtifactID p, rp_Attempt p)"

text \<open>The loop skips later phases with the same text key; the table's unique key is the tuple.\<close>

definition phase_text_key :: "ReviewPhase \<Rightarrow> string" where
  "phase_text_key p = rp_StoryID p @ '':'' @ rp_TaskID p @ '':'' @ rp_Role p @ '':'' @ rp_ArtifactID p @ '':'' @ fmt_d (rp_Attempt p)"

text \<open>The update of a conflicting phase keeps its row, with the row's \<open>state_id\<close>; both the insertion and the
  changed identifier have to respect the primary key.\<close>

definition insert_phase :: "(string \<times> ReviewPhase) list \<Rightarrow> string \<times> ReviewPhase \<Rightarrow> (string \<times> ReviewPhase) list option" where
  "insert_phase rows new =
     (let same = (\<lambda>r. phase_key (snd r) = phase_key (snd new))
      in if list_ex (\<lambda>r. \<not> same r \<and> rp_ID (snd r) = rp_ID (snd new)) rows then None
         else Some (if list_ex same rows
           then map (\<lambda>r. if same r then (fst r, (snd r)\<lparr>rp_ID := rp_ID (snd new), rp_Status := rp_Status (snd new),
                        rp_TerminalReason := rp_TerminalReason (snd new), rp_CompletedAt := rp_CompletedAt (snd new),
                        rp_TokensUsed := rp_TokensUsed (snd new)\<rparr>) else r) rows
           else rows @ [new]))"

fun first_by_key :: "('a \<Rightarrow> 'k) \<Rightarrow> 'k list \<Rightarrow> 'a list \<Rightarrow> 'a list" where
  "first_by_key key seen [] = []"
| "first_by_key key seen (x # xs) =
     (if key x \<in> set seen then first_by_key key seen xs else x # first_by_key key (key x # seen) xs)"

definition saveQAReviews :: "State \<Rightarrow> db \<Rightarrow> store_error + db" where
  "saveQAReviews s d =
     (let sid = st_ID s
      in case insert_all (insert_new (\<lambda>a b. fst a = fst b \<and> sc_StoryID (snd a) = sc_StoryID (snd b)))
                (filter (\<lambda>r. fst r \<noteq> sid) (db_contracts d)) (map (Pair sid) (st_StoryContracts s)) of
        None \<Rightarrow> Inl UniqueViolation
      | Some contracts \<Rightarrow>
      (case insert_all insert_phase (filter (\<lambda>r. fst r \<noteq> sid) (db_phases d))
              (map (\<lambda>p. (sid, phase_columns p)) (first_by_key phase_text_key [] (st_ReviewPhases s))) of
        None \<Rightarrow> Inl UniqueViolation
      | Some phases \<Rightarrow>
      (case insert_all (insert_new (\<lambda>a b. qsc_ID (snd a) = qsc_ID (snd b)
                \<or> (qsc_ReviewPhaseID (snd a) = qsc_ReviewPhaseID (snd b) \<and> qsc_Fingerprint (snd a) = qsc_Fingerprint (snd b))))
              (filter (\<lambda>r. fst r \<noteq> sid) (db_scenarios d)) (map (Pair sid) (st_QAScenarios s)) of
        None \<Rightarrow> Inl UniqueViolation
      | Some scenarios \<Rightarrow>
      (case insert_all (insert_new (\<lambda>a b. qf_ID (snd a) = qf_ID (snd b)
                \<or> (qf_ArtifactID (snd a) = qf_ArtifactID (snd b) \<and> qf_ScenarioFingerprint (snd a) = qf_ScenarioFingerprint (snd b))))
              (filter (\<lambda>r. fst r \<noteq> sid) (db_findings d)) (map (Pair sid) (st_QAFindings s)) of
        None \<Rightarrow> Inl UniqueViolation
      | Some findings \<Rightarrow>
          Inr (d\<lparr>db_contracts := contracts, db_phases := phases, db_scenarios := scenarios, db_findings := findings\<rparr>)))))"

section \<open>Relation groups and their fingerprints\<close>

datatype rel_group = GroupStories | GroupTasks | GroupClarifications | GroupActions | GroupWorkspaceFiles
  | GroupValidationCriteria | GroupActiveAgents | GroupQAReviews

definition stateRelationGroups :: "rel_group list" where
  "stateRelationGroups = [GroupTasks, GroupClarifications, GroupActions, GroupWorkspaceFiles,
     GroupValidationCriteria, GroupActiveAgents, GroupQAReviews, GroupStories]"

datatype relation_rows = StoriesOf "Story list" | TasksOf "Task list" | ClarificationsOf "Clarification list"
  | ActionsOf "Action list" | FilesOf "FileInfo list" | CriteriaOf "ValidationCriterion list"
  | AgentsOf "Agent list"
  | ReviewsOf "StoryContract list" "ReviewPhase list" "QAScenario list" "QAFinding list"

fun group_content :: "State \<Rightarrow> rel_group \<Rightarrow> relation_rows" where
  "group_content s GroupStories = StoriesOf (st_Stories s)"
| "group_content s GroupTasks = TasksOf (st_Tasks s)"
| "group_content s GroupClarifications = ClarificationsOf (st_Clarifications s)"
| "group_content s GroupActions = ActionsOf (st_LastActions s)"
| "group_content s GroupWorkspaceFiles = FilesOf (st_Files s)"
| "group_content s GroupValidationCriteria = CriteriaOf (st_ValidationCriteria s)"
| "group_content s GroupActiveAgents = AgentsOf (st_ActiveAgents s)"
| "group_content s GroupQAReviews =
     ReviewsOf (st_StoryContracts s) (st_ReviewPhases s) (st_QAScenarios s) (st_QAFindings s)"

type_synonym 'h fingerprints = "rel_group \<rightharpoonup> 'h"

definition computeStateFingerprints :: "(relation_rows \<Rightarrow> 'h) \<Rightarrow> State \<Rightarrow> 'h fingerprints" where
  "computeStateFingerprints fp s g = Some (fp (group_content s g))"

definition isGroupClean :: "'h fingerprints option \<Rightarrow> 'h fingerprints \<Rightarrow> rel_group \<Rightarrow> bool" where
  "isGroupClean cached fresh g =
     (case cached of None \<Rightarrow> False
      | Some m \<Rightarrow> (case m g of None \<Rightarrow> False | Some cachedFP \<Rightarrow> Some cachedFP = fresh g))"

record 'h repo =
  repo_db :: db
  repo_cache :: "string \<rightharpoonup> 'h fingerprints"

text \<open>What the code is given from outside at one save.\<close>

record 'h save_env =
  se_fp :: "relation_rows \<Rightarrow> 'h"
  se_uuid :: "nat \<Rightarrow> string"
  se_action_name :: "State \<Rightarrow> Action \<Rightarrow> string"
  se_healthy :: bool

fun rewriteRelationGroup :: "'h save_env \<Rightarrow> State \<Rightarrow> rel_group \<Rightarrow> db \<Rightarrow> store_error + db" where
  "rewriteRelationGroup env s GroupStories d = Inr (saveStories s d)"
| "rewriteRelationGroup env s GroupTasks d = saveTasks s d"
| "rewriteRelationGroup env s GroupClarifications d = saveClarifications (se_uuid env) s d"
| "rewriteRelationGroup env s GroupActions d = Inr (saveActions (se_action_name env) s d)"
| "rewriteRelationGroup env s GroupWorkspaceFiles d = Inr (saveWorkspaceFiles s d)"
| "rewriteRelationGroup env s GroupValidationCriteria d = Inr (saveValidationCriteria s d)"
| "rewriteRelationGroup env s GroupActiveAgents d = Inr (saveActiveAgents s d)"
| "rewriteRelationGroup env s GroupQAReviews d = saveQAReviews s d"

fun rewrite_dirty :: "'h save_env \<Rightarrow> State \<Rightarrow> (rel_group \<Rightarrow> bool) \<Rightarrow> rel_group list \<Rightarrow> db \<Rightarrow> store_error + db" where
  "rewrite_dirty env s clean [] d = Inr d"
| "rewrite_dirty env s clean (g # gs) d =
     (if clean g then rewrite_dirty env s clean gs d
      else case rewriteRelationGroup env s g d of
             Inl e \<Rightarrow> Inl e
           | Inr d' \<Rightarrow> rewrite_dirty env s clean gs d')"

section \<open>Save\<close>

definition current_version :: "db \<Rightarrow> string \<Rightarrow> int" where
  "current_version d sid = (case find (\<lambda>r. st_ID r = sid) (db_state d) of None \<Rightarrow> 0 | Some r \<Rightarrow> st_Version r)"

definition write_state_row :: "State \<Rightarrow> int \<Rightarrow> int \<Rightarrow> db \<Rightarrow> store_error + db" where
  "write_state_row s currentVersion nextVersion d =
     (let row = state_columns nextVersion s
      in if currentVersion = 0
         then (case insert_new (\<lambda>a b. st_ID a = st_ID b) (db_state d) row of
                 None \<Rightarrow> Inl UniqueViolation | Some rows \<Rightarrow> Inr (d\<lparr>db_state := rows\<rparr>))
         else Inr (d\<lparr>db_state := map (\<lambda>r. if st_ID r = st_ID s then row else r) (db_state d)\<rparr>))"

definition saveTx :: "'h save_env \<Rightarrow> 'h repo \<Rightarrow> State \<Rightarrow> 'h fingerprints \<Rightarrow> store_error + db \<times> int" where
  "saveTx env r s fresh =
     (if \<not> se_healthy env then Inl DatabaseError
      else let currentVersion = current_version (repo_db r) (st_ID s)
      in if st_Version s \<noteq> currentVersion then Inl VersionConflict
      else let nextVersion = wrap64 (st_Version s + 1)
      in case write_state_row s currentVersion nextVersion (repo_db r) of
           Inl e \<Rightarrow> Inl e
         | Inr d \<Rightarrow>
             (case rewrite_dirty env s (isGroupClean (repo_cache r (st_ID s)) fresh) stateRelationGroups d of
                Inl e \<Rightarrow> Inl e
              | Inr d' \<Rightarrow> Inr (d', nextVersion)))"

text \<open>The result on success is the state with the version that \<open>Save\<close> writes back into it.\<close>

definition Save :: "'h save_env \<Rightarrow> 'h repo \<Rightarrow> State \<Rightarrow> 'h repo \<times> (store_error + State)" where
  "Save env r s =
     (let fresh = computeStateFingerprints (se_fp env) s
      in case saveTx env r s fresh of
           Inl e \<Rightarrow> (r\<lparr>repo_cache := (repo_cache r)(st_ID s := None)\<rparr>, Inl e)
         | Inr (d, nextVersion) \<Rightarrow>
             (r\<lparr>repo_db := d, repo_cache := (repo_cache r)(st_ID s \<mapsto> fresh)\<rparr>,
              Inr (s\<lparr>st_Version := nextVersion\<rparr>)))"

section \<open>Load\<close>

definition rows_of :: "string \<Rightarrow> (string \<times> 'a) list \<Rightarrow> 'a list" where
  "rows_of sid rows = map snd (filter (\<lambda>r. fst r = sid) rows)"

definition last_n_rows :: "nat \<Rightarrow> 'a list \<Rightarrow> 'a list" where
  "last_n_rows n rows = rev (take n (rev rows))"

definition load_work_relations :: "db \<Rightarrow> State \<Rightarrow> State" where
  "load_work_relations d s =
     (let sid = st_ID s
      in s\<lparr>st_Stories := sort_stable (\<lambda>a b. string_less (story_ID a) (story_ID b)) (rows_of sid (db_stories d)),
           st_Tasks := rows_of sid (db_tasks d),
           st_Clarifications := map (\<lambda>c. c\<lparr>clar_ID := []\<rparr>) (rows_of sid (db_clarifications d)),
           st_LastActions := last_n_rows MaxLastActions (rows_of sid (db_actions d))\<rparr>)"

definition load_workspace_relations :: "db \<Rightarrow> State \<Rightarrow> State" where
  "load_workspace_relations d s =
     (let sid = st_ID s
      in s\<lparr>st_Files := rows_of sid (db_files d), st_ValidationCriteria := rows_of sid (db_criteria d),
           st_ActiveAgents := rows_of sid (db_agents d)\<rparr>)"

text \<open>\<open>load_reviews\<close> stands for \<open>loadQAReviews\<close>, whose order depends on a time stamp that the database adds.\<close>

definition loadStateRelations :: "(db \<Rightarrow> State \<Rightarrow> State) \<Rightarrow> db \<Rightarrow> State \<Rightarrow> State" where
  "loadStateRelations load_reviews d s = load_reviews d (load_workspace_relations d (load_work_relations d s))"

lemmas load_relations_defs = loadStateRelations_def load_workspace_relations_def load_work_relations_def

definition LoadByID :: "(db \<Rightarrow> State \<Rightarrow> State) \<Rightarrow> db \<Rightarrow> string \<Rightarrow> store_error + State" where
  "LoadByID load_reviews d sid =
     (case find (\<lambda>r. st_ID r = sid) (db_state d) of None \<Rightarrow> Inl NoRows
      | Some row \<Rightarrow> Inr (loadStateRelations load_reviews d row))"

definition load_order :: "State \<Rightarrow> State \<Rightarrow> bool" where
  "load_order a b =
     (let ra = st_StoryStatus a = StoryRunning; rb = st_StoryStatus b = StoryRunning
      in (ra \<and> \<not> rb) \<or> (ra = rb \<and> string_less (st_ID b) (st_ID a)))"

definition Load :: "(db \<Rightarrow> State \<Rightarrow> State) \<Rightarrow> db \<Rightarrow> store_error + State" where
  "Load load_reviews d =
     (case sort_stable load_order (db_state d) of [] \<Rightarrow> Inl NoRows
      | row # rest \<Rightarrow> Inr (loadStateRelations load_reviews d row))"

definition LoadAll :: "(db \<Rightarrow> State \<Rightarrow> State) \<Rightarrow> db \<Rightarrow> State list" where
  "LoadAll load_reviews d = map (loadStateRelations load_reviews d) (sort_stable load_order (db_state d))"

section \<open>Summaries\<close>

definition accumulate_task :: "StateSummary \<Rightarrow> Task \<Rightarrow> StateSummary" where
  "accumulate_task sm t =
     (let sm1 = sm\<lparr>sum_TotalTasks := Suc (sum_TotalTasks sm),
                   sum_TaskCounts := (sum_TaskCounts sm)(task_Status t := Suc (sum_TaskCounts sm (task_Status t)))\<rparr>;
          sm2 = (if sum_CreatedAt sm1 = 0 \<or> (task_CreatedAt t \<noteq> 0 \<and> task_CreatedAt t < sum_CreatedAt sm1)
                 then sm1\<lparr>sum_CreatedAt := task_CreatedAt t\<rparr> else sm1)
      in if task_UpdatedAt t > sum_UpdatedAt sm2 then sm2\<lparr>sum_UpdatedAt := task_UpdatedAt t\<rparr> else sm2)"

text \<open>\<open>addTask\<close>: the index by identifier is the position of the last state added with it; rows of unknown
  states are ignored.\<close>

definition addTask :: "StateSummary list \<Rightarrow> string \<times> Task \<Rightarrow> StateSummary list" where
  "addTask acc row =
     (case find (\<lambda>i. sum_ID (acc ! i) = fst row) (rev [0..<length acc]) of
        None \<Rightarrow> acc
      | Some i \<Rightarrow> acc[i := accumulate_task (acc ! i) (snd row)])"

definition state_summary :: "State \<Rightarrow> StateSummary" where
  "state_summary s = \<lparr>sum_ID = st_ID s, sum_FeatureName = meta_FeatureName (st_Metadata s),
     sum_InputPath = meta_InputPath (st_Metadata s), sum_IntegrationBranch = meta_IntegrationBranch (st_Metadata s),
     sum_BaseBranch = meta_BaseBranch (st_Metadata s), sum_StoryStatus = st_StoryStatus s,
     sum_StoryError = st_StoryError s, sum_BuildStatus = st_BuildStatus s, sum_Version = st_Version s,
     sum_TotalTasks = 0, sum_TaskCounts = (\<lambda>_. 0), sum_CreatedAt = 0, sum_UpdatedAt = 0\<rparr>"

definition addState :: "StateSummary list \<Rightarrow> State \<Rightarrow> StateSummary list" where
  "addState acc s = acc @ [state_summary s]"

definition LoadAllSummaries :: "db \<Rightarrow> StateSummary list" where
  "LoadAllSummaries d = foldl addTask (foldl addState [] (sort_stable load_order (db_state d))) (db_tasks d)"

section \<open>Pruning\<close>

definition last_activity :: "db \<Rightarrow> string \<Rightarrow> nat" where
  "last_activity d sid = foldl max 0 (map (\<lambda>t. Suc (task_UpdatedAt t)) (rows_of sid (db_tasks d)))"

definition prune_order :: "db \<Rightarrow> State \<Rightarrow> State \<Rightarrow> bool" where
  "prune_order d a b =
     (last_activity d (st_ID a) > last_activity d (st_ID b)
      \<or> (last_activity d (st_ID a) = last_activity d (st_ID b) \<and> string_less (st_ID b) (st_ID a)))"

definition delete_states :: "string list \<Rightarrow> db \<Rightarrow> db" where
  "delete_states ids d =
     \<lparr>db_state = filter (\<lambda>r. st_ID r \<notin> set ids) (db_state d),
      db_stories = filter (\<lambda>r. fst r \<notin> set ids) (db_stories d),
      db_tasks = filter (\<lambda>r. fst r \<notin> set ids) (db_tasks d),
      db_clarifications = filter (\<lambda>r. fst r \<notin> set ids) (db_clarifications d),
      db_actions = filter (\<lambda>r. fst r \<notin> set ids) (db_actions d),
      db_files = filter (\<lambda>r. fst r \<notin> set ids) (db_files d),
      db_criteria = filter (\<lambda>r. fst r \<notin> set ids) (db_criteria d),
      db_agents = filter (\<lambda>r. fst r \<notin> set ids) (db_agents d),
      db_contracts = filter (\<lambda>r. fst r \<notin> set ids) (db_contracts d),
      db_phases = filter (\<lambda>r. fst r \<notin> set ids) (db_phases d),
      db_scenarios = filter (\<lambda>r. fst r \<notin> set ids) (db_scenarios d),
      db_findings = filter (\<lambda>r. fst r \<notin> set ids) (db_findings d)\<rparr>"

definition PruneFinishedStates :: "bool \<Rightarrow> 'h repo \<Rightarrow> int \<Rightarrow> 'h repo \<times> (store_error + nat)" where
  "PruneFinishedStates healthy r keepLast =
     (if \<not> healthy then (r, Inl DatabaseError)
      else let keep = (if keepLast < 0 then 0 else nat keepLast);
               terminalIDs = map st_ID (sort_stable (prune_order (repo_db r))
                  (filter (\<lambda>s. IsTerminal (st_StoryStatus s)) (db_state (repo_db r))));
               pruneIDs = drop keep terminalIDs
      in if length terminalIDs \<le> keep then (r, Inr 0)
         else (r\<lparr>repo_db := delete_states pruneIDs (repo_db r),
                 repo_cache := (\<lambda>sid. if sid \<in> set pruneIDs then None else repo_cache r sid)\<rparr>,
               Inr (length pruneIDs)))"

section \<open>Facts on the statements\<close>

text \<open>What upserting one row leaves behind under its key, and the rows after upserting a list of rows with
  distinct keys.\<close>

definition written :: "('r \<Rightarrow> 'k) \<Rightarrow> ('r \<Rightarrow> 'r \<Rightarrow> 'r) \<Rightarrow> 'r list \<Rightarrow> 'r \<Rightarrow> 'r \<Rightarrow> bool" where
  "written key upd rows n r \<longleftrightarrow> (key n \<notin> key ` set rows \<and> r = n) \<or> (\<exists>old \<in> set rows. key old = key n \<and> r = upd old n)"

lemma in_upsert: "r \<in> set (upsert key upd rows n) \<longleftrightarrow> r \<in> set rows \<and> key r \<noteq> key n \<or> written key upd rows n r"
  by (auto simp: upsert_def list_ex_iff written_def image_iff)

lemma written_key: "(\<And>old new. key (upd old new) = key new) \<Longrightarrow> written key upd rows n r \<Longrightarrow> key r = key n"
  by (auto simp: written_def)

lemma written_replace: "written key (\<lambda>old new. new) rows n r \<longleftrightarrow> r = n"
  by (auto simp: written_def image_iff)

lemma written_other:
  assumes "\<And>old new. key (upd old new) = key new" "key m \<noteq> key n"
  shows "written key upd (upsert key upd rows n) m r \<longleftrightarrow> written key upd rows m r"
proof -
  have "old \<in> set (upsert key upd rows n) \<and> key old = key m \<longleftrightarrow> old \<in> set rows \<and> key old = key m" for old
    using assms(2) written_key [of key upd, OF assms(1)] by (auto simp: in_upsert)
  then show ?thesis unfolding written_def image_iff by metis
qed

lemma in_foldl_upsert:
  assumes "\<And>old new. key (upd old new) = key new" "distinct (map key news)"
  shows "r \<in> set (foldl (upsert key upd) rows news) \<longleftrightarrow>
     r \<in> set rows \<and> key r \<notin> key ` set news \<or> (\<exists>n \<in> set news. written key upd rows n r)"
  using assms(2)
proof (induction news arbitrary: rows)
  case Nil
  then show ?case by simp
next
  case (Cons n ns)
  have "\<forall>m \<in> set ns. written key upd (upsert key upd rows n) m r = written key upd rows m r"
  proof
    fix m assume "m \<in> set ns"
    with Cons.prems have "key m \<noteq> key n" by (auto simp: image_iff)
    then show "written key upd (upsert key upd rows n) m r = written key upd rows m r"
      using written_other [where key = key and upd = upd and m = m and n = n, OF assms(1)] by simp
  qed
  moreover have "written key upd rows n r \<Longrightarrow> key r \<notin> key ` set ns"
    using Cons.prems written_key [of key upd, OF assms(1)] by force
  ultimately show ?case using Cons.prems by (auto simp: Cons.IH in_upsert)
qed

lemma rows_of_filter: "set (rows_of sid rows) = {x. (sid, x) \<in> set rows}"
  by (force simp: rows_of_def image_iff)

lemma set_replace_rows:
  assumes "\<And>s x y. row_key (s, x) = row_key (sid, y) \<Longrightarrow> item_key x = item_key y"
    and "\<And>x y. item_key x = item_key y \<Longrightarrow> row_key (sid, x) = row_key (sid, y)"
    and "distinct (map item_key xs)"
  shows "set (rows_of sid (replace_rows item_key row_key sid xs rows)) = set xs"
proof (cases "xs = []")
  case True
  then show ?thesis by (auto simp: rows_of_filter replace_rows_def)
next
  case False
  have xs: "distinct xs" "inj_on item_key (set xs)" using assms(3) by (simp_all add: distinct_map)
  have "inj_on (row_key \<circ> Pair sid) (set xs)"
  proof (rule inj_onI)
    fix x y assume h: "x \<in> set xs" "y \<in> set xs" "(row_key \<circ> Pair sid) x = (row_key \<circ> Pair sid) y"
    then have "item_key x = item_key y" by (intro assms(1)) (simp add: o_def)
    then show "x = y" using inj_onD [OF xs(2) _ h(1,2)] by blast
  qed
  then have "distinct (map row_key (map (Pair sid) xs))" using xs(1) by (simp add: distinct_map)
  note fold = in_foldl_upsert [of row_key "\<lambda>old new. new", OF refl this, unfolded written_replace]
  have "x \<in> set (rows_of sid (replace_rows item_key row_key sid xs rows)) \<longleftrightarrow> x \<in> set xs" for x
  proof -
    let ?fold = "foldl (upsert row_key (\<lambda>old new. new)) rows (map (Pair sid) xs)"
    have 1: "x \<in> set (rows_of sid (replace_rows item_key row_key sid xs rows)) \<longleftrightarrow>
      (sid, x) \<in> set ?fold \<and> item_key x \<in> set (map item_key xs)"
      using False by (auto simp: rows_of_filter replace_rows_def)
    have 2: "item_key x \<in> set (map item_key xs) \<Longrightarrow> row_key (sid, x) \<in> row_key ` set (map (Pair sid) xs)"
    proof -
      assume "item_key x \<in> set (map item_key xs)"
      then obtain y where "y \<in> set xs" "item_key x = item_key y" by auto
      with assms(2) [of x y] show ?thesis by auto
    qed
    have 3: "(\<exists>n \<in> set (map (Pair sid) xs). (sid, x) = n) \<longleftrightarrow> x \<in> set xs" by auto
    have "x \<in> set xs \<Longrightarrow> item_key x \<in> set (map item_key xs)" by simp
    with 1 2 fold [of "(sid, x)" rows] 3 show ?thesis by blast
  qed
  then show ?thesis by blast
qed

section \<open>Versions\<close>

lemma rewrite_state_rows: "rewriteRelationGroup env s g d = Inr d' \<Longrightarrow> db_state d' = db_state d"
  by (cases g) (auto simp: saveStories_def saveTasks_def saveClarifications_def saveActions_def
      saveWorkspaceFiles_def saveValidationCriteria_def saveActiveAgents_def saveQAReviews_def Let_def
      split: option.splits if_splits)

lemma rewrite_dirty_state_rows: "rewrite_dirty env s clean gs d = Inr d' \<Longrightarrow> db_state d' = db_state d"
  by (induction gs arbitrary: d) (auto split: if_splits sum.splits dest: rewrite_state_rows)

lemma current_version_cong: "db_state d = db_state d' \<Longrightarrow> current_version d = current_version d'"
  by (simp add: current_version_def fun_eq_iff)

lemma state_columns_fields [simp]: "st_ID (state_columns v s) = st_ID s" "st_Version (state_columns v s) = v"
  by (simp_all add: state_columns_def)

lemma find_map_update:
  "find (\<lambda>r. st_ID r = i) (map (\<lambda>r. if st_ID r = st_ID row then row else r) rows)
   = (if i = st_ID row then if \<exists>r \<in> set rows. st_ID r = st_ID row then Some row else None
      else find (\<lambda>r. st_ID r = i) rows)"
  by (induction rows) auto

lemma write_state_row_version:
  assumes "write_state_row s (current_version d (st_ID s)) v d = Inr d'"
  shows "find (\<lambda>r. st_ID r = i) (db_state d')
     = (if i = st_ID s then Some (state_columns v s) else find (\<lambda>r. st_ID r = i) (db_state d))"
proof (cases "current_version d (st_ID s) = 0")
  case True
  with assms have "db_state d' = db_state d @ [state_columns v s]" "\<forall>r \<in> set (db_state d). st_ID r \<noteq> st_ID s"
    by (auto simp: write_state_row_def insert_new_def list_ex_iff split: if_splits)
  moreover from this have "find (\<lambda>r. st_ID r = st_ID s) (db_state d) = None" by (simp add: find_None_iff)
  ultimately show ?thesis by (cases "i = st_ID s") (auto simp: find_append split: option.splits)
next
  case False
  then have "\<exists>r \<in> set (db_state d). st_ID r = st_ID (state_columns v s)"
    by (auto simp: current_version_def split: option.splits dest: find_SomeD)
  with find_map_update [of i "state_columns v s" "db_state d"] show ?thesis
    using assms False by (auto simp: write_state_row_def Let_def)
qed

lemma Save_cases:
  obtains (failed) e where
    "Save env r s = (r\<lparr>repo_cache := (repo_cache r)(st_ID s := None)\<rparr>, Inl e)"
  | (saved) d d' where
    "st_Version s = current_version (repo_db r) (st_ID s)"
    "write_state_row s (st_Version s) (wrap64 (st_Version s + 1)) (repo_db r) = Inr d"
    "rewrite_dirty env s (isGroupClean (repo_cache r (st_ID s)) (computeStateFingerprints (se_fp env) s)) stateRelationGroups d = Inr d'"
    "Save env r s = (r\<lparr>repo_db := d', repo_cache := (repo_cache r)(st_ID s \<mapsto> computeStateFingerprints (se_fp env) s)\<rparr>,
       Inr (s\<lparr>st_Version := wrap64 (st_Version s + 1)\<rparr>))"
proof (cases "saveTx env r s (computeStateFingerprints (se_fp env) s)")
  case (Inl e)
  then show ?thesis by (intro failed [of e]) (simp add: Save_def Let_def)
next
  case (Inr p)
  obtain d' v where p: "p = (d', v)" by fastforce
  from Inr p obtain d where
    "st_Version s = current_version (repo_db r) (st_ID s)" "v = wrap64 (st_Version s + 1)"
    "write_state_row s (st_Version s) v (repo_db r) = Inr d"
    "rewrite_dirty env s (isGroupClean (repo_cache r (st_ID s)) (computeStateFingerprints (se_fp env) s)) stateRelationGroups d = Inr d'"
    by (auto simp: saveTx_def Let_def split: if_splits sum.splits)
  with Inr p show ?thesis by (intro saved [of d d']) (simp_all add: Save_def Let_def)
qed

section \<open>The contract of a versioned store\<close>

text \<open>What a client of the repository relies on: a save that succeeds was made at the current version and
  raises the version of its state only; a save that fails changes no version.\<close>

locale versioned_store =
  fixes ver :: "'r \<Rightarrow> string \<Rightarrow> int" and save :: "'e \<Rightarrow> 'r \<Rightarrow> State \<Rightarrow> 'r \<times> ('err + State)"
  assumes save_ok: "save env r s = (r', Inr s') \<Longrightarrow> st_Version s = ver r (st_ID s)
       \<and> ver r' = (ver r)(st_ID s := wrap64 (ver r (st_ID s) + 1))"
    and save_failed: "save env r s = (r', Inl err) \<Longrightarrow> ver r' = ver r"
begin

text \<open>The number of successful saves of one state in a run of saves.\<close>

fun run :: "'r \<Rightarrow> ('e \<times> State) list \<Rightarrow> 'r" where
  "run r [] = r"
| "run r ((env, s) # es) = run (fst (save env r s)) es"

fun commits :: "string \<Rightarrow> 'r \<Rightarrow> ('e \<times> State) list \<Rightarrow> nat" where
  "commits i r [] = 0"
| "commits i r ((env, s) # es) =
     (if st_ID s = i \<and> \<not> isl (snd (save env r s)) then 1 else 0) + commits i (fst (save env r s)) es"

lemma commits_le: "commits i r es \<le> length es"
  by (induction es arbitrary: r) (fastforce intro: le_SucI)+

lemma ver_run: "ver (run r es) i mod 2 ^ 64 = (ver r i + int (commits i r es)) mod 2 ^ 64"
proof (induction es arbitrary: r)
  case Nil
  then show ?case by simp
next
  case (Cons x es)
  obtain env s where x: "x = (env, s)" by fastforce
  obtain r' res where sv: "save env r s = (r', res)" by fastforce
  show ?case
  proof (cases res)
    case (Inl err)
    with sv x Cons.IH [of r'] save_failed [of env r s r' err] show ?thesis by simp
  next
    case (Inr s')
    with sv save_ok have v: "ver r' = (ver r)(st_ID s := wrap64 (ver r (st_ID s) + 1))" by simp
    have "(wrap64 a + b) mod 2 ^ 64 = (a + b) mod 2 ^ 64" for a b by (metis mod_add_left_eq wrap64_mod)
    with sv x Inr Cons.IH [of r'] v show ?thesis by (simp add: algebra_simps)
  qed
qed

lemma stale_version:
  assumes "save env1 r s1 = (r1, Inr s1')" "length es < 2 ^ 64 - 1"
    and "st_ID s2 = st_ID s1" "st_Version s2 = st_Version s1"
  shows "st_Version s2 \<noteq> ver (run r1 es) (st_ID s2)"
proof
  let ?i = "st_ID s1" and ?k = "commits (st_ID s1) r1 es"
  assume "st_Version s2 = ver (run r1 es) (st_ID s2)"
  then have e: "ver r ?i = ver (run r1 es) ?i" using save_ok [OF assms(1)] assms(3,4) by simp
  have "ver r1 ?i = wrap64 (ver r ?i + 1)" using save_ok [OF assms(1)] by simp
  then have "ver (run r1 es) ?i mod 2 ^ 64 = (ver r ?i + (1 + int ?k)) mod 2 ^ 64"
    using ver_run [of r1 es ?i] by (metis add.assoc mod_add_left_eq wrap64_mod)
  with e have "(ver r ?i + (1 + int ?k)) mod 2 ^ 64 = (ver r ?i + 0) mod 2 ^ 64" by simp
  then have "(1 + int ?k) mod 2 ^ 64 = 0" unfolding mod_eq_dvd_iff by (simp add: dvd_eq_mod_eq_0)
  moreover have "1 + int ?k < 2 ^ 64" using le_less_trans [OF commits_le assms(2), of ?i r1] by simp
  ultimately show False by simp
qed

end

lemma Save_version:
  "Save env r s = (r', Inr s') \<Longrightarrow> st_Version s = current_version (repo_db r) (st_ID s)
     \<and> current_version (repo_db r') = (current_version (repo_db r))(st_ID s := wrap64 (current_version (repo_db r) (st_ID s) + 1))"
proof -
  assume sv: "Save env r s = (r', Inr s')"
  show ?thesis
  proof (rule Save_cases [of env r s])
    fix e assume "Save env r s = (r\<lparr>repo_cache := (repo_cache r)(st_ID s := None)\<rparr>, Inl e)"
    with sv show ?thesis by simp
  next
    fix d d'
    assume h: "st_Version s = current_version (repo_db r) (st_ID s)"
      "write_state_row s (st_Version s) (wrap64 (st_Version s + 1)) (repo_db r) = Inr d"
      "rewrite_dirty env s (isGroupClean (repo_cache r (st_ID s)) (computeStateFingerprints (se_fp env) s)) stateRelationGroups d = Inr d'"
      "Save env r s = (r\<lparr>repo_db := d', repo_cache := (repo_cache r)(st_ID s \<mapsto> computeStateFingerprints (se_fp env) s)\<rparr>,
         Inr (s\<lparr>st_Version := wrap64 (st_Version s + 1)\<rparr>))"
    have "repo_db r' = d'" using sv h(4) by auto
    moreover have "current_version d' i = (if i = st_ID s then wrap64 (st_Version s + 1) else current_version (repo_db r) i)" for i
      using write_state_row_version [of s "repo_db r" "wrap64 (st_Version s + 1)" d i] h(1,2)
        rewrite_dirty_state_rows [OF h(3)] by (simp add: current_version_def)
    ultimately show ?thesis using h(1) by auto
  qed
qed

lemma Save_failed: "Save env r s = (r', Inl e) \<Longrightarrow> repo_db r' = repo_db r \<and> repo_cache r' (st_ID s) = None"
  by (rule Save_cases [of env r s]) auto

interpretation sqlite: versioned_store "\<lambda>r. current_version (repo_db r)" Save
proof unfold_locales
  fix env :: "'h save_env" and r r' s s'
  assume "Save env r s = (r', Inr s')"
  then show "st_Version s = current_version (repo_db r) (st_ID s)
      \<and> current_version (repo_db r') = (current_version (repo_db r))(st_ID s := wrap64 (current_version (repo_db r) (st_ID s) + 1))"
    by (rule Save_version)
next
  fix env :: "'h save_env" and r r' s err
  assume "Save env r s = (r', Inl err)"
  then show "current_version (repo_db r') = current_version (repo_db r)" using Save_failed by fastforce
qed

section \<open>What a full save leaves in the tables\<close>

lemma insert_all_new: "insert_all (insert_new clash) rows ns = Some rows' \<Longrightarrow> rows' = rows @ ns"
  by (induction ns arbitrary: rows) (fastforce simp: insert_new_def split: option.splits if_splits)+

text \<open>Under a unique key an upserted row is the new one, or the update of the one old row with its key.\<close>

definition stored_row :: "('r \<Rightarrow> 'k) \<Rightarrow> ('r \<Rightarrow> 'r \<Rightarrow> 'r) \<Rightarrow> 'r list \<Rightarrow> 'r \<Rightarrow> 'r" where
  "stored_row key upd rows n = (case find (\<lambda>r. key r = key n) rows of None \<Rightarrow> n | Some old \<Rightarrow> upd old n)"

lemma written_stored: "distinct (map key rows) \<Longrightarrow> written key upd rows n r \<longleftrightarrow> r = stored_row key upd rows n"
proof (cases "find (\<lambda>r. key r = key n) rows")
  case None
  then have "key n \<notin> key ` set rows" by (fastforce simp: find_None_iff)
  with None show ?thesis by (auto simp: written_def stored_row_def image_iff)
next
  case (Some old)
  assume "distinct (map key rows)"
  moreover from find_SomeD [OF Some] have "old \<in> set rows" "key old = key n" by simp_all
  ultimately have old: "x \<in> set rows \<and> key x = key n \<longleftrightarrow> x = old" for x by (metis distinct_map inj_onD)
  have "key n \<in> key ` set rows" using old [of old] by (metis image_eqI)
  then have "written key upd rows n r \<longleftrightarrow> (\<exists>x. (x \<in> set rows \<and> key x = key n) \<and> r = upd x n)" by (auto simp: written_def)
  then show ?thesis unfolding old by (simp add: stored_row_def Some)
qed

lemma upserted_rows:
  assumes "\<And>old new. key (upd old new) = key new" "distinct (map key news)" "distinct (map key rows)"
  shows "set (foldl (upsert key upd) rows news) = {r \<in> set rows. key r \<notin> key ` set news} \<union> stored_row key upd rows ` set news"
  using in_foldl_upsert [of key upd news _ rows, OF assms(1,2)] written_stored [OF assms(3)] by auto

text \<open>What the database has for a story or a task after a full save: its columns, with the creation time of the row that
  it had before, if any.\<close>

definition stored_story :: "string \<Rightarrow> (string \<times> Story) list \<Rightarrow> Story \<Rightarrow> Story" where
  "stored_story sid rows x =
     (case find (\<lambda>r. story_ID (snd r) = story_ID x) rows of
        None \<Rightarrow> story_columns sid x | Some old \<Rightarrow> (story_columns sid x)\<lparr>story_CreatedAt := story_CreatedAt (snd old)\<rparr>)"

definition stored_task :: "(string \<times> Task) list \<Rightarrow> Task \<Rightarrow> Task" where
  "stored_task rows t =
     (case find (\<lambda>r. task_ID (snd r) = task_ID t) rows of
        None \<Rightarrow> task_columns t | Some old \<Rightarrow> (task_columns t)\<lparr>task_CreatedAt := task_CreatedAt (snd old)\<rparr>)"

text \<open>The tasks that a save leaves in place although the state does not have them: those of other stories, where the
  state's tasks name their stories, and all of them where the state has no tasks.\<close>

definition left_task :: "State \<Rightarrow> Task \<Rightarrow> bool" where
  "left_task s t \<longleftrightarrow> task_ID t \<notin> task_ID ` set (st_Tasks s)
     \<and> (st_Tasks s = [] \<or> (\<exists>x \<in> set (st_Tasks s). task_StoryID x \<noteq> [])
          \<and> \<not> (task_StoryID t \<noteq> [] \<and> task_StoryID t \<in> task_StoryID ` set (st_Tasks s)))"

lemma columns_keep [simp]:
  "story_ID (story_columns sid x) = story_ID x" "task_ID (task_columns t) = task_ID t"
  "task_StoryID (task_columns t) = task_StoryID t"
  by (simp_all add: story_columns_def task_columns_def)

lemma stories_view:
  assumes "distinct (map story_ID (st_Stories s))" "distinct (map (story_ID \<circ> snd) (db_stories d))"
  shows "set (rows_of (st_ID s) (db_stories (saveStories s d))) = stored_story (st_ID s) (db_stories d) ` set (st_Stories s)"
proof (cases "st_Stories s = []")
  case True
  then show ?thesis by (simp add: saveStories_def Let_def rows_of_filter)
next
  case False
  let ?sid = "st_ID s" and ?news = "map (\<lambda>x. (st_ID s, story_columns (st_ID s) x)) (st_Stories s)"
  let ?key = "\<lambda>r :: string \<times> Story. story_ID (snd r)"
  let ?upd = "\<lambda>old new. (fst new, (snd new)\<lparr>story_CreatedAt := story_CreatedAt (snd old)\<rparr>)"
  have "set (foldl (upsert ?key ?upd) (db_stories d) ?news)
      = {r \<in> set (db_stories d). ?key r \<notin> ?key ` set ?news} \<union> stored_row ?key ?upd (db_stories d) ` set ?news"
    using assms by (intro upserted_rows) (simp_all add: o_def)
  moreover have "stored_row ?key ?upd (db_stories d) (?sid, story_columns ?sid x) = (?sid, stored_story ?sid (db_stories d) x)" for x
    by (simp add: stored_row_def stored_story_def split: option.split)
  ultimately have rows: "set (foldl (upsert ?key ?upd) (db_stories d) ?news)
      = {r \<in> set (db_stories d). story_ID (snd r) \<notin> story_ID ` set (st_Stories s)}
        \<union> (\<lambda>x. (?sid, stored_story ?sid (db_stories d) x)) ` set (st_Stories s)"
    by (simp add: image_image)
  have "story_ID (stored_story ?sid (db_stories d) x) = story_ID x" for x by (simp add: stored_story_def split: option.split)
  with False show ?thesis unfolding rows_of_filter by (auto simp: saveStories_def Let_def rows)
qed

lemma first_duplicate_None: "first_duplicate seen xs = None \<longleftrightarrow> distinct xs \<and> set xs \<inter> set seen = {}"
  by (induction seen xs rule: first_duplicate.induct) auto

lemma tasks_view:
  assumes "saveTasks s d = Inr d'" "distinct (map (task_ID \<circ> snd) (db_tasks d))"
  shows "set (rows_of (st_ID s) (db_tasks d'))
    = stored_task (db_tasks d) ` set (st_Tasks s) \<union> {t \<in> set (rows_of (st_ID s) (db_tasks d)). left_task s t}"
proof (cases "st_Tasks s = []")
  case True
  with assms(1) show ?thesis by (auto simp: saveTasks_def left_task_def)
next
  case False
  let ?sid = "st_ID s" and ?news = "map (\<lambda>t. (st_ID s, task_columns t)) (st_Tasks s)"
  let ?key = "\<lambda>r :: string \<times> Task. task_ID (snd r)"
  let ?upd = "\<lambda>old new. (fst new, (snd new)\<lparr>task_CreatedAt := task_CreatedAt (snd old)\<rparr>)"
  let ?ids = "filter (\<lambda>x. x \<noteq> []) (map task_StoryID (st_Tasks s))"
  have dist: "distinct (map task_ID (st_Tasks s))"
    using assms(1) False by (auto simp: saveTasks_def first_duplicate_None split: option.splits)
  have "set (foldl (upsert ?key ?upd) (db_tasks d) ?news)
      = {r \<in> set (db_tasks d). ?key r \<notin> ?key ` set ?news} \<union> stored_row ?key ?upd (db_tasks d) ` set ?news"
    using assms(2) dist by (intro upserted_rows) (simp_all add: o_def)
  moreover have "stored_row ?key ?upd (db_tasks d) (?sid, task_columns t) = (?sid, stored_task (db_tasks d) t)" for t
    by (simp add: stored_row_def stored_task_def split: option.split)
  ultimately have rows: "set (foldl (upsert ?key ?upd) (db_tasks d) ?news)
      = {r \<in> set (db_tasks d). task_ID (snd r) \<notin> task_ID ` set (st_Tasks s)} \<union> (\<lambda>t. (?sid, stored_task (db_tasks d) t)) ` set (st_Tasks s)"
    by (simp add: image_image)
  have key: "task_ID (stored_task (db_tasks d) t) = task_ID t" for t by (simp add: stored_task_def split: option.split)
  have left: "left_task s t \<longleftrightarrow> task_ID t \<notin> task_ID ` set (st_Tasks s) \<and> \<not> (?ids = [] \<or> task_StoryID t \<in> set ?ids)" for t
    using False by (auto simp: left_task_def filter_empty_conv)
  from assms(1) False have "db_tasks d' = filter (\<lambda>r. \<not> (fst r = ?sid \<and> (?ids = [] \<or> task_StoryID (snd r) \<in> set ?ids)
      \<and> task_ID (snd r) \<notin> set (map task_ID (st_Tasks s)))) (foldl (upsert ?key ?upd) (db_tasks d) ?news)"
    by (auto simp: saveTasks_def Let_def split: option.splits)
  then have "set (db_tasks d') = {r \<in> set (foldl (upsert ?key ?upd) (db_tasks d) ?news).
      \<not> (fst r = ?sid \<and> (?ids = [] \<or> task_StoryID (snd r) \<in> set ?ids) \<and> task_ID (snd r) \<notin> set (map task_ID (st_Tasks s)))}"
    by simp
  then show ?thesis unfolding rows_of_filter rows left by (auto simp: key)
qed

text \<open>The actions: a new row for each whose identifier no row has yet.\<close>

definition named_actions :: "(State \<Rightarrow> Action \<Rightarrow> string) \<Rightarrow> State \<Rightarrow> Action list" where
  "named_actions action_name s = map (\<lambda>a. a\<lparr>act_ID := (if act_ID a = [] then action_name s a else act_ID a)\<rparr>) (st_LastActions s)"

lemma first_by_key_cong: "set seen = set seen' \<Longrightarrow> first_by_key key seen xs = first_by_key key seen' xs"
proof (induction xs arbitrary: seen seen')
  case (Cons x xs)
  from Cons.IH [of "key x # seen" "key x # seen'"] Cons.IH [OF Cons.prems] Cons.prems show ?case by simp
qed simp

lemma foldl_insert_ignore:
  "foldl (insert_ignore (\<lambda>r. key (snd r))) rows (map (Pair sid) xs) = rows @ map (Pair sid) (first_by_key key (map (key \<circ> snd) rows) xs)"
proof (induction xs arbitrary: rows)
  case (Cons x xs)
  have "first_by_key key (map (key \<circ> snd) rows @ [key x]) xs = first_by_key key (key x # map (key \<circ> snd) rows) xs"
    by (rule first_by_key_cong) auto
  with Cons.IH [of rows] Cons.IH [of "rows @ [(sid, x)]"] show ?case by (auto simp: insert_ignore_def list_ex_iff image_iff o_def)
qed simp

lemma actions_view:
  "rows_of (st_ID s) (db_actions (saveActions action_name s d))
   = rows_of (st_ID s) (db_actions d) @ first_by_key act_ID (map (act_ID \<circ> snd) (db_actions d)) (named_actions action_name s)"
proof -
  have "db_actions (saveActions action_name s d) = foldl (insert_ignore (\<lambda>r. act_ID (snd r))) (db_actions d)
      (map (Pair (st_ID s)) (named_actions action_name s))"
    by (simp add: saveActions_def named_actions_def o_def)
  then show ?thesis unfolding foldl_insert_ignore by (simp add: rows_of_def filter_map o_def)
qed

lemma clarifications_view:
  assumes "saveClarifications uuid s d = Inr d'"
  shows "map (\<lambda>c. c\<lparr>clar_ID := []\<rparr>) (rows_of (st_ID s) (db_clarifications d'))
       = map (\<lambda>c. c\<lparr>clar_ID := [], clar_TaskID := []\<rparr>) (st_Clarifications s)"
proof -
  let ?f = "\<lambda>(i, c). (st_ID s, clarification_columns (uuid i) c)"
  have "db_clarifications d' = filter (\<lambda>r. fst r \<noteq> st_ID s) (db_clarifications d) @ map ?f (enumerate 0 (st_Clarifications s))"
    using assms by (auto simp: saveClarifications_def split: option.splits dest: insert_all_new)
  moreover have "filter (\<lambda>r. fst r = st_ID s) (filter (\<lambda>r. fst r \<noteq> st_ID s) xs) = []" for xs :: "(string \<times> Clarification) list"
    by (induction xs) auto
  moreover have "filter (\<lambda>r. fst r = st_ID s) (map ?f ys) = map ?f ys" for ys by (induction ys) auto
  ultimately have "rows_of (st_ID s) (db_clarifications d') = map (snd \<circ> ?f) (enumerate 0 (st_Clarifications s))"
    by (simp add: rows_of_def)
  moreover have "map ((\<lambda>c. c\<lparr>clar_ID := []\<rparr>) \<circ> (snd \<circ> ?f)) (enumerate n cs)
     = map (\<lambda>c. c\<lparr>clar_ID := [], clar_TaskID := []\<rparr>) cs" for n cs
    by (induction cs arbitrary: n) (simp_all add: clarification_columns_def)
  ultimately show ?thesis by simp
qed

lemma group_tables:
  "saveTasks s d = Inr d' \<Longrightarrow> \<exists>x. d' = d\<lparr>db_tasks := x\<rparr>"
  "saveClarifications uuid s d = Inr d' \<Longrightarrow> \<exists>x. d' = d\<lparr>db_clarifications := x\<rparr>"
  "saveQAReviews s d = Inr d' \<Longrightarrow> \<exists>a b c e. d' = d\<lparr>db_contracts := a, db_phases := b, db_scenarios := c, db_findings := e\<rparr>"
  by (auto simp: saveTasks_def saveClarifications_def saveQAReviews_def Let_def split: if_splits option.splits)
    (metis (full_types) db.surjective db.update_convs(3))

lemma full_rewrite:
  assumes "rewrite_dirty env s (\<lambda>_. False) stateRelationGroups d = Inr d'"
  obtains dt dc d0 where "saveTasks s d = Inr dt" "db_tasks d' = db_tasks dt"
    "saveClarifications (se_uuid env) s d0 = Inr dc" "db_clarifications d' = db_clarifications dc"
    "db_stories d' = db_stories (saveStories s d)"
    "db_files d' = db_files (saveWorkspaceFiles s d)"
    "db_criteria d' = db_criteria (saveValidationCriteria s d)"
    "db_agents d' = db_agents (saveActiveAgents s d)"
    "db_actions d' = db_actions (saveActions (se_action_name env) s d)"
proof -
  from assms obtain dt dc dq where 1: "saveTasks s d = Inr dt" "saveClarifications (se_uuid env) s dt = Inr dc"
    "saveQAReviews s (saveActiveAgents s (saveValidationCriteria s (saveWorkspaceFiles s (saveActions (se_action_name env) s dc)))) = Inr dq"
    "d' = saveStories s dq"
    by (auto simp: stateRelationGroups_def split: sum.splits)
  from group_tables(1) [OF 1(1)] obtain x where x: "dt = d\<lparr>db_tasks := x\<rparr>" by blast
  from group_tables(2) [OF 1(2)] obtain y where y: "dc = dt\<lparr>db_clarifications := y\<rparr>" by blast
  from group_tables(3) [OF 1(3)] obtain a b c e where q:
    "dq = (saveActiveAgents s (saveValidationCriteria s (saveWorkspaceFiles s (saveActions (se_action_name env) s dc))))
       \<lparr>db_contracts := a, db_phases := b, db_scenarios := c, db_findings := e\<rparr>" by blast
  show thesis
    by (rule that [OF 1(1) _ 1(2)])
      (simp_all add: 1(4) q y x saveStories_def saveActiveAgents_def saveValidationCriteria_def
        saveWorkspaceFiles_def saveActions_def Let_def)
qed

lemma full_save:
  assumes "Save env r s = (r', Inr s')" "repo_cache r (st_ID s) = None"
  obtains d where "rewrite_dirty env s (\<lambda>_. False) stateRelationGroups d = Inr (repo_db r')"
    "find (\<lambda>x. st_ID x = st_ID s) (db_state (repo_db r')) = Some (state_columns (st_Version s') s)"
    "d = (repo_db r)\<lparr>db_state := db_state d\<rparr>"
proof (rule Save_cases [of env r s])
  fix e assume "Save env r s = (r\<lparr>repo_cache := (repo_cache r)(st_ID s := None)\<rparr>, Inl e)"
  with assms show thesis by simp
next
  fix d d'
  assume h: "st_Version s = current_version (repo_db r) (st_ID s)"
    "write_state_row s (st_Version s) (wrap64 (st_Version s + 1)) (repo_db r) = Inr d"
    "rewrite_dirty env s (isGroupClean (repo_cache r (st_ID s)) (computeStateFingerprints (se_fp env) s)) stateRelationGroups d = Inr d'"
    "Save env r s = (r\<lparr>repo_db := d', repo_cache := (repo_cache r)(st_ID s \<mapsto> computeStateFingerprints (se_fp env) s)\<rparr>,
       Inr (s\<lparr>st_Version := wrap64 (st_Version s + 1)\<rparr>))"
  have e: "repo_db r' = d'" "s' = s\<lparr>st_Version := wrap64 (st_Version s + 1)\<rparr>" using assms(1) h(4) by auto
  have c: "isGroupClean (repo_cache r (st_ID s)) (computeStateFingerprints (se_fp env) s) = (\<lambda>_. False)"
    using assms(2) by (simp add: isGroupClean_def fun_eq_iff)
  have "d = (repo_db r)\<lparr>db_state := db_state d\<rparr>"
    using h(2) by (auto simp: write_state_row_def Let_def split: if_splits option.splits)
  then show thesis
    using that [of d] h(3) write_state_row_version [of s "repo_db r" _ d "st_ID s"] h(1,2) rewrite_dirty_state_rows [OF h(3)]
    unfolding c e by simp
qed

section \<open>Task rows hold stored columns only\<close>

definition tasks_stored :: "db \<Rightarrow> bool" where
  "tasks_stored d \<longleftrightarrow> list_all (\<lambda>r. task_columns (snd r) = snd r) (db_tasks d)"

lemma task_columns_idem [simp]: "task_columns (task_columns t) = task_columns t"
  by (simp add: task_columns_def nullTimePtr_def)

lemma task_columns_created [simp]: "task_columns ((task_columns t)\<lparr>task_CreatedAt := c\<rparr>) = (task_columns t)\<lparr>task_CreatedAt := c\<rparr>"
  by (simp add: task_columns_def nullTimePtr_def)

lemma upsert_all_stored:
  assumes "\<forall>n \<in> set news. task_columns (snd n) = snd n" "\<forall>r \<in> set rows. task_columns (snd r) = snd r"
    and "\<And>old new. task_columns (snd new) = snd new \<Longrightarrow> task_columns (snd (upd old new)) = snd (upd old new)"
  shows "\<forall>r \<in> set (foldl (upsert key upd) rows news). task_columns (snd r) = snd r"
  using assms(1,2)
proof (induction news arbitrary: rows)
  case (Cons n ns)
  have "\<forall>r \<in> set (upsert key upd rows n). task_columns (snd r) = snd r"
  proof
    fix r assume "r \<in> set (upsert key upd rows n)"
    then have "r \<in> set rows \<or> r = n \<or> (\<exists>old. r = upd old n)" by (auto simp: in_upsert written_def)
    moreover have "task_columns (snd n) = snd n" using Cons.prems(1) by simp
    ultimately show "task_columns (snd r) = snd r" using Cons.prems(2) assms(3) [of n] by blast
  qed
  from Cons.IH [OF _ this] show ?case using Cons.prems(1) unfolding foldl.simps list.set by blast
qed simp

lemma saveTasks_stored:
  assumes "tasks_stored d" "saveTasks s d = Inr d'"
  shows "tasks_stored d'"
proof -
  let ?upd = "\<lambda>old new. (fst new, (snd new)\<lparr>task_CreatedAt := task_CreatedAt (snd old)\<rparr>)"
  have "\<forall>r \<in> set (foldl (upsert (\<lambda>r. task_ID (snd r)) ?upd) (db_tasks d) (map (\<lambda>t. (st_ID s, task_columns t)) (st_Tasks s))).
      task_columns (snd r) = snd r"
  proof (rule upsert_all_stored)
    fix old new :: "string \<times> Task"
    assume "task_columns (snd new) = snd new"
    then show "task_columns (snd (?upd old new)) = snd (?upd old new)"
      using task_columns_created [of "task_CreatedAt (snd old)" "snd new"] by simp
  qed (use assms(1) in \<open>auto simp: tasks_stored_def list_all_iff\<close>)
  with assms show ?thesis
    by (auto simp: saveTasks_def Let_def tasks_stored_def list_all_iff split: if_splits option.splits)
qed

lemma rewrite_stored: "tasks_stored d \<Longrightarrow> rewriteRelationGroup env s g d = Inr d' \<Longrightarrow> tasks_stored d'"
proof (cases g)
  case GroupTasks
  assume "tasks_stored d" "rewriteRelationGroup env s g d = Inr d'"
  with GroupTasks show ?thesis using saveTasks_stored by simp
qed (auto simp: tasks_stored_def saveStories_def saveActions_def saveWorkspaceFiles_def
      saveValidationCriteria_def saveActiveAgents_def Let_def dest!: group_tables(2,3))

lemma rewrite_dirty_stored: "tasks_stored d \<Longrightarrow> rewrite_dirty env s clean gs d = Inr d' \<Longrightarrow> tasks_stored d'"
  by (induction gs arbitrary: d) (auto split: if_splits sum.splits dest: rewrite_stored)

lemma Save_stored: "tasks_stored (repo_db r) \<Longrightarrow> tasks_stored (repo_db (fst (Save env r s)))"
proof (rule Save_cases [of env r s])
  fix d d'
  assume s: "tasks_stored (repo_db r)"
    and h: "write_state_row s (st_Version s) (wrap64 (st_Version s + 1)) (repo_db r) = Inr d"
      "rewrite_dirty env s (isGroupClean (repo_cache r (st_ID s)) (computeStateFingerprints (se_fp env) s)) stateRelationGroups d = Inr d'"
      "Save env r s = (r\<lparr>repo_db := d', repo_cache := (repo_cache r)(st_ID s \<mapsto> computeStateFingerprints (se_fp env) s)\<rparr>,
         Inr (s\<lparr>st_Version := wrap64 (st_Version s + 1)\<rparr>))"
  from s h(1) have "tasks_stored d"
    by (auto simp: tasks_stored_def write_state_row_def Let_def split: if_splits option.splits)
  with h show ?thesis using rewrite_dirty_stored by auto
qed auto

lemma run_stored: "tasks_stored (repo_db r) \<Longrightarrow> tasks_stored (repo_db (sqlite.run r es))"
  by (induction r es rule: sqlite.run.induct) (simp_all add: Save_stored)

lemma loaded_task_stored:
  assumes "tasks_stored d" "LoadByID load_reviews d i = Inr l" "\<And>x. st_Tasks (load_reviews d x) = st_Tasks x" "t \<in> set (st_Tasks l)"
  shows "task_columns t = t"
  using assms by (auto simp: LoadByID_def load_relations_defs Let_def rows_of_def tasks_stored_def list_all_iff
      split: option.splits)

text \<open>The loaded clarifications after a full save, whatever the rest of the state.\<close>

lemma loaded_clarifications:
  assumes "Save env r s = (r', Inr s')" "repo_cache r (st_ID s) = None"
  shows "\<exists>l. LoadByID (\<lambda>d x. x) (repo_db r') (st_ID s) = Inr l
       \<and> st_Clarifications l = map (\<lambda>c. c\<lparr>clar_ID := [], clar_TaskID := []\<rparr>) (st_Clarifications s)"
proof -
  from assms obtain d where d: "rewrite_dirty env s (\<lambda>_. False) stateRelationGroups d = Inr (repo_db r')"
    "find (\<lambda>x. st_ID x = st_ID s) (db_state (repo_db r')) = Some (state_columns (st_Version s') s)"
    by (rule full_save)
  from d(1) obtain d0 dc where "saveClarifications (se_uuid env) s d0 = Inr dc" "db_clarifications (repo_db r') = db_clarifications dc"
    by (rule full_rewrite)
  from clarifications_view [OF this(1), folded this(2)] show ?thesis
    by (simp add: LoadByID_def d(2) load_relations_defs Let_def)
qed

section \<open>Properties\<close>

text \<open>C5: Optimistic concurrency loses no update: when two clients have loaded the same version of a state and
  one of them saves, then after any further saves by anyone (fewer than the version counter can count)
  the other's save fails, and leaves the database as it is.\<close>

theorem store_no_lost_update:
  assumes "Save env1 r s1 = (r1, Inr s1')" "length es < 2 ^ 64 - 1"
    and "st_ID s2 = st_ID s1" "st_Version s2 = st_Version s1"
  shows "snd (Save env2 (sqlite.run r1 es) s2) = Inl (if se_healthy env2 then VersionConflict else DatabaseError)
       \<and> repo_db (fst (Save env2 (sqlite.run r1 es) s2)) = repo_db (sqlite.run r1 es)"
  using sqlite.stale_version [OF assms] by (simp add: Save_def saveTx_def Let_def)

text \<open>Two clients that have loaded version 0 of one state; the second comes too late, after a save of another state.\<close>

definition sample_env :: "relation_rows save_env" where
  "sample_env = \<lparr>se_fp = \<lambda>c. c, se_uuid = \<lambda>i. replicate (Suc i) (CHR ''u''), se_action_name = \<lambda>s a. ''a'', se_healthy = True\<rparr>"

definition empty_db :: db where
  "empty_db = \<lparr>db_state = [], db_stories = [], db_tasks = [], db_clarifications = [], db_actions = [], db_files = [],
     db_criteria = [], db_agents = [], db_contracts = [], db_phases = [], db_scenarios = [], db_findings = []\<rparr>"

definition new_repo :: "relation_rows repo" where
  "new_repo = \<lparr>repo_db = empty_db, repo_cache = Map.empty\<rparr>"

definition plan_state :: "string \<Rightarrow> State" where
  "plan_state i = (mk_state [mk_task ''US-001-T1'' ''Parser'' TaskPending])\<lparr>st_ID := i\<rparr>"

lemmas sample_defs = sample_env_def new_repo_def empty_db_def plan_state_def mk_state_def mk_task_def

lemmas save_defs = Save_def saveTx_def Let_def write_state_row_def current_version_def insert_new_def
  stateRelationGroups_def isGroupClean_def computeStateFingerprints_def state_columns_def saveTasks_def
  saveStories_def saveClarifications_def saveActions_def saveWorkspaceFiles_def saveValidationCriteria_def
  saveActiveAgents_def saveQAReviews_def replace_rows_def upsert_def task_columns_def empty_metadata_def nullTimePtr_def

lemma first_save: "Save sample_env new_repo (plan_state ''s1'') = (fst (Save sample_env new_repo (plan_state ''s1'')), Inr ((plan_state ''s1'')\<lparr>st_Version := 1\<rparr>))"
  by (simp add: save_defs sample_defs wrap64_def)

theorem store_no_lost_update_witness:
  "snd (Save sample_env (sqlite.run (fst (Save sample_env new_repo (plan_state ''s1''))) [(sample_env, plan_state ''s2'')])
     ((plan_state ''s1'')\<lparr>st_StoryError := ''late''\<rparr>)) = Inl VersionConflict"
  using store_no_lost_update [OF first_save, of "[(sample_env, plan_state ''s2'')]" "(plan_state ''s1'')\<lparr>st_StoryError := ''late''\<rparr>" sample_env]
  by (simp add: sample_env_def plan_state_def mk_state_def)

text \<open>C13: The first save of a repository instance, or the first after a failed one, stores the state and
  loading it back gives the same version, project path, metadata, status, files, criteria and agents. The stories are those of the state, and
  each of its tasks comes back with its stored columns; the creation time of either is the one of the row it had before, if
  any. Tasks that the state no longer has come back exactly if no task of the state belongs to their story.
  The actions are the last 200 of those stored before and the state's new ones, told apart by identifier. What
  does not come back is what has no column: of a task the failure envelope, directives, stall and escalation counters and flags,
  complexity and parent, of a clarification its identifier and the task it is about, and the orders.\<close>

theorem store_roundtrip:
  assumes "Save env r s = (r', Inr s')" "repo_cache r (st_ID s) = None"
    and "distinct (map story_ID (st_Stories s))" "distinct (map file_Path (st_Files s))"
    and "distinct (map crit_ID (st_ValidationCriteria s))" "distinct (map agent_ID (st_ActiveAgents s))"
    and "distinct (map (story_ID \<circ> snd) (db_stories (repo_db r)))" "distinct (map (task_ID \<circ> snd) (db_tasks (repo_db r)))"
  shows "\<exists>l. LoadByID (\<lambda>d x. x) (repo_db r') (st_ID s) = Inr l
    \<and> (st_ID l, st_ProjectPath l, st_Version l, st_Metadata l, st_StoryStatus l, st_StoryError l, st_BuildStatus l)
      = (st_ID s, st_ProjectPath s, st_Version s', st_Metadata s, st_StoryStatus s, st_StoryError s, st_BuildStatus s)
    \<and> set (st_Files l) = set (st_Files s) \<and> set (st_ValidationCriteria l) = set (st_ValidationCriteria s)
    \<and> set (st_ActiveAgents l) = set (st_ActiveAgents s)
    \<and> set (st_Stories l) = stored_story (st_ID s) (db_stories (repo_db r)) ` set (st_Stories s)
    \<and> set (st_Tasks l) = stored_task (db_tasks (repo_db r)) ` set (st_Tasks s)
        \<union> {t \<in> set (rows_of (st_ID s) (db_tasks (repo_db r))). left_task s t}
    \<and> st_LastActions l = last_n_rows MaxLastActions (rows_of (st_ID s) (db_actions (repo_db r))
        @ first_by_key act_ID (map (act_ID \<circ> snd) (db_actions (repo_db r))) (named_actions (se_action_name env) s))
    \<and> st_Clarifications l = map (\<lambda>c. c\<lparr>clar_ID := [], clar_TaskID := []\<rparr>) (st_Clarifications s) \<and> st_Orders l = []"
proof -
  from assms(1,2) obtain d where d: "rewrite_dirty env s (\<lambda>_. False) stateRelationGroups d = Inr (repo_db r')"
    "find (\<lambda>x. st_ID x = st_ID s) (db_state (repo_db r')) = Some (state_columns (st_Version s') s)"
    "d = (repo_db r)\<lparr>db_state := db_state d\<rparr>"
    by (rule full_save)
  from d(1) obtain dt dc d0 where g: "saveTasks s d = Inr dt" "db_tasks (repo_db r') = db_tasks dt"
    "saveClarifications (se_uuid env) s d0 = Inr dc" "db_clarifications (repo_db r') = db_clarifications dc"
    "db_stories (repo_db r') = db_stories (saveStories s d)" "db_files (repo_db r') = db_files (saveWorkspaceFiles s d)"
    "db_criteria (repo_db r') = db_criteria (saveValidationCriteria s d)"
    "db_agents (repo_db r') = db_agents (saveActiveAgents s d)"
    "db_actions (repo_db r') = db_actions (saveActions (se_action_name env) s d)"
    by (rule full_rewrite)
  from d(3) have t: "db_stories d = db_stories (repo_db r)" "db_tasks d = db_tasks (repo_db r)" "db_actions d = db_actions (repo_db r)"
    by (metis db.select_convs db.update_convs(1) db.surjective)+
  have "set (rows_of (st_ID s) (db_files (repo_db r'))) = set (st_Files s)"
    unfolding g(6) saveWorkspaceFiles_def using assms(4) by (simp, intro set_replace_rows) simp_all
  moreover have "set (rows_of (st_ID s) (db_criteria (repo_db r'))) = set (st_ValidationCriteria s)"
    unfolding g(7) saveValidationCriteria_def using assms(5) by (simp, intro set_replace_rows) simp_all
  moreover have "set (rows_of (st_ID s) (db_agents (repo_db r'))) = set (st_ActiveAgents s)"
    unfolding g(8) saveActiveAgents_def using assms(6) by (simp, intro set_replace_rows) simp_all
  moreover note stories_view [OF assms(3), of d, folded g(5), unfolded t, OF assms(7)] tasks_view [OF g(1), folded g(2), unfolded t, OF assms(8)]
    clarifications_view [OF g(3), folded g(4)] actions_view [of s "se_action_name env" d, folded g(9), unfolded t]
  ultimately show ?thesis
    by (simp add: LoadByID_def d(2) load_relations_defs Let_def) (simp add: state_columns_def)
qed

text \<open>A second save by a new instance, with a later creation time of the task: the first one is kept.\<close>

definition restarted :: "relation_rows repo" where
  "restarted = \<lparr>repo_db = repo_db (fst (Save sample_env new_repo (plan_state ''s1''))), repo_cache = Map.empty\<rparr>"

definition later_state :: State where
  "later_state = (plan_state ''s1'')\<lparr>st_Version := 1, st_ProjectPath := ''/p'',
     st_Tasks := [(mk_task ''US-001-T1'' ''Parser'' TaskSuccess)\<lparr>task_CreatedAt := 7\<rparr>]\<rparr>"

lemma second_save:
  "map (\<lambda>r. (fst r, task_ID (snd r), task_CreatedAt (snd r))) (db_tasks (repo_db restarted)) = [(''s1'', ''US-001-T1'', 0)]"
  "db_stories (repo_db restarted) = []" "repo_cache restarted ''s1'' = None" "\<not> isl (snd (Save sample_env restarted later_state))"
  by code_simp+

theorem store_roundtrip_witness:
  "\<exists>l. LoadByID (\<lambda>d x. x) (repo_db (fst (Save sample_env restarted later_state))) ''s1'' = Inr l
     \<and> st_ProjectPath l = ''/p'' \<and> (\<lambda>t. (task_Status t, task_CreatedAt t)) ` set (st_Tasks l) = {(TaskSuccess, 0)}"
proof -
  obtain r' s' where sv: "Save sample_env restarted later_state = (r', Inr s')"
    using second_save(4) by (cases "Save sample_env restarted later_state"; cases "snd (Save sample_env restarted later_state)") auto
  obtain row where row: "db_tasks (repo_db restarted) = [row]" "fst row = ''s1''" "task_ID (snd row) = ''US-001-T1''" "task_CreatedAt (snd row) = 0"
    using second_save(1) by (auto simp: map_eq_Cons_conv)
  have l: "st_ID later_state = ''s1''" "st_Stories later_state = []" "st_Files later_state = []" "st_ValidationCriteria later_state = []"
    "st_ActiveAgents later_state = []" "st_ProjectPath later_state = ''/p''"
    "st_Tasks later_state = [(mk_task ''US-001-T1'' ''Parser'' TaskSuccess)\<lparr>task_CreatedAt := 7\<rparr>]"
    by (simp_all add: later_state_def plan_state_def mk_state_def)
  have "(\<lambda>t. (task_Status t, task_CreatedAt t)) ` (stored_task (db_tasks (repo_db restarted)) ` set (st_Tasks later_state)
      \<union> {t \<in> set (rows_of ''s1'' (db_tasks (repo_db restarted))). left_task later_state t}) = {(TaskSuccess, 0)}"
    using row by (auto simp: l stored_task_def left_task_def rows_of_def mk_task_def task_columns_def)
  with store_roundtrip [OF sv] show ?thesis by (fastforce simp: l second_save(2,3) row(1) sv)
qed

section \<open>Summaries\<close>

lemma addTask_map:
  assumes "distinct (map sum_ID acc)"
  shows "addTask acc row = map (\<lambda>sm. if sum_ID sm = fst row then accumulate_task sm (snd row) else sm) acc"
proof (cases "find (\<lambda>i. sum_ID (acc ! i) = fst row) (rev [0..<length acc])")
  case None
  then have "\<forall>sm \<in> set acc. sum_ID sm \<noteq> fst row" by (auto simp: find_None_iff in_set_conv_nth)
  then have "map (\<lambda>sm. if sum_ID sm = fst row then accumulate_task sm (snd row) else sm) acc = acc" by (intro map_idI) auto
  with None show ?thesis by (simp add: addTask_def)
next
  case (Some i)
  from find_SomeD [OF this] have i: "i < length acc" "sum_ID (acc ! i) = fst row" by simp_all
  have o: "j < length acc \<Longrightarrow> sum_ID (acc ! j) = fst row \<longleftrightarrow> j = i" for j
    using nth_eq_iff_index_eq [OF assms, of j i] i by simp
  show ?thesis
    using Some i o by (auto simp: addTask_def nth_list_update intro!: nth_equalityI)
qed

lemma accumulate_rows:
  "distinct (map sum_ID acc) \<Longrightarrow> foldl addTask acc rows = map (\<lambda>sm. foldl accumulate_task sm (rows_of (sum_ID sm) rows)) acc"
proof (induction rows arbitrary: acc)
  case Nil
  then show ?case by (simp add: rows_of_def)
next
  case (Cons row rows)
  have i: "sum_ID (accumulate_task sm t) = sum_ID sm" for sm t by (simp add: accumulate_task_def Let_def)
  have "map sum_ID (addTask acc row) = map sum_ID acc" using Cons.prems by (auto simp: addTask_map i)
  then have "foldl addTask acc (row # rows)
     = map (\<lambda>sm. foldl accumulate_task sm (rows_of (sum_ID sm) rows)) (addTask acc row)"
    using Cons by simp
  also have "\<dots> = map (\<lambda>sm. foldl accumulate_task sm (rows_of (sum_ID sm) (row # rows))) acc"
    unfolding addTask_map [OF Cons.prems] by (auto simp: rows_of_def i)
  finally show ?case .
qed

lemma accumulate_summarize:
  "foldl accumulate_task (sm\<lparr>sum_TotalTasks := n\<rparr>) ts = (foldl summarize_task sm ts)\<lparr>sum_TotalTasks := n + length ts\<rparr>"
proof (induction ts arbitrary: sm n)
  case Nil
  then show ?case by simp
next
  case (Cons t ts)
  have "accumulate_task (sm\<lparr>sum_TotalTasks := n\<rparr>) t = (summarize_task sm t)\<lparr>sum_TotalTasks := Suc n\<rparr>"
    by (simp add: accumulate_task_def summarize_task_def Let_def)
  with Cons show ?case by simp
qed

lemma addStates: "foldl addState acc ss = acc @ map state_summary ss"
  by (induction ss arbitrary: acc) (simp_all add: addState_def)

lemma summarize_total: "sum_TotalTasks (foldl summarize_task sm ts) = sum_TotalTasks sm"
  by (induction ts arbitrary: sm) (simp_all add: summarize_task_def Let_def)

lemma summarize_loaded:
  "SummarizeState (loadStateRelations (\<lambda>d x. x) d s) = foldl accumulate_task (state_summary s) (rows_of (st_ID s) (db_tasks d))"
proof -
  let ?ts = "rows_of (st_ID s) (db_tasks d)" and ?base = "(state_summary s)\<lparr>sum_TotalTasks := length (rows_of (st_ID s) (db_tasks d))\<rparr>"
  have "state_summary s = ?base\<lparr>sum_TotalTasks := 0\<rparr>" by (simp add: state_summary_def)
  then have "foldl accumulate_task (state_summary s) ?ts = (foldl summarize_task ?base ?ts)\<lparr>sum_TotalTasks := length ?ts\<rparr>"
    using accumulate_summarize [of 0 ?base ?ts] by simp
  also have "\<dots> = foldl summarize_task ?base ?ts"
    using summarize_total [of ?base ?ts] by simp
  finally show ?thesis
    by (simp add: SummarizeState_def load_relations_defs Let_def state_summary_def)
qed

text \<open>The summaries that are accumulated from the rows, without loading the states, are the summaries of the
  loaded states, in the same order.\<close>

theorem summaries_agree:
  assumes "distinct (map st_ID (db_state d))"
  shows "LoadAllSummaries d = map SummarizeState (LoadAll (\<lambda>d x. x) d)"
proof -
  let ?states = "sort_stable load_order (db_state d)"
  have "mset (map st_ID ?states) = mset (map st_ID (db_state d))" by simp
  then have "distinct (map st_ID ?states)" using assms mset_eq_imp_distinct_iff by blast
  then have "distinct (map sum_ID (map state_summary ?states))" by (simp add: o_def state_summary_def)
  then show ?thesis
    by (simp add: LoadAllSummaries_def LoadAll_def addStates accumulate_rows summarize_loaded)
      (simp add: state_summary_def)
qed

theorem summaries_agree_witness:
  "LoadAllSummaries (repo_db (fst (Save sample_env new_repo (plan_state ''s1''))))
   = map SummarizeState (LoadAll (\<lambda>d x. x) (repo_db (fst (Save sample_env new_repo (plan_state ''s1'')))))"
  by (rule summaries_agree) (simp add: save_defs sample_defs)

end
