(* ===== verification/State_Updates.thy ===== *)
theory State_Updates
  imports State_Store
begin

text \<open>
  Updates of the stored state: \<open>updateStateWithRetry\<close> (\<open>src/pkg/services/orchestrator.go\<close>),
  \<open>SaveStateWithBackoff\<close> (\<open>command_channel_helpers.go\<close>) and \<open>StateMutationCmd\<close> (\<open>command_channel.go\<close>). Each loads the state,
  applies a function and saves; the first two start again after a version conflict. The repository is its
  two operations, \<open>load\<close> and \<open>save\<close>; the environment says what is given to them at each attempt, which
  saves of others come between, and how a pause ends. The log lists all saves, with a flag for those of
  the update, and \<open>us_seen\<close> the states that the function was applied to (without an error), as its closure may count them. The locale \<open>loading_store\<close> extends \<open>versioned_store\<close> by loading, and is interpreted on the SQLite repository.
\<close>

section \<open>Operations\<close>

datatype update_error = StoreError store_error | UpdateFailed string | RetriesExhausted | Interrupted | ContextEnded

text \<open>How \<open>SendSync\<close> ends: the context is over before the command is queued, the end of the mailbox empties the
  queue, the command is executed after saves of others and the sender reads its answer, or the sender's context
  ends while the command is queued or executed. Such a command is executed all the same unless it is discarded; the flag
  says whether its function had run before the sender returned. Where the mailbox has stopped between the test and the call,
  \<open>SendSync\<close> executes the command itself, which is an answer too.\<close>

datatype 'v sync_end = NotQueued | Discarded | Answered "('v \<times> State) list" | GivenUp "('v \<times> State) list" bool

record 'v update_env =
  ue_env :: "nat \<Rightarrow> 'v"
  ue_before :: "nat \<Rightarrow> ('v \<times> State) list"
  ue_after :: "nat \<Rightarrow> ('v \<times> State) list"
  ue_wait :: "nat \<Rightarrow> update_error option"
  ue_sync :: "'v sync_end"

record ('r, 'v) update_state =
  us_repo :: 'r
  us_log :: "(bool \<times> 'v \<times> State) list"
  us_seen :: "State list"

type_synonym ('r, 'v) save_op = "'v \<Rightarrow> 'r \<Rightarrow> State \<Rightarrow> 'r \<times> (store_error + State)"
type_synonym ('r, 'v) load_op = "'v \<Rightarrow> 'r \<Rightarrow> store_error + State"
type_synonym update_fn = "nat \<Rightarrow> State \<Rightarrow> update_error + State"

definition do_save :: "('r, 'v) save_op \<Rightarrow> bool \<Rightarrow> 'v \<Rightarrow> State \<Rightarrow> ('r, 'v) update_state
    \<Rightarrow> (store_error + State) \<times> ('r, 'v) update_state" where
  "do_save save own v s u =
     (let (r, res) = save v (us_repo u) s in (res, u\<lparr>us_repo := r, us_log := us_log u @ [(own, v, s)]\<rparr>))"

fun others_save :: "('r, 'v) save_op \<Rightarrow> ('v \<times> State) list \<Rightarrow> ('r, 'v) update_state \<Rightarrow> ('r, 'v) update_state" where
  "others_save save [] u = u"
| "others_save save ((v, s) # es) u = others_save save es (snd (do_save save False v s u))"

text \<open>One cycle of loading, changing and saving: it may be refused by the save or end before it.\<close>

datatype cycle_end = Saved | Refused store_error | Failed update_error

definition load_mutate_save :: "('r, 'v) load_op \<Rightarrow> ('r, 'v) save_op \<Rightarrow> 'v update_env \<Rightarrow> update_fn \<Rightarrow> nat
    \<Rightarrow> ('r, 'v) update_state \<Rightarrow> cycle_end \<times> ('r, 'v) update_state" where
  "load_mutate_save load save env fn n u =
     (case load (ue_env env n) (us_repo u) of
        Inl e \<Rightarrow> (Failed (StoreError e), u)
      | Inr s \<Rightarrow>
          (case fn n s of
             Inl e \<Rightarrow> (Failed e, u)
           | Inr s' \<Rightarrow>
               (let u0 = u\<lparr>us_seen := us_seen u @ [s]\<rparr>;
                    (res, u') = do_save save True (ue_env env n) s' (others_save save (ue_before env n) u0)
                in (case res of Inl e \<Rightarrow> Refused e | Inr _ \<Rightarrow> Saved, u'))))"

text \<open>The loop of \<open>updateStateWithRetry\<close>: \<open>left\<close> attempts remain, \<open>attempt\<close> is the next one.\<close>

primrec update_loop :: "('r, 'v) load_op \<Rightarrow> ('r, 'v) save_op \<Rightarrow> 'v update_env \<Rightarrow> update_fn \<Rightarrow> nat \<Rightarrow> nat \<Rightarrow> nat
    \<Rightarrow> ('r, 'v) update_state \<Rightarrow> update_error option \<times> ('r, 'v) update_state" where
  "update_loop load save env fn maxRetries 0 attempt u = (None, u)"
| "update_loop load save env fn maxRetries (Suc left) attempt u =
     (case load_mutate_save load save env fn attempt u of
        (Saved, u1) \<Rightarrow> (None, u1)
      | (Failed e, u1) \<Rightarrow> (Some e, u1)
      | (Refused e, u1) \<Rightarrow>
          (if e \<noteq> VersionConflict then (Some (StoreError e), u1)
           else if attempt = maxRetries then (Some RetriesExhausted, u1)
           else let u2 = others_save save (ue_after env attempt) u1
                in (case ue_wait env attempt of
                      Some e' \<Rightarrow> (Some e', u2)
                    | None \<Rightarrow> update_loop load save env fn maxRetries left (attempt + 1) u2)))"

definition max_retries :: "int \<Rightarrow> nat" where
  "max_retries OCCMaxRetries = (if OCCMaxRetries \<le> 0 then 20 else nat OCCMaxRetries)"

text \<open>Change the first task with the given identifier.\<close>

fun update_task :: "string \<Rightarrow> (Task \<Rightarrow> Task) \<Rightarrow> Task list \<Rightarrow> Task list option" where
  "update_task i f [] = None"
| "update_task i f (t # ts) = (if task_ID t = i then Some (f t # ts) else map_option (Cons t) (update_task i f ts))"

text \<open>While a mailbox runs, the update is one command of its loop (\<open>StateMutationCmd\<close>), without a retry. The sender may
  return before the command is executed; since the mailbox has one consumer and keeps the order, a later update of
  the same sender comes after it. \<open>us_seen\<close> counts only runs of the function before the sender returned.\<close>

definition StateMutationCmd_Execute :: "('r, 'v) load_op \<Rightarrow> ('r, 'v) save_op \<Rightarrow> 'v update_env \<Rightarrow> update_fn
    \<Rightarrow> ('r, 'v) update_state \<Rightarrow> update_error option \<times> ('r, 'v) update_state" where
  "StateMutationCmd_Execute load save env fn u =
     (let (out, u1) = load_mutate_save load save env fn 0 u
      in (case out of Saved \<Rightarrow> None | Refused e \<Rightarrow> Some (StoreError e) | Failed e \<Rightarrow> Some e, u1))"

definition SendSync :: "('r, 'v) load_op \<Rightarrow> ('r, 'v) save_op \<Rightarrow> 'v update_env \<Rightarrow> update_fn
    \<Rightarrow> ('r, 'v) update_state \<Rightarrow> update_error option \<times> ('r, 'v) update_state" where
  "SendSync load save env fn u =
     (case ue_sync env of
        NotQueued \<Rightarrow> (Some ContextEnded, u)
      | Discarded \<Rightarrow> (Some ContextEnded, u)
      | Answered es \<Rightarrow> StateMutationCmd_Execute load save env fn (others_save save es u)
      | GivenUp es counted \<Rightarrow>
          (let (res, u1) = StateMutationCmd_Execute load save env fn (others_save save es u)
           in (Some ContextEnded, if counted then u1 else u1\<lparr>us_seen := us_seen u\<rparr>)))"

definition updateStateWithRetry :: "('r, 'v) load_op \<Rightarrow> ('r, 'v) save_op \<Rightarrow> 'v update_env \<Rightarrow> int \<Rightarrow> bool \<Rightarrow> update_fn
    \<Rightarrow> ('r, 'v) update_state \<Rightarrow> update_error option \<times> ('r, 'v) update_state" where
  "updateStateWithRetry load save env OCCMaxRetries mailboxRunning fn u =
     (if mailboxRunning then SendSync load save env fn u
      else update_loop load save env fn (max_retries OCCMaxRetries) (Suc (max_retries OCCMaxRetries)) 0 u)"

text \<open>\<open>SaveStateWithBackoff\<close>: a fixed number of attempts, a pause after every conflict, also the last.\<close>

definition occRetryMaxAttempts :: nat where
  "occRetryMaxAttempts = 20"

primrec backoff_loop :: "('r, 'v) load_op \<Rightarrow> ('r, 'v) save_op \<Rightarrow> 'v update_env \<Rightarrow> update_fn \<Rightarrow> nat \<Rightarrow> nat
    \<Rightarrow> update_error option \<Rightarrow> ('r, 'v) update_state \<Rightarrow> update_error option \<times> ('r, 'v) update_state" where
  "backoff_loop load save env fn 0 attempt lastErr u = (lastErr, u)"
| "backoff_loop load save env fn (Suc left) attempt lastErr u =
     (case load_mutate_save load save env fn attempt u of
        (Saved, u1) \<Rightarrow> (None, u1)
      | (Failed e, u1) \<Rightarrow> (Some e, u1)
      | (Refused e, u1) \<Rightarrow>
          (if e \<noteq> VersionConflict then (Some (StoreError e), u1)
           else let u2 = others_save save (ue_after env attempt) u1
                in (case ue_wait env attempt of
                      Some e' \<Rightarrow> (Some e', u2)
                    | None \<Rightarrow> backoff_loop load save env fn left (attempt + 1) (Some (StoreError e)) u2)))"

definition SaveStateWithBackoff :: "('r, 'v) load_op \<Rightarrow> ('r, 'v) save_op \<Rightarrow> 'v update_env \<Rightarrow> (State \<Rightarrow> State)
    \<Rightarrow> ('r, 'v) update_state \<Rightarrow> update_error option \<times> ('r, 'v) update_state" where
  "SaveStateWithBackoff load save env mutate u =
     backoff_loop load save env (\<lambda>n s. Inr (mutate s)) occRetryMaxAttempts 0 None u"

text \<open>The handlers that pause, resume and cancel a story: \<open>None\<close> is the positive response.\<close>

definition storyStatusHandler :: "('r, 'v) load_op \<Rightarrow> ('r, 'v) save_op \<Rightarrow> 'v update_env \<Rightarrow> StoryStatus
    \<Rightarrow> ('r, 'v) update_state \<Rightarrow> update_error option \<times> ('r, 'v) update_state" where
  "storyStatusHandler load save env status u = SaveStateWithBackoff load save env (\<lambda>s. s\<lparr>st_StoryStatus := status\<rparr>) u"

section \<open>The contract of a repository with loading\<close>

text \<open>The states that the update itself has committed.\<close>

fun own_commits :: "('r, 'v) save_op \<Rightarrow> 'r \<Rightarrow> (bool \<times> 'v \<times> State) list \<Rightarrow> State list" where
  "own_commits save r [] = []"
| "own_commits save r ((own, v, s) # es) =
     (if own \<and> \<not> isl (snd (save v r s)) then s # own_commits save (fst (save v r s)) es
      else own_commits save (fst (save v r s)) es)"

definition keeps_key :: "update_fn \<Rightarrow> bool" where
  "keeps_key fn \<longleftrightarrow> (\<forall>n s s'. fn n s = Inr s' \<longrightarrow> st_ID s' = st_ID s \<and> st_Version s' = st_Version s)"

locale loading_store = versioned_store ver save
  for ver :: "'r \<Rightarrow> string \<Rightarrow> int" and save :: "'v \<Rightarrow> 'r \<Rightarrow> State \<Rightarrow> 'r \<times> (store_error + State)" +
  fixes load :: "'v \<Rightarrow> 'r \<Rightarrow> store_error + State" and wf :: "'r \<Rightarrow> bool"
  assumes load_version: "wf r \<Longrightarrow> load v r = Inr s \<Longrightarrow> st_Version s = ver r (st_ID s)"
    and wf_save: "wf r \<Longrightarrow> wf (fst (save v r s))"
begin

lemma run_append: "run r (xs @ ys) = run (run r xs) ys"
  by (induction r xs rule: run.induct) simp_all

lemma wf_run: "wf r \<Longrightarrow> wf (run r es)"
  by (induction r es rule: run.induct) (simp_all add: wf_save)

lemma own_commits_append:
  "own_commits save r (xs @ ys) = own_commits save r xs @ own_commits save (run r (map snd xs)) ys"
  by (induction xs arbitrary: r) auto

lemma own_commits_others [simp]: "own_commits save r (map (Pair False) es) = []"
  by (induction es arbitrary: r) auto

lemma others_save_log:
  "us_log (others_save save es u) = us_log u @ map (Pair False) es \<and> us_repo (others_save save es u) = run (us_repo u) es"
  by (induction es arbitrary: u) (auto simp: do_save_def Let_def split: prod.splits)

text \<open>What one cycle does: its own save is the last, and if that succeeds then nobody else has
  committed the state since it was loaded.\<close>

lemma cycle_run:
  assumes "load_mutate_save load save env fn n u = (out, u')" "wf (us_repo u)" "keeps_key fn"
    and "length (ue_before env n) < 2 ^ 64"
  shows "\<exists>new. us_log u' = us_log u @ new \<and> us_repo u' = run (us_repo u) (map snd new)
    \<and> (if out = Saved
       then \<exists>s s'. load (ue_env env n) (us_repo u) = Inr s \<and> fn n s = Inr s'
         \<and> new = map (Pair False) (ue_before env n) @ [(True, ue_env env n, s')]
         \<and> commits (st_ID s) (us_repo u) (ue_before env n) = 0 \<and> own_commits save (us_repo u) new = [s']
       else own_commits save (us_repo u) new = [])"
proof (cases "load (ue_env env n) (us_repo u)")
  case (Inl e)
  with assms(1) show ?thesis by (intro exI [of _ "[]"]) (auto simp: load_mutate_save_def)
next
  case (Inr s)
  show ?thesis
  proof (cases "fn n s")
    case (Inl e)
    with assms(1) Inr show ?thesis by (intro exI [of _ "[]"]) (auto simp: load_mutate_save_def)
  next
    case fn: (Inr s')
    let ?r1 = "run (us_repo u) (ue_before env n)" and ?v = "ue_env env n"
    obtain r2 res where sv: "save ?v ?r1 s' = (r2, res)" by fastforce
    have u': "us_log u' = us_log u @ map (Pair False) (ue_before env n) @ [(True, ?v, s')]" "us_repo u' = r2"
      "out = (case res of Inl e \<Rightarrow> Refused e | Inr _ \<Rightarrow> Saved)"
      using assms(1) Inr fn sv others_save_log [of "ue_before env n" "u\<lparr>us_seen := us_seen u @ [s]\<rparr>"]
      by (auto simp: load_mutate_save_def do_save_def Let_def split: prod.splits)
    have "commits (st_ID s) (us_repo u) (ue_before env n) = 0" if "res = Inr s2" for s2
    proof -
      let ?k = "commits (st_ID s) (us_repo u) (ue_before env n)"
      have "ver ?r1 (st_ID s) = ver (us_repo u) (st_ID s)"
        using save_ok [of ?v ?r1 s' r2 s2] sv that fn assms(3) load_version [OF assms(2) Inr] by (auto simp: keeps_key_def)
      with ver_run [of "us_repo u" "ue_before env n" "st_ID s"]
      have "(ver (us_repo u) (st_ID s) + int ?k) mod 2 ^ 64 = (ver (us_repo u) (st_ID s) + 0) mod 2 ^ 64" by simp
      then have "int ?k mod 2 ^ 64 = 0" unfolding mod_eq_dvd_iff by (simp add: dvd_eq_mod_eq_0)
      moreover have "?k < 2 ^ 64" using le_less_trans [OF commits_le assms(4)] .
      then have "int ?k < 2 ^ 64" by simp
      ultimately show ?thesis by simp
    qed
    with u' sv Inr fn show ?thesis
      by (intro exI [of _ "map (Pair False) (ue_before env n) @ [(True, ?v, s')]"])
        (auto simp: run_append own_commits_append comp_def split: sum.splits)
  qed
qed

end

section \<open>Updates are atomic\<close>

context loading_store
begin

text \<open>What every run of the loops leaves: one own commit, of the changed state as it was stored right before,
  or none.\<close>

definition one_commit :: "'v update_env \<Rightarrow> update_fn \<Rightarrow> 'r \<Rightarrow> (bool \<times> 'v \<times> State) list \<Rightarrow> bool" where
  "one_commit env fn r log \<longleftrightarrow>
     (\<exists>pre mid n s s'. log = pre @ map (Pair False) mid @ [(True, ue_env env n, s')]
        \<and> own_commits save r log = [s']
        \<and> load (ue_env env n) (run r (map snd pre)) = Inr s \<and> fn n s = Inr s'
        \<and> commits (st_ID s) (run r (map snd pre)) mid = 0)"

definition atomic_update :: "'v update_env \<Rightarrow> update_fn \<Rightarrow> 'r \<Rightarrow> (bool \<times> 'v \<times> State) list \<Rightarrow> update_error option \<Rightarrow> bool" where
  "atomic_update env fn r log res \<longleftrightarrow>
     (case res of Some e \<Rightarrow> own_commits save r log = [] | None \<Rightarrow> one_commit env fn r log)"

lemma atomic_update_prepend:
  assumes "atomic_update env fn (run r (map snd old)) new res" "own_commits save r old = []"
  shows "atomic_update env fn r (old @ new) res"
proof (cases res)
  case (Some e)
  with assms show ?thesis by (simp add: atomic_update_def own_commits_append)
next
  case None
  with assms(1) obtain pre mid n s s' where h: "new = pre @ map (Pair False) mid @ [(True, ue_env env n, s')]"
    "own_commits save (run r (map snd old)) new = [s']" "load (ue_env env n) (run (run r (map snd old)) (map snd pre)) = Inr s"
    "fn n s = Inr s'" "commits (st_ID s) (run (run r (map snd old)) (map snd pre)) mid = 0"
    by (auto simp: atomic_update_def one_commit_def)
  have own: "own_commits save r (old @ new) = [s']" using assms(2) h(2) by (simp only: own_commits_append append_Nil)
  show ?thesis
    unfolding atomic_update_def one_commit_def None option.case
    by (rule exI [of _ "old @ pre"], rule exI [of _ mid], rule exI [of _ n], rule exI [of _ s], rule exI [of _ s'],
        simp only: map_append run_append h(3-5) own) (simp only: h(1) append_assoc)
qed

text \<open>The repository follows the log, and the log is atomic.\<close>

definition updates :: "'v update_env \<Rightarrow> update_fn \<Rightarrow> ('r, 'v) update_state \<Rightarrow> update_error option \<Rightarrow> ('r, 'v) update_state \<Rightarrow> bool" where
  "updates env fn u res u' \<longleftrightarrow>
     (\<exists>new. us_log u' = us_log u @ new \<and> us_repo u' = run (us_repo u) (map snd new) \<and> atomic_update env fn (us_repo u) new res)"

lemma updates_after:
  assumes "us_log u1 = us_log u @ old" "us_repo u1 = run (us_repo u) (map snd old)" "own_commits save (us_repo u) old = []"
    and "updates env fn u1 res u'"
  shows "updates env fn u res u'"
proof -
  from assms(4) obtain new where "us_log u' = us_log u1 @ new" "us_repo u' = run (us_repo u1) (map snd new)"
    "atomic_update env fn (us_repo u1) new res" by (auto simp: updates_def)
  with assms(1-3) show ?thesis
    unfolding updates_def by (intro exI [of _ "old @ new"]) (simp add: run_append atomic_update_prepend)
qed

lemma updates_error: "updates env fn u (Some e) u"
  unfolding updates_def atomic_update_def by (intro exI [of _ "[]"]) simp

lemma paused_updates: "Some e = w \<Longrightarrow> updates env fn u w u"
  using updates_error by auto

text \<open>One round of a loop; the last premise is what follows a refusal.\<close>

lemma round_updates:
  assumes cyc: "load_mutate_save load save env fn n u = (out, u1)" and "wf (us_repo u)" "keeps_key fn" "length (ue_before env n) < 2 ^ 64"
    and saved: "out = Saved \<Longrightarrow> (res, u') = (None, u1)"
    and failed: "\<And>e. out = Failed e \<Longrightarrow> (res, u') = (Some e, u1)"
    and refused: "\<And>e. out = Refused e \<Longrightarrow> wf (us_repo (others_save save es u1)) \<Longrightarrow> (\<exists>e'. res = Some e' \<and> u' = u1)
         \<or> updates env fn (others_save save es u1) res u'"
  shows "updates env fn u res u'"
proof -
  from cycle_run [OF assms(1-4)] obtain new where new: "us_log u1 = us_log u @ new" "us_repo u1 = run (us_repo u) (map snd new)"
    "if out = Saved
     then \<exists>s s'. load (ue_env env n) (us_repo u) = Inr s \<and> fn n s = Inr s'
         \<and> new = map (Pair False) (ue_before env n) @ [(True, ue_env env n, s')]
         \<and> commits (st_ID s) (us_repo u) (ue_before env n) = 0 \<and> own_commits save (us_repo u) new = [s']
       else own_commits save (us_repo u) new = []" by blast
  note after = updates_after [OF new(1,2)]
  show ?thesis
  proof (cases out)
    case Saved
    with new(3) obtain s s' where h: "load (ue_env env n) (us_repo u) = Inr s" "fn n s = Inr s'"
      "new = map (Pair False) (ue_before env n) @ [(True, ue_env env n, s')]"
      "commits (st_ID s) (us_repo u) (ue_before env n) = 0" "own_commits save (us_repo u) new = [s']" by auto
    have "atomic_update env fn (us_repo u) new None"
      unfolding atomic_update_def one_commit_def option.case
      by (rule exI [of _ "[]"], rule exI [of _ "ue_before env n"], rule exI [of _ n], rule exI [of _ s], rule exI [of _ s'])
        (use h in simp)
    with new(1,2) saved [OF Saved] show ?thesis by (auto simp: updates_def)
  next
    case (Failed e)
    with failed new(3) after updates_error show ?thesis by auto
  next
    case (Refused e)
    with new(3) have none: "own_commits save (us_repo u) new = []" by simp
    let ?u2 = "others_save save es u1"
    have u2: "us_log ?u2 = us_log u @ new @ map (Pair False) es" "us_repo ?u2 = run (us_repo u) (map snd (new @ map (Pair False) es))"
      "own_commits save (us_repo u) (new @ map (Pair False) es) = []"
      using others_save_log [of es u1] new(1,2) none by (simp_all add: run_append own_commits_append comp_def)
    then have "wf (us_repo ?u2)" using assms(2) by (simp add: wf_run)
    from refused [OF Refused this] show ?thesis
    proof
      assume "\<exists>e'. res = Some e' \<and> u' = u1"
      with after [OF none] updates_error show ?thesis by auto
    next
      assume "updates env fn ?u2 res u'"
      with updates_after [OF u2] show ?thesis by blast
    qed
  qed
qed

lemma update_loop_updates:
  assumes "update_loop load save env fn m left n u = (res, u')" "wf (us_repo u)" "keeps_key fn"
    and "\<forall>k. length (ue_before env k) < 2 ^ 64" "left = Suc (m - n)" "n \<le> m"
  shows "updates env fn u res u'"
  using assms
proof (induction left arbitrary: n u)
  case (Suc left)
  obtain out u1 where cyc: "load_mutate_save load save env fn n u = (out, u1)" by fastforce
  show ?case
  proof (rule round_updates [OF cyc Suc.prems(2,3) Suc.prems(4) [rule_format]])
    fix e assume out: "out = Refused e" and wf: "wf (us_repo (others_save save (ue_after env n) u1))"
    show "(\<exists>e'. res = Some e' \<and> u' = u1) \<or> updates env fn (others_save save (ue_after env n) u1) res u'"
    proof (cases "e = VersionConflict \<and> n \<noteq> m \<and> ue_wait env n = None")
      case True
      with Suc.prems(1) cyc out have "update_loop load save env fn m left (n + 1) (others_save save (ue_after env n) u1) = (res, u')"
        by simp
      moreover have "left = Suc (m - (n + 1))" "n + 1 \<le> m" using Suc.prems(5,6) True by linarith+
      ultimately show ?thesis using Suc.IH [OF _ wf Suc.prems(3,4)] by blast
    next
      case False
      then show ?thesis using Suc.prems(1) cyc out
        by (auto simp: paused_updates split: if_splits option.splits)
    qed
  qed (use Suc.prems(1) cyc in auto)
qed simp

lemma backoff_loop_updates:
  assumes "backoff_loop load save env fn left n lastErr u = (res, u')" "wf (us_repo u)" "keeps_key fn"
    and "\<forall>k. length (ue_before env k) < 2 ^ 64" "left = 0 \<longrightarrow> lastErr \<noteq> None"
  shows "updates env fn u res u'"
  using assms
proof (induction left arbitrary: n lastErr u)
  case 0
  then show ?case by (auto simp: updates_error)
next
  case (Suc left)
  obtain out u1 where cyc: "load_mutate_save load save env fn n u = (out, u1)" by fastforce
  show ?case
  proof (rule round_updates [OF cyc Suc.prems(2,3) Suc.prems(4) [rule_format]])
    fix e assume out: "out = Refused e" and wf: "wf (us_repo (others_save save (ue_after env n) u1))"
    show "(\<exists>e'. res = Some e' \<and> u' = u1) \<or> updates env fn (others_save save (ue_after env n) u1) res u'"
    proof (cases "e = VersionConflict \<and> ue_wait env n = None")
      case True
      with Suc.prems(1) cyc out
      have "backoff_loop load save env fn left (n + 1) (Some (StoreError e)) (others_save save (ue_after env n) u1) = (res, u')"
        by simp
      with Suc.IH [OF this wf Suc.prems(3,4)] show ?thesis by simp
    next
      case False
      then show ?thesis using Suc.prems(1) cyc out
        by (auto simp: paused_updates split: if_splits option.splits)
    qed
  qed (use Suc.prems(1) cyc in auto)
qed

lemma StateMutationCmd_updates:
  assumes "StateMutationCmd_Execute load save env fn u = (res, u')" "wf (us_repo u)" "keeps_key fn"
    and "\<forall>k. length (ue_before env k) < 2 ^ 64"
  shows "updates env fn u res u'"
proof -
  obtain out u1 where cyc: "load_mutate_save load save env fn 0 u = (out, u1)" by fastforce
  show ?thesis
    by (rule round_updates [OF cyc assms(2,3) assms(4) [rule_format], where es = "[]"])
      (use assms(1) cyc in \<open>auto simp: StateMutationCmd_Execute_def\<close>)
qed

text \<open>What a sender that gave up leaves: its command has committed once or not at all.\<close>

definition settled :: "'v update_env \<Rightarrow> update_fn \<Rightarrow> bool \<Rightarrow> 'r \<Rightarrow> (bool \<times> 'v \<times> State) list \<Rightarrow> update_error option \<Rightarrow> bool" where
  "settled env fn mailbox r log res \<longleftrightarrow> atomic_update env fn r log res
     \<or> (mailbox \<and> res = Some ContextEnded \<and> (\<exists>es c. ue_sync env = GivenUp es c) \<and> one_commit env fn r log)"

lemma executed_updates:
  assumes "StateMutationCmd_Execute load save env fn (others_save save es u) = (res, u')" "wf (us_repo u)" "keeps_key fn"
    and "\<forall>k. length (ue_before env k) < 2 ^ 64"
  shows "updates env fn u res u'"
proof -
  have "wf (us_repo (others_save save es u))" using assms(2) by (simp add: others_save_log wf_run)
  from StateMutationCmd_updates [OF assms(1) this assms(3,4)] show ?thesis
    by (rule updates_after [where old = "map (Pair False) es", rotated 3]) (simp_all add: others_save_log comp_def)
qed

lemma SendSync_updates:
  assumes "SendSync load save env fn u = (res, u')" "wf (us_repo u)" "keeps_key fn" "\<forall>k. length (ue_before env k) < 2 ^ 64"
  shows "\<exists>new. us_log u' = us_log u @ new \<and> us_repo u' = run (us_repo u) (map snd new) \<and> settled env fn True (us_repo u) new res"
proof (cases "ue_sync env")
  case (Answered es)
  with executed_updates [OF _ assms(2-4), of es res u'] assms(1) show ?thesis
    by (auto simp: SendSync_def updates_def settled_def)
next
  case (GivenUp es c)
  obtain res1 u1 where run: "StateMutationCmd_Execute load save env fn (others_save save es u) = (res1, u1)" by fastforce
  from executed_updates [OF run assms(2-4)] obtain new where
    "us_log u1 = us_log u @ new" "us_repo u1 = run (us_repo u) (map snd new)" "atomic_update env fn (us_repo u) new res1"
    by (auto simp: updates_def)
  with GivenUp run assms(1) show ?thesis
    by (intro exI [of _ new]) (auto simp: SendSync_def settled_def atomic_update_def split: if_splits option.splits)
qed (use assms(1) in \<open>auto simp: SendSync_def settled_def atomic_update_def intro!: exI [of _ "[]"]\<close>)

lemma updateStateWithRetry_settled:
  assumes "updateStateWithRetry load save env occ mailbox fn u = (res, u')" "wf (us_repo u)" "keeps_key fn"
    and "\<forall>k. length (ue_before env k) < 2 ^ 64"
  shows "\<exists>new. us_log u' = us_log u @ new \<and> us_repo u' = run (us_repo u) (map snd new) \<and> settled env fn mailbox (us_repo u) new res"
proof (cases mailbox)
  case True
  with assms SendSync_updates [OF _ assms(2-4)] show ?thesis by (simp add: updateStateWithRetry_def)
next
  case False
  with assms(1) have "update_loop load save env fn (max_retries occ) (Suc (max_retries occ)) 0 u = (res, u')"
    by (simp add: updateStateWithRetry_def del: update_loop.simps)
  from update_loop_updates [OF this assms(2-4)] show ?thesis by (auto simp: updates_def settled_def)
qed

lemma SaveStateWithBackoff_updates:
  "SaveStateWithBackoff load save env mutate u = (res, u') \<Longrightarrow> wf (us_repo u) \<Longrightarrow> keeps_key (\<lambda>n s. Inr (mutate s))
     \<Longrightarrow> \<forall>k. length (ue_before env k) < 2 ^ 64 \<Longrightarrow> updates env (\<lambda>n s. Inr (mutate s)) u res u'"
  by (auto simp: SaveStateWithBackoff_def occRetryMaxAttempts_def simp del: backoff_loop.simps intro: backoff_loop_updates)

end

section \<open>The SQLite repository\<close>

text \<open>\<open>qa\<close> stands for \<open>loadQAReviews\<close>, which fills four fields.\<close>

definition with_reviews :: "(db \<Rightarrow> string \<Rightarrow> StoryContract list \<times> ReviewPhase list \<times> QAScenario list \<times> QAFinding list)
    \<Rightarrow> db \<Rightarrow> State \<Rightarrow> State" where
  "with_reviews qa d s =
     (case qa d (st_ID s) of (cs, ps, ss, fs) \<Rightarrow>
        s\<lparr>st_StoryContracts := cs, st_ReviewPhases := ps, st_QAScenarios := ss, st_QAFindings := fs\<rparr>)"

definition sqlite_load :: "(db \<Rightarrow> string \<Rightarrow> StoryContract list \<times> ReviewPhase list \<times> QAScenario list \<times> QAFinding list)
    \<Rightarrow> ('h repo, 'h save_env) load_op" where
  "sqlite_load qa env r = (if se_healthy env then Load (with_reviews qa) (repo_db r) else Inl DatabaseError)"

definition keyed_rows :: "'h repo \<Rightarrow> bool" where
  "keyed_rows r \<longleftrightarrow> distinct (map st_ID (db_state (repo_db r)))"

lemma loaded_row:
  assumes "sqlite_load qa env r = Inr s"
  shows "\<exists>row \<in> set (db_state (repo_db r)). s = loadStateRelations (with_reviews qa) (repo_db r) row
    \<and> st_ID s = st_ID row \<and> st_Version s = st_Version row"
proof -
  from assms obtain row rest where "sort_stable load_order (db_state (repo_db r)) = row # rest"
    "s = loadStateRelations (with_reviews qa) (repo_db r) row"
    by (auto simp: sqlite_load_def Load_def split: if_splits list.splits)
  moreover from this(1) have "row \<in> set (db_state (repo_db r))"
    using set_sort_stable [of load_order "db_state (repo_db r)"] by auto
  ultimately show ?thesis
    by (intro bexI [of _ row]) (auto simp: load_relations_defs with_reviews_def Let_def split: prod.splits)
qed

lemma write_state_row_keys:
  "write_state_row s cv v d = Inr d' \<Longrightarrow> distinct (map st_ID (db_state d)) \<Longrightarrow> distinct (map st_ID (db_state d'))"
proof -
  have keys: "map (\<lambda>x. st_ID (if st_ID x = st_ID s then state_columns v s else x)) rows = map st_ID rows" for rows
    by (induction rows) auto
  assume "write_state_row s cv v d = Inr d'" "distinct (map st_ID (db_state d))"
  then show ?thesis
    by (auto simp: write_state_row_def insert_new_def Let_def list_ex_iff comp_def keys split: if_splits)
qed

interpretation sqlite_loading: loading_store "\<lambda>r. current_version (repo_db r)" Save "sqlite_load qa" keyed_rows
proof unfold_locales
  fix r :: "'h repo" and env s
  assume wf: "keyed_rows r" and load: "sqlite_load qa env r = Inr s"
  from loaded_row [OF load] obtain row where row: "row \<in> set (db_state (repo_db r))" "st_ID s = st_ID row" "st_Version s = st_Version row"
    by blast
  have "find (\<lambda>x. st_ID x = st_ID row) (db_state (repo_db r)) = Some row"
    using wf row(1) by (induction "db_state (repo_db r)") (auto simp: keyed_rows_def find_Some_iff in_set_conv_nth distinct_conv_nth)
  with row(2,3) show "st_Version s = current_version (repo_db r) (st_ID s)" by (simp add: current_version_def)
next
  fix r :: "'h repo" and env s
  assume wf: "keyed_rows r"
  show "keyed_rows (fst (Save env r s))"
  proof (rule Save_cases [of env r s])
    fix e assume "Save env r s = (r\<lparr>repo_cache := (repo_cache r)(st_ID s := None)\<rparr>, Inl e)"
    with wf show ?thesis by (simp add: keyed_rows_def)
  next
    fix d d'
    assume h: "write_state_row s (st_Version s) (wrap64 (st_Version s + 1)) (repo_db r) = Inr d"
      "rewrite_dirty env s (isGroupClean (repo_cache r (st_ID s)) (computeStateFingerprints (se_fp env) s)) stateRelationGroups d = Inr d'"
      "Save env r s = (r\<lparr>repo_db := d', repo_cache := (repo_cache r)(st_ID s \<mapsto> computeStateFingerprints (se_fp env) s)\<rparr>,
         Inr (s\<lparr>st_Version := wrap64 (st_Version s + 1)\<rparr>))"
    from write_state_row_keys [OF h(1)] wf rewrite_dirty_state_rows [OF h(2)] h(3) show ?thesis by (simp add: keyed_rows_def)
  qed
qed

text \<open>The log ends in a committed save of the update's own, its only one, which stores the changed form of the state
  loaded before it, and no save of others committed that state since.\<close>

definition commits_once :: "(db \<Rightarrow> string \<Rightarrow> StoryContract list \<times> ReviewPhase list \<times> QAScenario list \<times> QAFinding list)
    \<Rightarrow> 'h save_env update_env \<Rightarrow> update_fn \<Rightarrow> 'h repo \<Rightarrow> (bool \<times> 'h save_env \<times> State) list \<Rightarrow> bool" where
  "commits_once qa env fn r log \<longleftrightarrow>
     (\<exists>pre mid n s s'. log = pre @ map (Pair False) mid @ [(True, ue_env env n, s')]
        \<and> own_commits Save r log = [s']
        \<and> sqlite_load qa (ue_env env n) (sqlite.run r (map snd pre)) = Inr s \<and> fn n s = Inr s'
        \<and> sqlite.commits (st_ID s) (sqlite.run r (map snd pre)) mid = 0)"

text \<open>C3: An update through \<open>updateStateWithRetry\<close> leaves the repository as the logged saves leave it. If it succeeds then exactly
  one of its own saves was committed: the last, of the changed form of a state loaded before, and no other save
  of that state succeeded between that load and the commit. If it fails then none of its saves was committed, with one
  exception: a sender whose context ends while its command is in the mailbox gets that error although the command may be executed, and
  then it commits once, as a successful update does. This holds with and without a running mailbox, whatever others save in between.\<close>

theorem update_is_atomic:
  assumes "updateStateWithRetry (sqlite_load qa) Save env occ mailbox fn \<lparr>us_repo = r, us_log = [], us_seen = []\<rparr> = (res, u)"
    and "keyed_rows r" "keeps_key fn" "\<forall>k. length (ue_before env k) < 2 ^ 64"
  shows "us_repo u = sqlite.run r (map snd (us_log u))
    \<and> (case res of
         None \<Rightarrow> commits_once qa env fn r (us_log u)
       | Some e \<Rightarrow> own_commits Save r (us_log u) = []
           \<or> mailbox \<and> e = ContextEnded \<and> (\<exists>es c. ue_sync env = GivenUp es c) \<and> commits_once qa env fn r (us_log u))"
  using sqlite_loading.updateStateWithRetry_settled [OF assms(1) _ assms(3,4)] assms(2)
  by (auto simp: sqlite_loading.settled_def sqlite_loading.atomic_update_def sqlite_loading.one_commit_def commits_once_def
      split: option.splits)

text \<open>Someone else saves the state between the load and the save of the first attempt; the second one succeeds.\<close>

definition race_env :: "relation_rows save_env update_env" where
  "race_env = \<lparr>ue_env = \<lambda>n. sample_env,
     ue_before = \<lambda>n. if n = 0 then [(sample_env, (plan_state ''s1'')\<lparr>st_Version := 1, st_StoryError := ''other''\<rparr>)] else [],
     ue_after = \<lambda>n. [], ue_wait = \<lambda>n. None, ue_sync = Answered []\<rparr>"

definition no_reviews :: "db \<Rightarrow> string \<Rightarrow> StoryContract list \<times> ReviewPhase list \<times> QAScenario list \<times> QAFinding list" where
  "no_reviews d i = ([], [], [], [])"

definition build_failing :: update_fn where
  "build_failing n s = Inr (s\<lparr>st_BuildStatus := BuildFailing\<rparr>)"

definition saved_repo :: "relation_rows repo" where
  "saved_repo = fst (Save sample_env new_repo (plan_state ''s1''))"


lemma race_result:
  "fst (updateStateWithRetry (sqlite_load no_reviews) Save race_env 0 False build_failing \<lparr>us_repo = saved_repo, us_log = [], us_seen = []\<rparr>) = None"
  "map fst (us_log (snd (updateStateWithRetry (sqlite_load no_reviews) Save race_env 0 False build_failing \<lparr>us_repo = saved_repo, us_log = [], us_seen = []\<rparr>)))
     = [False, True, True]"
  "map st_StoryError (own_commits Save saved_repo (us_log (snd (updateStateWithRetry (sqlite_load no_reviews) Save race_env 0 False build_failing
     \<lparr>us_repo = saved_repo, us_log = [], us_seen = []\<rparr>)))) = [''other'']"
  by code_simp+

lemma saved_repo_keyed: "keyed_rows saved_repo"
  unfolding keyed_rows_def by code_simp

lemma build_failing_keeps: "keeps_key build_failing"
  by (simp add: keeps_key_def build_failing_def)

theorem update_is_atomic_witness:
  "\<exists>u. updateStateWithRetry (sqlite_load no_reviews) Save race_env 0 False build_failing \<lparr>us_repo = saved_repo, us_log = [], us_seen = []\<rparr> = (None, u)
     \<and> map fst (us_log u) = [False, True, True] \<and> map st_StoryError (own_commits Save saved_repo (us_log u)) = [''other'']
     \<and> length (own_commits Save saved_repo (us_log u)) = 1"
proof -
  obtain res u where run: "updateStateWithRetry (sqlite_load no_reviews) Save race_env 0 False build_failing
      \<lparr>us_repo = saved_repo, us_log = [], us_seen = []\<rparr> = (res, u)" by fastforce
  with race_result have u: "res = None" "map fst (us_log u) = [False, True, True]"
    "map st_StoryError (own_commits Save saved_repo (us_log u)) = [''other'']" by simp_all
  have "\<forall>k. length (ue_before race_env k) < 2 ^ 64" by (simp add: race_env_def)
  from update_is_atomic [OF run saved_repo_keyed build_failing_keeps this, unfolded u(1) option.case, THEN conjunct2]
  obtain s' where "own_commits Save saved_repo (us_log u) = [s']" unfolding commits_once_def by (elim exE conjE) (rule that)
  then have "length (own_commits Save saved_repo (us_log u)) = 1" by simp
  with run u show ?thesis by (intro exI [of _ u]) simp
qed

text \<open>While a mailbox runs, one save of someone else between load and save makes the update fail: there is no second attempt.\<close>

lemma mailbox_update_not_retried:
  "fst (updateStateWithRetry (sqlite_load no_reviews) Save race_env 0 True build_failing \<lparr>us_repo = saved_repo, us_log = [], us_seen = []\<rparr>)
     = Some (StoreError VersionConflict)"
  by code_simp

text \<open>A sender that gives up while its command waits gets an error for an update that is committed.\<close>

lemma given_up_update_commits:
  "fst (updateStateWithRetry (sqlite_load no_reviews) Save (race_env\<lparr>ue_before := \<lambda>n. [], ue_sync := GivenUp [] False\<rparr>) 0 True build_failing
     \<lparr>us_repo = saved_repo, us_log = [], us_seen = []\<rparr>) = Some ContextEnded"
  "map st_BuildStatus (own_commits Save saved_repo (us_log (snd (updateStateWithRetry (sqlite_load no_reviews) Save
     (race_env\<lparr>ue_before := \<lambda>n. [], ue_sync := GivenUp [] False\<rparr>) 0 True build_failing
     \<lparr>us_repo = saved_repo, us_log = [], us_seen = []\<rparr>)))) = [BuildFailing]"
  by code_simp+

end
