(* ===== verification/Command_Mailbox.thy ===== *)
theory Command_Mailbox
  imports State_Updates Story_Ids
begin

text \<open>
  The commands of the daemon and the mailbox that executes them one at a time: \<open>command_channel.go\<close> and
  \<open>command_channel_steer.go\<close> of \<open>src/pkg/services\<close>. A command loads the state, changes it and saves it, without a
  retry. The mailbox is a bounded queue with one consumer; senders, the consumer's start and its end are steps
  of a relation, so any number of senders may interleave. A synchronous sender waits for the answer that belongs to its
  number. What comes from outside at one execution (clock, time stamp, file system, saves by others) is
  \<open>cmd_env\<close>. The HTTP routes that build commands from requests are left out, and so is \<open>PopAll\<close>, which only tests call.
\<close>

section \<open>Commands\<close>

datatype command =
    StateMutation "State \<Rightarrow> update_error + State"
  | ResolveClarificationCmd string string
  | AddTaskCmd Task
  | OverrideMergeCmd string
  | SteerCmd string string
  | OrderCmd string

record 'v cmd_env =
  ce_update :: "'v update_env"
  ce_now :: gtime
  ce_timestamp :: string
  ce_write_error :: "string option"

definition resolve_clarification :: "string \<Rightarrow> string \<Rightarrow> State \<Rightarrow> update_error + State" where
  "resolve_clarification i answer s =
     (case find (\<lambda>k. clar_Question (st_Clarifications s ! k) = i \<or> fmt_d (int k) = i) [0..<length (st_Clarifications s)] of
        None \<Rightarrow> Inl (UpdateFailed ''clarification not found'')
      | Some k \<Rightarrow> Inr (s\<lparr>st_Clarifications := (st_Clarifications s)
            [k := (st_Clarifications s ! k)\<lparr>clar_Answer := answer, clar_Resolved := True\<rparr>]\<rparr>))"

definition add_task :: "Task \<Rightarrow> State \<Rightarrow> State" where
  "add_task t s =
     (let path = meta_InputPath (st_Metadata s);
          t' = (if task_StoryID t = [] \<and> path \<noteq> [] then t\<lparr>task_StoryID := ExtractStoryID path\<rparr> else t)
      in s\<lparr>st_Tasks := st_Tasks s @ [t']\<rparr>)"

definition override_merge :: "gtime \<Rightarrow> string \<Rightarrow> State \<Rightarrow> update_error + State" where
  "override_merge now i s =
     (case update_task i (\<lambda>t. t\<lparr>task_Status := TaskSuccess, task_UpdatedAt := now\<rparr>) (st_Tasks s) of
        None \<Rightarrow> Inl (UpdateFailed ''task not found'') | Some ts \<Rightarrow> Inr (s\<lparr>st_Tasks := ts\<rparr>))"

definition direct_task :: "gtime \<Rightarrow> string \<Rightarrow> Task \<Rightarrow> Task" where
  "direct_task now d t = t\<lparr>task_UserDirectives := task_UserDirectives t @ [d], task_UpdatedAt := now\<rparr>"

text \<open>To the named task, otherwise to all running tasks, otherwise to the last task; with no task at all the
  directive becomes an action.\<close>

definition steer :: "gtime \<Rightarrow> string \<Rightarrow> string \<Rightarrow> State \<Rightarrow> State" where
  "steer now i d s =
     (let ts = st_Tasks s
      in if ts = [] then s\<lparr>st_LastActions := st_LastActions s @ [\<lparr>act_ID = [], act_Timestamp = now, act_Tool = ''STEER'',
             act_Args = [], act_Reasoning = d, act_Result = ''User steering directive queued'', act_Success = True\<rparr>]\<rparr>
         else if i \<noteq> [] then (case update_task i (direct_task now d) ts of None \<Rightarrow> s | Some ts' \<Rightarrow> s\<lparr>st_Tasks := ts'\<rparr>)
         else if \<exists>t \<in> set ts. task_Status t = TaskInProgress
         then s\<lparr>st_Tasks := map (\<lambda>t. if task_Status t = TaskInProgress then direct_task now d t else t) ts\<rparr>
         else s\<lparr>st_Tasks := butlast ts @ [direct_task now d (last ts)]\<rparr>)"

definition order_path :: "string \<Rightarrow> string \<Rightarrow> string" where
  "order_path projectPath timestamp =
     Clean ((if projectPath = [] then ''.'' else projectPath) @ ''/.noctifab/stories/story_'' @ timestamp @ ''.md'')"

definition add_order :: "gtime \<Rightarrow> string \<Rightarrow> string \<Rightarrow> State \<Rightarrow> State" where
  "add_order now timestamp prompt s = s\<lparr>st_Orders := st_Orders s @ [\<lparr>order_ID = ''order_'' @ timestamp,
     order_Prompt = prompt, order_StoryPath = order_path (st_ProjectPath s) timestamp, order_Status = ''PENDING'',
     order_CreatedAt = now, order_UpdatedAt = now\<rparr>]\<rparr>"

text \<open>The check before the state is loaded, and the change.\<close>

definition precheck :: "command \<Rightarrow> update_error option" where
  "precheck c =
     (case c of
        SteerCmd i d \<Rightarrow> if TrimSpace d = [] then Some (UpdateFailed ''directive cannot be empty'') else None
      | OrderCmd p \<Rightarrow> if TrimSpace p = [] then Some (UpdateFailed ''order prompt cannot be empty'') else None
      | _ \<Rightarrow> None)"

definition mutate :: "'v cmd_env \<Rightarrow> command \<Rightarrow> State \<Rightarrow> update_error + State" where
  "mutate env c s =
     (case c of
        StateMutation f \<Rightarrow> f s
      | ResolveClarificationCmd i answer \<Rightarrow> resolve_clarification i answer s
      | AddTaskCmd t \<Rightarrow> Inr (add_task t s)
      | OverrideMergeCmd i \<Rightarrow> override_merge (ce_now env) i s
      | SteerCmd i d \<Rightarrow> Inr (steer (ce_now env) i d s)
      | OrderCmd p \<Rightarrow> (case ce_write_error env of
            Some e \<Rightarrow> Inl (UpdateFailed e)
          | None \<Rightarrow> Inr (add_order (ce_now env) (ce_timestamp env) (TrimSpace p) s)))"

definition Execute :: "('r, 'v) load_op \<Rightarrow> ('r, 'v) save_op \<Rightarrow> 'v cmd_env \<Rightarrow> command \<Rightarrow> ('r, 'v) update_state
    \<Rightarrow> update_error option \<times> ('r, 'v) update_state" where
  "Execute load save env c u =
     (case precheck c of
        Some e \<Rightarrow> (Some e, u)
      | None \<Rightarrow> StateMutationCmd_Execute load save (ce_update env) (\<lambda>n s. mutate env c s) u)"

text \<open>The story files that successful orders hand to the story channel.\<close>

definition forwarded :: "('r, 'v) load_op \<Rightarrow> 'v cmd_env \<Rightarrow> command \<Rightarrow> 'r \<Rightarrow> update_error option \<Rightarrow> string list" where
  "forwarded load env c r res =
     (case (c, load (ue_env (ce_update env) 0) r, res) of
        (OrderCmd p, Inr s, None) \<Rightarrow> [order_path (st_ProjectPath s) (ce_timestamp env)] | _ \<Rightarrow> [])"

section \<open>The mailbox\<close>

type_synonym message = "nat \<times> command \<times> bool"

text \<open>A message is its number, the command and whether its sender waits. The history fields record what was sent,
  what left the queue, what was executed with which environment, and the answers to waiting senders.\<close>

record ('r, 'v) mailbox =
  mb_repo :: "('r, 'v) update_state"
  mb_queue :: "message list"
  mb_running :: bool
  mb_stories :: "string list"
  mb_sent :: "message list"
  mb_taken :: "message list"
  mb_executed :: "('v cmd_env \<times> message) list"
  mb_answers :: "(nat \<times> update_error option) list"

definition mailbox_capacity :: nat where
  "mailbox_capacity = 100"

definition NewCommandMailbox :: "'r \<Rightarrow> ('r, 'v) mailbox" where
  "NewCommandMailbox r = \<lparr>mb_repo = \<lparr>us_repo = r, us_log = [], us_seen = []\<rparr>, mb_queue = [], mb_running = False, mb_stories = [],
     mb_sent = [], mb_taken = [], mb_executed = [], mb_answers = []\<rparr>"

definition enqueue :: "command \<Rightarrow> bool \<Rightarrow> ('r, 'v) mailbox \<Rightarrow> ('r, 'v) mailbox" where
  "enqueue c sync m =
     (let msg = (length (mb_sent m), c, sync) in m\<lparr>mb_queue := mb_queue m @ [msg], mb_sent := mb_sent m @ [msg]\<rparr>)"

text \<open>The consumer takes the first message, executes it and answers a waiting sender.\<close>

definition consume :: "('r, 'v) load_op \<Rightarrow> ('r, 'v) save_op \<Rightarrow> 'v cmd_env \<Rightarrow> ('r, 'v) mailbox \<Rightarrow> ('r, 'v) mailbox" where
  "consume load save env m =
     (case mb_queue m of
        [] \<Rightarrow> m
      | (n, c, sync) # q \<Rightarrow>
          (let (res, u) = Execute load save env c (mb_repo m)
           in m\<lparr>mb_repo := u, mb_queue := q, mb_stories := mb_stories m @ forwarded load env c (us_repo (mb_repo m)) res,
                mb_taken := mb_taken m @ [(n, c, sync)], mb_executed := mb_executed m @ [(env, n, c, sync)],
                mb_answers := mb_answers m @ (if sync then [(n, res)] else [])\<rparr>))"

text \<open>The end of the consumer: what is left is drained, waiting senders get the error of the context.\<close>

definition drain :: "('r, 'v) mailbox \<Rightarrow> ('r, 'v) mailbox" where
  "drain m = m\<lparr>mb_running := False, mb_queue := [], mb_taken := mb_taken m @ mb_queue m,
     mb_answers := mb_answers m @ map (\<lambda>x. (fst x, Some ContextEnded)) (filter (\<lambda>x. snd (snd x)) (mb_queue m))\<rparr>"

text \<open>Without a running consumer a synchronous sender executes its command itself; it has no message.\<close>

definition execute_directly :: "('r, 'v) load_op \<Rightarrow> ('r, 'v) save_op \<Rightarrow> 'v cmd_env \<Rightarrow> command \<Rightarrow> ('r, 'v) mailbox \<Rightarrow> ('r, 'v) mailbox" where
  "execute_directly load save env c m = m\<lparr>mb_repo := snd (Execute load save env c (mb_repo m))\<rparr>"

inductive mailbox_step :: "('r, 'v) load_op \<Rightarrow> ('r, 'v) save_op \<Rightarrow> ('r, 'v) mailbox \<Rightarrow> ('r, 'v) mailbox \<Rightarrow> bool"
  for load :: "('r, 'v) load_op" and save :: "('r, 'v) save_op" where
  Start: "\<not> mb_running m \<Longrightarrow> mailbox_step load save m (m\<lparr>mb_running := True\<rparr>)"
| Send: "length (mb_queue m) < mailbox_capacity \<Longrightarrow> mailbox_step load save m (enqueue c False m)"
| SendSync: "mb_running m \<Longrightarrow> length (mb_queue m) < mailbox_capacity \<Longrightarrow> mailbox_step load save m (enqueue c True m)"
| SendSync_direct: "\<not> mb_running m \<Longrightarrow> mailbox_step load save m (execute_directly load save env c m)"
| Consume: "mb_running m \<Longrightarrow> mb_queue m \<noteq> [] \<Longrightarrow> mailbox_step load save m (consume load save env m)"
| Stop: "mb_running m \<Longrightarrow> mailbox_step load save m (drain m)"

inductive mailbox_reach :: "('r, 'v) load_op \<Rightarrow> ('r, 'v) save_op \<Rightarrow> 'r \<Rightarrow> ('r, 'v) mailbox \<Rightarrow> bool"
  for load :: "('r, 'v) load_op" and save :: "('r, 'v) save_op" and r :: 'r where
  reach_new: "mailbox_reach load save r (NewCommandMailbox r)"
| reach_step: "mailbox_reach load save r m \<Longrightarrow> mailbox_step load save m m' \<Longrightarrow> mailbox_reach load save r m'"

inductive_cases mailbox_stepE: "mailbox_step load save m m'"

section \<open>The queue\<close>

definition waits :: "message \<Rightarrow> bool" where
  "waits x = snd (snd x)"

text \<open>C10: In every reachable state the messages have left the queue in the order in which they were sent, whoever sent
  them, and those in the queue are the ones sent last, at most 100. What was executed was taken from the queue in that
  order. Every waiting sender whose message has left the queue has exactly one answer, which is the error of the context
  if the command was not executed; and while no consumer runs nobody waits for an answer.\<close>

theorem mailbox_serves_in_order:
  assumes "mailbox_reach load save r m"
  shows "mb_sent m = mb_taken m @ mb_queue m \<and> map fst (mb_sent m) = [0..<length (mb_sent m)]
    \<and> length (mb_queue m) \<le> 100 \<and> subseq (map snd (mb_executed m)) (mb_taken m)
    \<and> map fst (mb_answers m) = map fst (filter waits (mb_taken m))
    \<and> list_all (\<lambda>a. snd a = Some ContextEnded \<or> fst a \<in> (fst \<circ> snd) ` set (mb_executed m)) (mb_answers m)
    \<and> (mb_running m \<or> filter waits (mb_queue m) = [])"
  using assms
proof induction
  case reach_new
  then show ?case by (simp add: NewCommandMailbox_def)
next
  case (reach_step m m')
  from reach_step.hyps(2) show ?case
  proof cases
    case (Consume env)
    obtain n c sync q where q: "mb_queue m = (n, c, sync) # q" using Consume(3) by (cases "mb_queue m") auto
    obtain res u where ex: "Execute load save env c (mb_repo m) = (res, u)" by fastforce
    from reach_step.IH have "subseq (map snd (mb_executed m) @ [(n, c, sync)]) (mb_taken m @ [(n, c, sync)])"
      by (simp add: subseq_append)
    with reach_step.IH Consume q ex show ?thesis
      by (auto simp: consume_def waits_def list_all_iff Let_def)
  next
    case Stop
    from reach_step.IH have "subseq (map snd (mb_executed m)) (mb_taken m @ mb_queue m)" by (auto intro: subseq_order.trans)
    with reach_step.IH Stop show ?thesis
      by (auto simp: drain_def waits_def list_all_iff comp_def cong: filter_cong)
  qed (use reach_step.IH in \<open>auto simp: enqueue_def execute_directly_def waits_def mailbox_capacity_def Let_def\<close>)
qed

text \<open>A message that nobody waits for is dropped when the consumer ends before it.\<close>

lemma stopped_mailbox_drops:
  "let m = drain (enqueue c False ((NewCommandMailbox r)\<lparr>mb_running := True\<rparr>))
   in mailbox_reach load save r m \<and> mb_sent m = [(0, c, False)] \<and> mb_queue m = [] \<and> mb_executed m = []"
proof -
  let ?m0 = "NewCommandMailbox r" and ?m1 = "(NewCommandMailbox r)\<lparr>mb_running := True\<rparr>"
  have "mailbox_reach load save r ?m1" by (rule reach_step [OF reach_new Start]) (simp add: NewCommandMailbox_def)
  then have "mailbox_reach load save r (enqueue c False ?m1)"
    by (rule reach_step) (rule Send, simp add: NewCommandMailbox_def mailbox_capacity_def)
  then have "mailbox_reach load save r (drain (enqueue c False ?m1))"
    by (rule reach_step) (rule Stop, simp add: enqueue_def NewCommandMailbox_def Let_def)
  then show ?thesis by (simp add: enqueue_def drain_def NewCommandMailbox_def Let_def)
qed

section \<open>What the repository keeps of a command\<close>

context loading_store
begin

lemma load_mutate_save_run:
  assumes "load_mutate_save load save env fn n u = (out, u')"
  shows "\<exists>es. us_repo u' = run (us_repo u) es"
proof -
  show ?thesis
  proof (cases "load (ue_env env n) (us_repo u)")
    case (Inl e)
    with assms show ?thesis by (intro exI [of _ "[]"]) (auto simp: load_mutate_save_def)
  next
    case load: (Inr s)
    show ?thesis
    proof (cases "fn n s")
      case (Inl e)
      with assms load show ?thesis by (intro exI [of _ "[]"]) (auto simp: load_mutate_save_def)
    next
      case (Inr s')
      with assms load others_save_log [of "ue_before env n" "u\<lparr>us_seen := us_seen u @ [s]\<rparr>"] show ?thesis
        by (intro exI [of _ "ue_before env n @ [(ue_env env n, s')]"])
          (auto simp: load_mutate_save_def do_save_def run_append Let_def split: prod.splits)
    qed
  qed
qed

lemma Execute_run: "\<exists>es. us_repo (snd (Execute load save env c u)) = run (us_repo u) es"
proof (cases "precheck c")
  case None
  then show ?thesis
    using load_mutate_save_run [of "ce_update env" "\<lambda>n s. mutate env c s" 0 u]
    by (auto simp: Execute_def StateMutationCmd_Execute_def Let_def split: prod.splits)
next
  case (Some e)
  then show ?thesis by (intro exI [of _ "[]"]) (simp add: Execute_def)
qed

text \<open>Everything a mailbox does to the repository is a sequence of saves.\<close>

lemma mailbox_run: "mailbox_reach load save r m \<Longrightarrow> \<exists>es. us_repo (mb_repo m) = run r es"
proof (induction rule: mailbox_reach.induct)
  case reach_new
  show ?case by (intro exI [of _ "[]"]) (simp add: NewCommandMailbox_def)
next
  case (reach_step m m')
  then obtain es where es: "us_repo (mb_repo m) = run r es" by blast
  have trans: "\<exists>es'. us_repo (snd (Execute load save env c (mb_repo m))) = run r es'" for env c
    using Execute_run [of env c "mb_repo m"] es by (metis run_append)
  from reach_step.hyps(2) show ?case
  proof cases
    case (Consume env)
    then obtain n c sync q where "mb_queue m = (n, c, sync) # q" by (cases "mb_queue m") auto
    with Consume trans [of env c] show ?thesis by (auto simp: consume_def split: prod.splits)
  qed (use es trans in \<open>auto simp: enqueue_def execute_directly_def drain_def Let_def\<close>)
qed

end

definition orders_stored :: "'h repo \<Rightarrow> bool" where
  "orders_stored r \<longleftrightarrow> list_all (\<lambda>s. st_Orders s = []) (db_state (repo_db r))"

lemma Save_orders: "orders_stored r \<Longrightarrow> orders_stored (fst (Save env r s))"
proof (rule Save_cases [of env r s])
  fix d d'
  assume s: "orders_stored r"
    and h: "write_state_row s (st_Version s) (wrap64 (st_Version s + 1)) (repo_db r) = Inr d"
      "rewrite_dirty env s (isGroupClean (repo_cache r (st_ID s)) (computeStateFingerprints (se_fp env) s)) stateRelationGroups d = Inr d'"
      "Save env r s = (r\<lparr>repo_db := d', repo_cache := (repo_cache r)(st_ID s \<mapsto> computeStateFingerprints (se_fp env) s)\<rparr>,
         Inr (s\<lparr>st_Version := wrap64 (st_Version s + 1)\<rparr>))"
  have "st_Orders (state_columns v s) = []" for v by (simp add: state_columns_def)
  with s h(1) have "list_all (\<lambda>s. st_Orders s = []) (db_state d)"
    by (auto simp: orders_stored_def write_state_row_def insert_new_def list_all_iff Let_def split: if_splits)
  with h(3) rewrite_dirty_state_rows [OF h(2)] show ?thesis by (simp add: orders_stored_def)
qed (auto simp: orders_stored_def)

lemma run_orders: "orders_stored r \<Longrightarrow> orders_stored (sqlite.run r es)"
  by (induction r es rule: sqlite.run.induct) (simp_all add: Save_orders)

lemma task_columns_directives: "task_columns t = t \<Longrightarrow> task_UserDirectives t = []"
proof -
  have "task_UserDirectives (task_columns t) = []" by (simp add: task_columns_def)
  then show "task_columns t = t \<Longrightarrow> task_UserDirectives t = []" by simp
qed

lemma steer_actions: "st_Tasks x \<noteq> [] \<Longrightarrow> st_LastActions (steer now i d x) = st_LastActions x"
  by (simp add: steer_def Let_def split: option.split)

text \<open>C33: A directive that a command attaches to tasks, and an order that a command puts into the state, never come back: whatever
  commands a mailbox has executed on a SQLite repository that only saves have filled, a state loaded afterwards has no order and none of
  its tasks has a user directive, since neither has a column. Only a state without any task keeps a
  directive elsewhere, in its actions: with tasks, steering leaves the actions as they are.\<close>

theorem steering_never_loaded:
  assumes "mailbox_reach (sqlite_load qa) Save (sqlite.run \<lparr>repo_db = empty_db, repo_cache = Map.empty\<rparr> es0) m"
    and "sqlite_load qa env (us_repo (mb_repo m)) = Inr s"
  shows "st_Orders s = [] \<and> list_all (\<lambda>t. task_UserDirectives t = []) (st_Tasks s)
    \<and> (st_Tasks x \<noteq> [] \<longrightarrow> st_LastActions (steer now i d x) = st_LastActions x)"
proof -
  let ?r0 = "\<lparr>repo_db = empty_db, repo_cache = Map.empty\<rparr>"
  from sqlite_loading.mailbox_run [OF assms(1)] obtain es where
    r: "us_repo (mb_repo m) = sqlite.run ?r0 (es0 @ es)" by (auto simp: sqlite_loading.run_append)
  have "orders_stored ?r0" "tasks_stored (repo_db ?r0)" by (simp_all add: orders_stored_def tasks_stored_def empty_db_def)
  with run_orders run_stored r have stored: "orders_stored (us_repo (mb_repo m))" "tasks_stored (repo_db (us_repo (mb_repo m)))" by metis+
  from loaded_row [OF assms(2)] obtain row where row: "row \<in> set (db_state (repo_db (us_repo (mb_repo m))))"
    "s = loadStateRelations (with_reviews qa) (repo_db (us_repo (mb_repo m))) row" by blast
  have "st_Orders s = []"
    using stored(1) row by (auto simp: orders_stored_def list_all_iff load_relations_defs with_reviews_def Let_def split: prod.splits)
  moreover have "task_columns t = t" if "t \<in> set (st_Tasks s)" for t
    using stored(2) row(2) that
    by (auto simp: tasks_stored_def list_all_iff load_relations_defs with_reviews_def rows_of_def Let_def split: prod.splits)
  then have "list_all (\<lambda>t. task_UserDirectives t = []) (st_Tasks s)" by (auto simp: list_all_iff intro: task_columns_directives)
  ultimately show ?thesis using steer_actions by blast
qed

text \<open>A mailbox on a repository with one stored state: a directive for its task is sent and executed, a second
  message is dropped by the end of the consumer.\<close>

definition steer_env :: "relation_rows save_env cmd_env" where
  "steer_env = \<lparr>ce_update = \<lparr>ue_env = \<lambda>n. sample_env, ue_before = \<lambda>n. [], ue_after = \<lambda>n. [], ue_wait = \<lambda>n. None, ue_sync = Answered []\<rparr>,
     ce_now = 7, ce_timestamp = ''t'', ce_write_error = None\<rparr>"

definition steering :: command where
  "steering = SteerCmd ''US-001-T1'' ''use tabs''"

definition steered_mailbox :: "(relation_rows repo, relation_rows save_env) mailbox" where
  "steered_mailbox = consume (sqlite_load no_reviews) Save steer_env
     (enqueue steering True ((NewCommandMailbox saved_repo)\<lparr>mb_running := True\<rparr>))"

lemma steered_reach: "mailbox_reach (sqlite_load no_reviews) Save saved_repo steered_mailbox"
proof -
  have "mailbox_reach (sqlite_load no_reviews) Save saved_repo ((NewCommandMailbox saved_repo)\<lparr>mb_running := True\<rparr>)"
    by (rule reach_step [OF reach_new Start]) (simp add: NewCommandMailbox_def)
  then have "mailbox_reach (sqlite_load no_reviews) Save saved_repo (enqueue steering True ((NewCommandMailbox saved_repo)\<lparr>mb_running := True\<rparr>))"
    by (rule reach_step) (rule SendSync, simp_all add: NewCommandMailbox_def mailbox_capacity_def)
  then show ?thesis
    unfolding steered_mailbox_def
    by (rule reach_step) (rule Consume, simp_all add: enqueue_def NewCommandMailbox_def Let_def)
qed

lemma steered_result:
  "mb_answers steered_mailbox = [(0, None)]" "mb_running steered_mailbox" "mb_queue steered_mailbox = []"
  "map (map task_UserDirectives \<circ> st_Tasks) (own_commits Save saved_repo (us_log (mb_repo steered_mailbox))) = [[[''use tabs'']]]"
  "(case sqlite_load no_reviews sample_env (us_repo (mb_repo steered_mailbox)) of Inl e \<Rightarrow> False | Inr s \<Rightarrow> length (st_Tasks s) = 1)"
  by code_simp+

definition stopped_mailbox :: "(relation_rows repo, relation_rows save_env) mailbox" where
  "stopped_mailbox = drain (enqueue steering True (enqueue (OrderCmd ''p'') False steered_mailbox))"

lemma stopped_reach: "mailbox_reach (sqlite_load no_reviews) Save saved_repo stopped_mailbox"
proof -
  have "mailbox_reach (sqlite_load no_reviews) Save saved_repo (enqueue (OrderCmd ''p'') False steered_mailbox)"
    by (rule reach_step [OF steered_reach]) (rule Send, simp add: steered_result mailbox_capacity_def)
  then have "mailbox_reach (sqlite_load no_reviews) Save saved_repo (enqueue steering True (enqueue (OrderCmd ''p'') False steered_mailbox))"
    by (rule reach_step) (rule SendSync, simp_all add: steered_result mailbox_capacity_def enqueue_def Let_def)
  then show ?thesis
    unfolding stopped_mailbox_def by (rule reach_step) (rule Stop, simp add: steered_result enqueue_def Let_def)
qed

theorem mailbox_serves_in_order_witness:
  "length (mb_taken stopped_mailbox) = 3 \<and> mb_queue stopped_mailbox = [] \<and> length (mb_executed stopped_mailbox) = 1
   \<and> map fst (mb_answers stopped_mailbox) = [0, 2]"
proof -
  have m: "mb_queue stopped_mailbox = []" "length (mb_sent stopped_mailbox) = 3" "length (mb_executed stopped_mailbox) = 1"
    "map fst (filter waits (mb_taken stopped_mailbox)) = [0, 2]"
    by (simp_all add: stopped_mailbox_def steered_mailbox_def drain_def enqueue_def consume_def NewCommandMailbox_def waits_def Let_def
        split: prod.splits)
  with mailbox_serves_in_order [OF stopped_reach] show ?thesis by simp
qed

theorem steering_never_loaded_witness:
  "mb_answers steered_mailbox = [(0, None)]
   \<and> (\<exists>s t. sqlite_load no_reviews sample_env (us_repo (mb_repo steered_mailbox)) = Inr s \<and> st_Tasks s = [t] \<and> task_UserDirectives t = [])"
proof -
  obtain s where s: "sqlite_load no_reviews sample_env (us_repo (mb_repo steered_mailbox)) = Inr s" "length (st_Tasks s) = 1"
    using steered_result(5) by (auto split: sum.splits)
  then obtain t where t: "st_Tasks s = [t]" by (cases "st_Tasks s") auto
  have "saved_repo = sqlite.run \<lparr>repo_db = empty_db, repo_cache = Map.empty\<rparr> [(sample_env, plan_state ''s1'')]"
    by (simp add: saved_repo_def new_repo_def)
  with steered_reach have "mailbox_reach (sqlite_load no_reviews) Save
      (sqlite.run \<lparr>repo_db = empty_db, repo_cache = Map.empty\<rparr> [(sample_env, plan_state ''s1'')]) steered_mailbox" by simp
  from steering_never_loaded [OF this s(1)] t have "task_UserDirectives t = []" by simp
  with s t steered_result(1) show ?thesis by blast
qed

end
