(* ===== verification/Llm_Errors.thy ===== *)
theory Llm_Errors
  imports Token_Accounting
begin

text \<open>
  Requests, responses and errors of model providers, from \<open>src/pkg/domain/llm_client.go\<close> and, under
  \<open>src/pkg/infrastructure/llm\<close>, \<open>http_error.go\<close>, \<open>client.go\<close>, \<open>router_eviction.go\<close>,
  \<open>router_latency_tracker.go\<close> and \<open>token_estimate.go\<close>. A Go error is the chain that \<open>errors.Is\<close> and
  \<open>errors.As\<close> walk: \<open>fmt.Errorf\<close> with \<open>%w\<close> is \<open>ErrWrap\<close> with the text before and after the wrapped
  error. The classifiers decide how clients and the router react to an error. Waiting times that a
  provider states (\<open>parseRetryDelay\<close>: floating point numbers, durations and JSON) and the JSON encoding of arguments
  are parameters where they are used.
\<close>

section \<open>Data\<close>

record LLMAction =
  la_Tool :: string
  la_Args :: "(string \<times> gany) list"

record LLMResponse =
  lr_Reasoning :: string
  lr_Actions :: "LLMAction list"
  lr_Usage :: TokenUsage

record httpError =
  he_StatusCode :: int
  he_Body :: string

datatype go_error = ErrHTTP httpError | ErrText string | ErrDeadlineExceeded | ErrCanceled
  | ErrCreditExhausted | ErrBudgetExhausted | ErrPromptTooLarge | ErrWrap string go_error string

text \<open>The pair \<open>(*LLMResponse, error)\<close>.\<close>

type_synonym completion = "LLMResponse option \<times> go_error option"

definition httpError_Error :: "httpError \<Rightarrow> string" where
  "httpError_Error e = ''HTTP error '' @ fmt_d (he_StatusCode e) @ '': '' @ he_Body e"

fun err_text :: "go_error \<Rightarrow> string" where
  "err_text (ErrHTTP h) = httpError_Error h"
| "err_text (ErrText s) = s"
| "err_text ErrDeadlineExceeded = ''context deadline exceeded''"
| "err_text ErrCanceled = ''context canceled''"
| "err_text ErrCreditExhausted = ''LLM provider credit exhausted''"
| "err_text ErrBudgetExhausted = ''LLM token budget exhausted''"
| "err_text ErrPromptTooLarge = ''prompt exceeds maximum estimated token size''"
| "err_text (ErrWrap pre e post) = pre @ err_text e @ post"

text \<open>\<open>errors.As(err, &he)\<close> and \<open>errors.Is(err, target)\<close>.\<close>

fun as_http :: "go_error \<Rightarrow> httpError option" where
  "as_http (ErrHTTP h) = Some h"
| "as_http (ErrWrap _ e _) = as_http e"
| "as_http _ = None"

fun err_root :: "go_error \<Rightarrow> go_error" where
  "err_root (ErrWrap _ e _) = err_root e"
| "err_root e = e"

definition err_is :: "go_error \<Rightarrow> go_error \<Rightarrow> bool" where
  "err_is e target \<longleftrightarrow> err_root e = target"

definition contains_any :: "string \<Rightarrow> string list \<Rightarrow> bool" where
  "contains_any s ps = list_ex (Contains s) ps"

section \<open>Classification\<close>

definition isModelScopedErrorText :: "string \<Rightarrow> bool" where
  "isModelScopedErrorText s =
     (contains_any s [''model_not_found'', ''model_not_supported'', ''no longer available'']
      \<or> (contains_any s [''model'', ''models/'']
         \<and> contains_any s [''not a valid model'', ''is not a valid model'', ''invalid model'', ''does not exist'',
             ''not found'', ''unknown model'', ''not supported'', ''unsupported model'', ''unrecognized model'',
             ''is not supported'']))"

definition isModelNotFoundOrDeprecated :: "go_error option \<Rightarrow> bool" where
  "isModelNotFoundOrDeprecated err =
     (case err of None \<Rightarrow> False | Some e \<Rightarrow>
        let by_text = isModelScopedErrorText (ToLower (err_text e))
        in (case as_http e of
              None \<Rightarrow> by_text
            | Some he \<Rightarrow>
                (let body = ToLower (he_Body he)
                 in if isModelScopedErrorText body then True
                    else if he_StatusCode he = 404 then \<not> contains_any body [''endpoint'', ''route'', ''page not found'']
                    else by_text)))"

definition looksLikeRouterUnavailable :: "httpError \<Rightarrow> bool" where
  "looksLikeRouterUnavailable he \<longleftrightarrow>
     he_StatusCode he \<ge> 500 \<and> Contains (ToLower (he_Body he)) ''router.unavailable''"

definition isNonRetryableHTTPError :: "go_error option \<Rightarrow> bool" where
  "isNonRetryableHTTPError err =
     (case Option.bind err as_http of None \<Rightarrow> False
      | Some he \<Rightarrow> he_StatusCode he \<in> {400, 401, 403, 404, 405, 422} \<or> looksLikeRouterUnavailable he)"

definition isRateLimitOrQuota :: "go_error option \<Rightarrow> bool" where
  "isRateLimitOrQuota err =
     (case err of None \<Rightarrow> False | Some e \<Rightarrow>
        let by_text = contains_any (ToLower (err_text e))
              [''429'', ''too many requests'', ''rate limit'', ''ratelimit'', ''resource_exhausted'']
        in (case as_http e of
              None \<Rightarrow> by_text
            | Some he \<Rightarrow> if he_StatusCode he = 429 then True else if he_StatusCode he = 402 then False else by_text))"

definition isTimeoutOrNetworkError :: "go_error option \<Rightarrow> bool" where
  "isTimeoutOrNetworkError err =
     (case err of None \<Rightarrow> False | Some e \<Rightarrow>
        err_is e ErrDeadlineExceeded \<or> err_is e ErrCanceled
        \<or> (case as_http e of None \<Rightarrow> False | Some he \<Rightarrow> he_StatusCode he \<in> {408, 504, 502, 503})
        \<or> contains_any (ToLower (err_text e)) [''deadline exceeded'', ''timeout'', ''timed out'', ''connection refused'',
             ''connection reset'', ''no such host'', ''network is unreachable''])"

definition shouldSkipModelFallback :: "go_error option \<Rightarrow> bool" where
  "shouldSkipModelFallback err =
     (if isModelNotFoundOrDeprecated err then False
      else if isRateLimitOrQuota err then True
      else if isTimeoutOrNetworkError err then True
      else (case Option.bind err as_http of None \<Rightarrow> False
            | Some he \<Rightarrow> he_StatusCode he \<in> {400, 401, 403, 405, 422, 502, 503, 504}))"

definition isTransientError :: "go_error option \<Rightarrow> bool" where
  "isTransientError err =
     (case err of None \<Rightarrow> False | Some e \<Rightarrow>
        (case as_http e of
           Some he \<Rightarrow> he_StatusCode he = 429 \<or> he_StatusCode he = 408 \<or> he_StatusCode he \<ge> 500
         | None \<Rightarrow> contains_any (ToLower (err_text e)) [''429'', ''503'', ''overloaded'', ''timeout'', ''deadline exceeded'']))"

definition isCreditExhausted :: "go_error option \<Rightarrow> bool" where
  "isCreditExhausted err =
     (case err of None \<Rightarrow> False | Some e \<Rightarrow>
        err_is e ErrCreditExhausted
        \<or> (case as_http e of None \<Rightarrow> False | Some he \<Rightarrow>
             (let low = ToLower (he_Body he)
              in he_StatusCode he = 402
                 \<or> contains_any low [''credit balance is too low'', ''purchase credits'', ''plans & billing'',
                      ''insufficient balance'', ''creditserror'', ''credit exhausted'', ''insufficient_quota'',
                      ''exceeded your current quota'', ''billing details'', ''overdue-payment'', ''arrearage'']
                 \<or> (he_StatusCode he = 429 \<and> Contains low ''credit'')))
        \<or> contains_any (ToLower (err_text e)) [''credit balance is too low'', ''purchase credits'', ''plans & billing'',
             ''insufficient balance'', ''creditserror'', ''credit exhausted'', ''insufficient_quota'',
             ''exceeded your current quota'', ''overdue-payment'', ''arrearage''])"

definition isEvictionError :: "go_error option \<Rightarrow> bool" where
  "isEvictionError err =
     (case err of None \<Rightarrow> False | Some e \<Rightarrow>
        if err_is e ErrCreditExhausted \<or> isCreditExhausted err then True
        else if isModelNotFoundOrDeprecated err then True
        else if (case as_http e of None \<Rightarrow> False | Some he \<Rightarrow>
                   he_StatusCode he \<in> {401, 402, 404}
                   \<or> contains_any (ToLower (he_Body he)) [''credit balance is too low'', ''purchase credits'',
                        ''plans & billing'', ''insufficient balance'', ''creditserror'', ''credit exhausted'',
                        ''insufficient_quota'']) then True
        else (let msg = ToLower (err_text e)
              in contains_any msg [''creditserror'', ''insufficient balance'', ''credit balance is too low'',
                   ''purchase credits'', ''plans & billing'', ''payment required'', ''credit exhausted'',
                   ''401 unauthorized'', ''402 payment required'', ''model not found'', ''arrearage'',
                   ''overdue-payment'', ''insufficient_quota'', ''account is in good standing'']
                 \<or> (Contains msg ''model'' \<and> contains_any msg [''is not found'', ''does not exist''])))"

definition isTimeoutOrCanceled :: "go_error option \<Rightarrow> bool" where
  "isTimeoutOrCanceled err =
     (case err of None \<Rightarrow> False | Some e \<Rightarrow>
        err_is e ErrDeadlineExceeded \<or> err_is e ErrCanceled
        \<or> contains_any (ToLower (err_text e))
             [''context deadline exceeded'', ''context canceled'', ''timeout'', ''timed out''])"

section \<open>Token estimates\<close>

definition estCharsPerToken :: nat where
  "estCharsPerToken = 4"

definition defaultMaxPromptTokens :: int where
  "defaultMaxPromptTokens = 262144"

definition estimatePromptTokens :: "string \<Rightarrow> int" where
  "estimatePromptTokens prompt = int (length prompt div estCharsPerToken)"

definition checkPromptSize :: "string \<Rightarrow> int \<Rightarrow> go_error option" where
  "checkPromptSize prompt maxTokens =
     (if maxTokens < 0 then None
      else let limit = (if maxTokens = 0 then defaultMaxPromptTokens else maxTokens);
               est = estimatePromptTokens prompt
           in if est > limit
              then Some (ErrWrap [] ErrPromptTooLarge
                     ('': estimated '' @ fmt_d est @ '' tokens exceeds limit '' @ fmt_d limit))
              else None)"

text \<open>\<open>json\<close> is the JSON encoder, which fails on some values; arguments without entries stand for
  Go's nil map, which the code skips.\<close>

definition estimateCompletionTokens :: "((string \<times> gany) list \<Rightarrow> string option) \<Rightarrow> LLMResponse option \<Rightarrow> int" where
  "estimateCompletionTokens json resp =
     (case resp of None \<Rightarrow> 0 | Some r \<Rightarrow>
        let n = length (lr_Reasoning r) div estCharsPerToken
              + sum_list (map (\<lambda>a. length (la_Tool a) div estCharsPerToken
                  + (if la_Args a = [] then 0
                     else case json (la_Args a) of None \<Rightarrow> 0 | Some d \<Rightarrow> length d div estCharsPerToken)) (lr_Actions r))
        in if n < 1 then 1 else int n)"

definition estimateUsageTokens :: "((string \<times> gany) list \<Rightarrow> string option) \<Rightarrow> string \<Rightarrow> LLMResponse option \<Rightarrow> int" where
  "estimateUsageTokens json prompt resp = estimatePromptTokens prompt + estimateCompletionTokens json resp"

definition FallbackTokenUsage :: "((string \<times> gany) list \<Rightarrow> string option) \<Rightarrow> string \<Rightarrow> LLMResponse option \<Rightarrow> TokenUsage" where
  "FallbackTokenUsage json prompt resp =
     (let i = estimatePromptTokens prompt; out = estimateCompletionTokens json resp
      in \<lparr>tu_InputTokens = i, tu_OutputTokens = out, tu_ReasoningTokens = 0, tu_CachedTokens = 0,
          tu_TotalTokens = i + out\<rparr>)"

text \<open>The sum of two usages, field by field.\<close>

definition add_usage :: "TokenUsage \<Rightarrow> TokenUsage \<Rightarrow> TokenUsage" where
  "add_usage a b = \<lparr>tu_InputTokens = wrap64 (tu_InputTokens a + tu_InputTokens b),
     tu_OutputTokens = wrap64 (tu_OutputTokens a + tu_OutputTokens b),
     tu_ReasoningTokens = wrap64 (tu_ReasoningTokens a + tu_ReasoningTokens b),
     tu_CachedTokens = wrap64 (tu_CachedTokens a + tu_CachedTokens b),
     tu_TotalTokens = wrap64 (tu_TotalTokens a + tu_TotalTokens b)\<rparr>"

section \<open>The blacklist of models\<close>

text \<open>The process-wide set of models that are never called again, as the list of its keys.\<close>

definition IsModelBlacklisted :: "string list \<Rightarrow> string \<Rightarrow> bool" where
  "IsModelBlacklisted bl model \<longleftrightarrow> model \<noteq> [] \<and> ToLower (TrimSpace model) \<in> set bl"

definition BlacklistModel :: "string list \<Rightarrow> string \<Rightarrow> string list" where
  "BlacklistModel bl model =
     (if model = [] \<or> ToLower (TrimSpace model) \<in> set bl then bl else ToLower (TrimSpace model) # bl)"

definition ResetModelBlacklist :: "string list \<Rightarrow> string list" where
  "ResetModelBlacklist bl = []"

end
