(* ===== verification/Fallback_Agent.thy ===== *)
theory Fallback_Agent
  imports State_Updates Circuit_Breaker Turn_Guards Llm_Errors
begin

text \<open>
  The fallback agent that repairs a task when everything else has failed: \<open>RunFallbackAgent\<close> (\<open>orchestrator_fallback.go\<close>),
  the candidates of one turn (\<open>fallback_hypotheses.go\<close>), \<open>stageAndCommit\<close> (\<open>orchestrator_execute_turns.go\<close>) and the
  registration of agents (\<open>orchestrator_telemetry.go\<close>), all under \<open>src/pkg/services\<close>. It drives the oscillation breaker and
  the turn manager of \<open>Circuit_Breaker\<close> and \<open>Turn_Guards\<close>. A value of type \<open>'w\<close> is everything outside: the working tree with
  its git repository and the sandbox. The model's answers, tools, git, test runs, gates and the texts of
  messages are functions of the environment. Both parts of the code that a loop turn shares with others (its
  prompt, the recording of tokens) are left out.
\<close>

section \<open>The environment\<close>

datatype hypothesis = HypothesisSurgicalFix | HypothesisArchitectural

record ParsedTestReport =
  tr_Passed :: int
  tr_Failed :: int
  tr_Success :: bool
  tr_Failures :: "string list"

record ('v, 'w) fallback_env =
  fe_client :: bool
  fe_parallel :: bool
  fe_complete :: "nat \<Rightarrow> hypothesis option \<Rightarrow> int \<Rightarrow> int \<Rightarrow> string \<Rightarrow> 'w \<Rightarrow> LLMResponse option"
  fe_tool :: "string \<Rightarrow> (string \<times> gany) list \<Rightarrow> State \<times> 'w \<Rightarrow> State \<times> 'w"
  fe_git :: bool
  fe_dirty :: "'w \<Rightarrow> bool"
  fe_stage :: "'w \<Rightarrow> 'w"
  fe_staged :: "'w \<Rightarrow> bool"
  fe_commit :: "'w \<Rightarrow> 'w"
  fe_reset :: "'w \<Rightarrow> 'w"
  fe_clean :: "'w \<Rightarrow> 'w"
  fe_evaluator :: bool
  fe_runner :: bool
  fe_validate :: "Task \<Rightarrow> State \<times> 'w \<Rightarrow> (bool \<times> string) \<times> State \<times> 'w"
  fe_e2e_due :: "State \<Rightarrow> Task \<Rightarrow> bool"
  fe_e2e_command :: "string \<Rightarrow> 'w \<Rightarrow> string"
  fe_run :: "string \<Rightarrow> string \<Rightarrow> 'w \<Rightarrow> (string \<times> string option) \<times> 'w"
  fe_tool_missing :: "string \<Rightarrow> string \<Rightarrow> bool"
  fe_in_scope :: "State \<Rightarrow> Task \<Rightarrow> string \<Rightarrow> bool"
  fe_stubs :: "string \<Rightarrow> string list \<Rightarrow> 'w \<Rightarrow> string list"
  fe_extension_limit :: int
  fe_fp :: "string \<Rightarrow> string \<times> string"
  fe_summarize :: "string \<Rightarrow> string"
  fe_report :: "string \<Rightarrow> ParsedTestReport"
  fe_reason :: "OscillationDecision \<Rightarrow> string"
  fe_directive :: "OscillationDecision \<Rightarrow> string"
  fe_extension_reason :: "int \<Rightarrow> int \<Rightarrow> int \<Rightarrow> int \<Rightarrow> int \<Rightarrow> string"
  fe_update :: "nat \<Rightarrow> 'v update_env"
  fe_occ :: int
  fe_mailbox :: bool
  fe_now :: "nat \<Rightarrow> gtime"

section \<open>One candidate repair\<close>

definition IsMutatingTool :: "string \<Rightarrow> bool" where
  "IsMutatingTool tool \<longleftrightarrow>
     tool \<in> {''write_file'', ''write_files'', ''edit_file'', ''multi_replace_file_content'', ''apply_patch'', ''delete_file''}"

definition stageAndCommit :: "('v, 'w) fallback_env \<Rightarrow> 'w \<Rightarrow> 'w" where
  "stageAndCommit env w =
     (if \<not> fe_dirty env w then w
      else let w' = fe_stage env w in if \<not> fe_staged env w' then w' else fe_commit env w')"

definition apply_action :: "('v, 'w) fallback_env \<Rightarrow> LLMAction \<Rightarrow> State \<times> 'w \<Rightarrow> State \<times> 'w" where
  "apply_action env a sw = (if la_Tool a = ''noop'' then sw else fe_tool env (la_Tool a) (la_Args a) sw)"

definition runFallbackE2EGate :: "('v, 'w) fallback_env \<Rightarrow> Task \<Rightarrow> State \<Rightarrow> bool \<times> string \<Rightarrow> 'w \<Rightarrow> (bool \<times> string) \<times> 'w" where
  "runFallbackE2EGate env task s verdict w =
     (let cmd = fe_e2e_command env (st_ProjectPath s) w
      in if cmd = [] then (verdict, w)
         else case fe_run env (st_ProjectPath s) cmd w of
                ((out, None), w') \<Rightarrow> (verdict, w')
              | ((out, Some e), w') \<Rightarrow>
                  (if fe_tool_missing env cmd (out @ '' '' @ e) then (verdict, w')
                   else if \<not> fe_in_scope env s task (out @ newline # e) then (verdict, w')
                   else ((False, ''Unit tests passed, but E2E verification failed ('' @ cmd @ ''):'' @ newline # out @ newline # e), w')))"

definition runFallbackAntiStubGate :: "('v, 'w) fallback_env \<Rightarrow> Task \<Rightarrow> string \<Rightarrow> bool \<times> string \<Rightarrow> 'w \<Rightarrow> bool \<times> string" where
  "runFallbackAntiStubGate env task projectPath verdict w =
     (let violations = fe_stubs env projectPath (task_TargetFiles task) w
      in if violations \<noteq> []
         then (False, ''Anti-stub / anti-gaming validation failed with '' @ fmt_d (int (length violations)) @ '' violation(s):''
                 @ newline # concat (map (\<lambda>v. ''- '' @ v @ [newline]) violations))
         else verdict)"

text \<open>Tests, then the end-to-end gate, then the gate against stubs.\<close>

definition evaluate :: "('v, 'w) fallback_env \<Rightarrow> Task \<Rightarrow> State \<times> 'w \<Rightarrow> (bool \<times> string) \<times> State \<times> 'w" where
  "evaluate env task sw =
     (let (v0, s, w0) = fe_validate env task sw;
          (v1, w1) = (if fst v0 \<and> fe_runner env \<and> st_ProjectPath s \<noteq> [] \<and> fe_e2e_due env s task
                      then runFallbackE2EGate env task s v0 w0 else (v0, w0));
          v2 = (if fst v1 \<and> st_ProjectPath s \<noteq> [] then runFallbackAntiStubGate env task (st_ProjectPath s) v1 w1 else v1)
      in (v2, s, w1))"

definition mutating :: "LLMResponse \<Rightarrow> bool" where
  "mutating r \<longleftrightarrow> list_ex (\<lambda>a. la_Tool a \<noteq> ''noop'' \<and> IsMutatingTool (la_Tool a)) (lr_Actions r)"

definition apply_candidate :: "('v, 'w) fallback_env \<Rightarrow> LLMResponse \<Rightarrow> State \<times> 'w \<Rightarrow> State \<times> 'w" where
  "apply_candidate env r sw =
     (let (s, w) = fold (apply_action env) (lr_Actions r) sw
      in (s, if mutating r \<and> fe_git env then stageAndCommit env w else w))"

definition rollback :: "('v, 'w) fallback_env \<Rightarrow> 'w \<Rightarrow> 'w" where
  "rollback env w = (if fe_git env then fe_clean env (fe_reset env w) else w)"

text \<open>The answers in order; \<open>None\<close> is a failed completion. The result is the verdict, the last log and whether any
  candidate used a mutating tool.\<close>

fun race :: "('v, 'w) fallback_env \<Rightarrow> Task \<Rightarrow> LLMResponse option list \<Rightarrow> string \<Rightarrow> bool \<Rightarrow> State \<times> 'w
    \<Rightarrow> (bool \<times> string \<times> bool) \<times> State \<times> 'w" where
  "race env task [] log mut sw = ((False, log, mut), sw)"
| "race env task (None # cs) log mut sw = race env task cs log mut sw"
| "race env task (Some r # cs) log mut sw =
     (if lr_Actions r = [] then race env task cs log mut sw
      else let (s1, w1) = apply_candidate env r sw
           in if \<not> fe_evaluator env then race env task cs log (mut \<or> mutating r) (s1, w1)
              else let ((passed, evalLog), s2, w2) = evaluate env task (s1, w1)
                   in if passed then ((True, evalLog, True), s2, w2)
                      else race env task cs evalLog (mut \<or> mutating r) (s2, rollback env w2))"

definition raceAndApplyCandidateHypotheses :: "('v, 'w) fallback_env \<Rightarrow> Task \<Rightarrow> LLMResponse option list \<Rightarrow> State \<times> 'w
    \<Rightarrow> (bool \<times> string \<times> bool) \<times> State \<times> 'w" where
  "raceAndApplyCandidateHypotheses env task cs sw = race env task cs [] False sw"

section \<open>The turns\<close>

record 'w fallback_loop =
  fl_turn :: int
  fl_max :: int
  fl_extensions :: int
  fl_strikes :: int
  fl_lastFailures :: int
  fl_lastPassed :: int
  fl_log :: string
  fl_breaker :: OscillationCircuitBreaker
  fl_rounds :: nat
  fl_state :: State
  fl_world :: 'w

datatype round_end = Repaired | Goes_on | Tripped

definition maxFallbackNoopStrikes :: int where
  "maxFallbackNoopStrikes = 2"

definition candidates :: "('v, 'w) fallback_env \<Rightarrow> 'w fallback_loop \<Rightarrow> LLMResponse option list" where
  "candidates env l =
     map (\<lambda>h. fe_complete env (fl_rounds l) h (fl_turn l) (fl_max l) (fl_log l) (fl_world l))
       (if fe_parallel env then [Some HypothesisSurgicalFix, Some HypothesisArchitectural] else [None])"

definition noop_text :: "string \<Rightarrow> string" where
  "noop_text summary = ''Previous turn performed inspection/noop without workspace changes, but tests are FAILING:'' @ newline # summary
     @ newline # ''You MUST invoke write_file or edit_file to repair the failing code.''"

definition current_failures :: "ParsedTestReport \<Rightarrow> int" where
  "current_failures r =
     (if tr_Failures r = [] \<and> \<not> tr_Success r \<and> tr_Failed r > 0 then tr_Failed r else int (length (tr_Failures r)))"

text \<open>What follows a turn that counts and has failed: the breaker, a possible extension, the next turn.\<close>

definition extend_turns :: "('v, 'w) fallback_env \<Rightarrow> string \<Rightarrow> 'w fallback_loop \<Rightarrow> 'w fallback_loop" where
  "extend_turns env newLog l =
     (let report = fe_report env newLog; failures = current_failures report; passed = tr_Passed report;
          grant = (fl_lastFailures l \<ge> 0 \<and>
            ShouldGrantProgressExtension (NewAdaptiveTurnManager [fe_extension_limit env])
              (fl_lastFailures l) failures (fl_lastPassed l) passed (fl_extensions l));
          l1 = (if grant then l\<lparr>fl_extensions := fl_extensions l + 1, fl_max := fl_max l + 1\<rparr> else l);
          l2 = (if failures > 0 \<or> passed > 0 then l1\<lparr>fl_lastFailures := failures, fl_lastPassed := passed\<rparr> else l1)
      in l2\<lparr>fl_log := (if grant
              then fe_extension_reason env (fl_lastFailures l) failures (fl_lastPassed l) passed (fl_extensions l) @ newline # newLog
              else newLog), fl_turn := fl_turn l + 1\<rparr>)"

definition after_failed_turn :: "('v, 'w) fallback_env \<Rightarrow> string \<Rightarrow> 'w fallback_loop \<Rightarrow> round_end \<times> 'w fallback_loop" where
  "after_failed_turn env newLog l =
     (let (cb, d) = RecordFailure (fe_fp env) (fl_breaker l) (fl_turn l) newLog; l1 = l\<lparr>fl_breaker := cb\<rparr>
      in if od_Action d = OscillationActionTrip
         then (Tripped, l1\<lparr>fl_log := ''Circuit Breaker Tripped: '' @ fe_reason env d @ newline # newLog\<rparr>)
         else (Goes_on, extend_turns env
                (if od_Action d = OscillationActionReconcile then fe_directive env d @ newline # newLog else newLog) l1))"

definition fallback_round :: "('v, 'w) fallback_env \<Rightarrow> Task \<Rightarrow> 'w fallback_loop \<Rightarrow> round_end \<times> 'w fallback_loop" where
  "fallback_round env task l =
     (let ((passed, newLog, mut), s, w) = raceAndApplyCandidateHypotheses env task (candidates env l) (fl_state l, fl_world l);
          l1 = l\<lparr>fl_rounds := Suc (fl_rounds l), fl_state := s, fl_world := w\<rparr>
      in if passed then (Repaired, l1\<lparr>fl_log := newLog\<rparr>)
         else if \<not> mut \<and> fl_strikes l < maxFallbackNoopStrikes
         then (Goes_on, l1\<lparr>fl_strikes := fl_strikes l + 1, fl_log := noop_text (fe_summarize env newLog)\<rparr>)
         else after_failed_turn env newLog (if mut then l1\<lparr>fl_strikes := 0\<rparr> else l1))"

text \<open>Turns that are left, with those that extensions may still add.\<close>

definition turns_left :: "('v, 'w) fallback_env \<Rightarrow> 'w fallback_loop \<Rightarrow> nat" where
  "turns_left env l = nat (fl_max l - fl_turn l + 1)
     + nat (MaxExtensions (NewAdaptiveTurnManager [fe_extension_limit env]) - fl_extensions l)"

lemma extend_turns_left:
  "fl_turn l \<le> fl_max l \<Longrightarrow> turns_left env (extend_turns env log l) < turns_left env l
     \<and> fl_strikes (extend_turns env log l) = fl_strikes l \<and> fl_rounds (extend_turns env log l) = fl_rounds l"
  by (auto simp: extend_turns_def turns_left_def ShouldGrantProgressExtension_def Let_def split: if_splits)

lemma after_failed_turn_left:
  "after_failed_turn env log l = (Goes_on, l') \<Longrightarrow> fl_turn l \<le> fl_max l
     \<Longrightarrow> turns_left env l' < turns_left env l \<and> fl_strikes l' = fl_strikes l \<and> fl_rounds l' = fl_rounds l"
  using extend_turns_left [of "l\<lparr>fl_breaker := fst (RecordFailure (fe_fp env) (fl_breaker l) (fl_turn l) log)\<rparr>" env]
  by (auto simp: after_failed_turn_def turns_left_def Let_def split: prod.splits if_splits)

text \<open>A round uses a turn, or it is one of two that cost a strike instead.\<close>

lemma fallback_round_left:
  assumes "fallback_round env task l = (Goes_on, l')" "fl_turn l \<le> fl_max l"
  shows "fl_rounds l' = Suc (fl_rounds l) \<and>
    (turns_left env l' < turns_left env l \<and> (fl_strikes l' = 0 \<or> fl_strikes l' = fl_strikes l \<and> 2 \<le> fl_strikes l)
     \<or> fl_turn l' = fl_turn l \<and> fl_max l' = fl_max l \<and> turns_left env l' = turns_left env l
       \<and> fl_strikes l' = fl_strikes l + 1 \<and> fl_strikes l < 2)"
proof -
  obtain passed newLog mut s w where r: "raceAndApplyCandidateHypotheses env task (candidates env l) (fl_state l, fl_world l)
      = ((passed, newLog, mut), s, w)" by (metis surj_pair)
  let ?l1 = "l\<lparr>fl_rounds := Suc (fl_rounds l), fl_state := s, fl_world := w\<rparr>"
  have left: "turns_left env ?l1 = turns_left env l" "turns_left env (?l1\<lparr>fl_strikes := 0\<rparr>) = turns_left env l"
    by (simp_all add: turns_left_def)
  show ?thesis
  proof (cases "\<not> mut \<and> fl_strikes l < 2")
    case True
    with assms r show ?thesis
      by (auto simp: fallback_round_def turns_left_def maxFallbackNoopStrikes_def Let_def split: if_splits)
  next
    case False
    with assms(1) r have "after_failed_turn env newLog (if mut then ?l1\<lparr>fl_strikes := 0\<rparr> else ?l1) = (Goes_on, l')"
      by (auto simp: fallback_round_def maxFallbackNoopStrikes_def Let_def split: if_splits)
    from after_failed_turn_left [OF this] assms(2) left False show ?thesis by (auto split: if_splits)
  qed
qed

function fallback_turns :: "('v, 'w) fallback_env \<Rightarrow> Task \<Rightarrow> 'w fallback_loop \<Rightarrow> bool \<times> 'w fallback_loop" where
  "fallback_turns env task l =
     (if fl_turn l > fl_max l then (False, l)
      else case fallback_round env task l of
             (Repaired, l') \<Rightarrow> (True, l') | (Tripped, l') \<Rightarrow> (False, l') | (Goes_on, l') \<Rightarrow> fallback_turns env task l')"
  by pat_completeness auto
termination
  by (relation "measures [\<lambda>(env, task, l). turns_left env l, \<lambda>(env, task, l). nat (2 - fl_strikes l)]")
    (auto dest!: fallback_round_left [OF sym])

declare fallback_turns.simps [simp del]

section \<open>The agent\<close>

definition fallback_agent_id :: "string \<Rightarrow> string" where
  "fallback_agent_id i = ''agent-FALLBACK-'' @ i"

fun update_agent :: "string \<Rightarrow> (Agent \<Rightarrow> Agent) \<Rightarrow> Agent list \<Rightarrow> Agent list option" where
  "update_agent i f [] = None"
| "update_agent i f (a # as) = (if agent_ID a = i then Some (f a # as) else map_option (Cons a) (update_agent i f as))"

definition registerAgentStart :: "gtime \<Rightarrow> string \<Rightarrow> State \<Rightarrow> State" where
  "registerAgentStart now taskID s =
     (case update_agent (fallback_agent_id taskID)
             (\<lambda>a. a\<lparr>agent_Status := AgentWorking, agent_TaskID := taskID, agent_StartedAt := now, agent_CompletedAt := 0\<rparr>) (st_ActiveAgents s) of
        Some as \<Rightarrow> s\<lparr>st_ActiveAgents := as\<rparr>
      | None \<Rightarrow> s\<lparr>st_ActiveAgents := st_ActiveAgents s @ [\<lparr>agent_ID = fallback_agent_id taskID, agent_Name = ''FALLBACK-'' @ taskID,
          agent_Role = AgentRoleFallback, agent_Status = AgentWorking, agent_TaskID = taskID, agent_StartedAt = now, agent_CompletedAt = 0,
          agent_InputTokens = 0, agent_OutputTokens = 0, agent_TokensUsed = 0, agent_LastError = []\<rparr>]\<rparr>)"

definition registerAgentComplete :: "gtime \<Rightarrow> string \<Rightarrow> string option \<Rightarrow> State \<Rightarrow> State" where
  "registerAgentComplete now taskID err s =
     (case update_agent (fallback_agent_id taskID)
             (\<lambda>a. a\<lparr>agent_Status := AgentCompleted, agent_CompletedAt := now, agent_LastError := (case err of None \<Rightarrow> [] | Some e \<Rightarrow> e)\<rparr>)
             (st_ActiveAgents s) of
        Some as \<Rightarrow> s\<lparr>st_ActiveAgents := as\<rparr> | None \<Rightarrow> s)"

definition fallback_action :: "gtime \<Rightarrow> string \<Rightarrow> string \<Rightarrow> string \<Rightarrow> bool \<Rightarrow> Action" where
  "fallback_action now tool reasoning result success = \<lparr>act_ID = [], act_Timestamp = now, act_Tool = tool, act_Args = [],
     act_Reasoning = reasoning, act_Result = result, act_Success = success\<rparr>"

definition log_action :: "Action \<Rightarrow> State \<Rightarrow> State" where
  "log_action a s = s\<lparr>st_LastActions := st_LastActions s @ [a]\<rparr>"

definition use_fallback :: "string \<Rightarrow> State \<Rightarrow> State" where
  "use_fallback i s =
     (case update_task i (\<lambda>t. t\<lparr>task_LastResortUsed := True, task_FallbackUsed := True\<rparr>) (st_Tasks s) of
        None \<Rightarrow> s | Some ts \<Rightarrow> s\<lparr>st_Tasks := ts\<rparr>)"

definition first_turns :: "int \<Rightarrow> int \<Rightarrow> int" where
  "first_turns limit configured =
     (let maxTurns = EnforceMinTurns (NewAdaptiveTurnManager [limit]) configured in if maxTurns \<le> 0 then 5 else maxTurns)"

definition start_turns :: "int \<Rightarrow> int \<Rightarrow> string \<Rightarrow> State \<Rightarrow> 'w \<Rightarrow> 'w fallback_loop" where
  "start_turns limit configured failureLog s w = \<lparr>fl_turn = 1, fl_max = first_turns limit configured, fl_extensions = 0, fl_strikes = 0,
     fl_lastFailures = -1, fl_lastPassed = -1, fl_log = failureLog, fl_breaker = NewOscillationCircuitBreaker, fl_rounds = 0,
     fl_state = s, fl_world = w\<rparr>"

text \<open>One ignored update of the stored state: the n-th of a run.\<close>

definition fallback_update :: "('r, 'v) load_op \<Rightarrow> ('r, 'v) save_op \<Rightarrow> ('v, 'w) fallback_env \<Rightarrow> nat \<Rightarrow> (State \<Rightarrow> State)
    \<Rightarrow> ('r, 'v) update_state \<Rightarrow> ('r, 'v) update_state" where
  "fallback_update load save env n f u =
     snd (updateStateWithRetry load save (fe_update env n) (fe_occ env) (fe_mailbox env) (\<lambda>k s. Inr (f s)) u)"

definition trigger_action :: "('v, 'w) fallback_env \<Rightarrow> Task \<Rightarrow> string \<Rightarrow> string \<Rightarrow> Action" where
  "trigger_action env task failureLog trigger = fallback_action (fe_now env 1) ''fallback_agent_trigger''
     (''CRITICAL: Summoned Fallback Agent for task '' @ task_ID task @ '' due to '' @ trigger) (fe_summarize env failureLog) False"

definition end_action :: "('v, 'w) fallback_env \<Rightarrow> Task \<Rightarrow> bool \<Rightarrow> 'w fallback_loop \<Rightarrow> Action" where
  "end_action env task passed l =
     (if passed
      then fallback_action (fe_now env 2) ''fallback_agent_success'' (''Sovereign repair succeeded on turn '' @ fmt_d (fl_turn l) @ ''/''
             @ fmt_d (fl_max l) @ '' for task '' @ task_ID task) ''All tests passed after sovereign repair'' True
      else fallback_action (fe_now env 2) ''fallback_agent_failed'' (''Fallback Agent failed to unblock task '' @ task_ID task @ '' after ''
             @ fmt_d (fl_max l) @ '' turns'') (fe_summarize env (fl_log l)) False)"

text \<open>The whole run: enabled, number of turns, trigger; the local state, the stored state and the world are passed on.\<close>

definition RunFallbackAgent :: "('r, 'v) load_op \<Rightarrow> ('r, 'v) save_op \<Rightarrow> ('v, 'w) fallback_env \<Rightarrow> bool \<Rightarrow> int \<Rightarrow> Task \<Rightarrow> string \<Rightarrow> string
    \<Rightarrow> State \<Rightarrow> ('r, 'v) update_state \<Rightarrow> 'w \<Rightarrow> (bool \<times> string) \<times> State \<times> ('r, 'v) update_state \<times> 'w" where
  "RunFallbackAgent load save env enabled maxTurns task failureLog trigger s u w =
     (if \<not> enabled \<or> \<not> fe_client env then ((False, failureLog), s, u, w)
      else let mark = (\<lambda>x. log_action (trigger_action env task failureLog trigger) (use_fallback (task_ID task) x));
               u1 = fallback_update load save env 0 (registerAgentStart (fe_now env 0) (task_ID task)) u;
               u2 = fallback_update load save env 1 mark u1;
               (passed, l) = fallback_turns env task (start_turns (fe_extension_limit env) maxTurns failureLog (mark s) w);
               err = (if passed then None else Some (''fallback repair unexhausted after '' @ fmt_d (fl_max l) @ '' turns''));
               u3 = fallback_update load save env 2 (registerAgentComplete (fe_now env 3) (task_ID task) err) u2;
               u4 = fallback_update load save env 3 (log_action (end_action env task passed l)) u3
           in ((passed, fl_log l), log_action (end_action env task passed l) (fl_state l), u4, fl_world l))"

section \<open>Bounded repair\<close>

lemma fallback_turns_rounds:
  assumes "fallback_turns env task l = (passed, l')" "0 \<le> fl_strikes l" "fl_strikes l \<le> 2" "fl_turn l \<le> fl_max l"
  shows "fl_rounds l' + nat (fl_strikes l) \<le> fl_rounds l + 3 * turns_left env l"
  using assms
proof (induction env task l arbitrary: passed l' rule: fallback_turns.induct)
  case (1 env task l)
  have left: "1 \<le> turns_left env l" "nat (fl_strikes l) \<le> 2" using 1(4,5) by (simp_all add: turns_left_def)
  obtain e l1 where r: "fallback_round env task l = (e, l1)" by fastforce
  show ?case
  proof (cases e)
    case Goes_on
    with 1(2,5) r have run: "fallback_turns env task l1 = (passed, l')" by (simp add: fallback_turns.simps [of env task l])
    note round = fallback_round_left [OF r [unfolded Goes_on] 1(5)]
    show ?thesis
    proof (cases "fl_turn l1 \<le> fl_max l1")
      case True
      have "fl_rounds l' + nat (fl_strikes l1) \<le> fl_rounds l1 + 3 * turns_left env l1"
        by (rule 1(1) [OF _ r [symmetric] Goes_on run _ _ True]) (use round 1(3-5) in auto)
      with round left 1(3,4) show ?thesis by auto
    next
      case False
      with run have "l' = l1" by (simp add: fallback_turns.simps)
      with round left 1(3-5) False show ?thesis by auto
    qed
  next
    case Repaired
    with 1(2,5) r have "l' = l1" by (simp add: fallback_turns.simps [of env task l])
    moreover have "fl_rounds l1 = Suc (fl_rounds l)"
      using r Repaired by (auto simp: fallback_round_def after_failed_turn_def Let_def split: prod.splits if_splits)
    ultimately show ?thesis using left by simp
  next
    case Tripped
    with 1(2,5) r have "l' = l1" by (simp add: fallback_turns.simps [of env task l])
    moreover have "fl_rounds l1 = Suc (fl_rounds l)"
      using r Tripped by (auto simp: fallback_round_def after_failed_turn_def Let_def split: prod.splits if_splits)
    ultimately show ?thesis using left by simp
  qed
qed

text \<open>C37: Every run of the fallback agent ends, after at most three rounds of completions for each turn and each possible
  extension: a round without a change costs a strike instead of a turn, but only twice between changes. The agent has
  the configured number of turns, at least two; the code's default of five turns is never used.\<close>

theorem fallback_rounds_bounded:
  "fl_rounds (snd (fallback_turns env task (start_turns limit configured log s w)))
     \<le> 3 * (nat (max 2 configured) + nat (if fe_extension_limit env > 0 then fe_extension_limit env else 3))
   \<and> first_turns limit configured = max 2 configured"
proof -
  let ?l = "start_turns limit configured log s w"
  have first: "first_turns limit configured = max 2 configured"
    by (simp add: first_turns_def EnforceMinTurns_def NewAdaptiveTurnManager_def)
  have "turns_left env ?l = nat (max 2 configured) + nat (if fe_extension_limit env > 0 then fe_extension_limit env else 3)"
    by (simp add: turns_left_def start_turns_def first NewAdaptiveTurnManager_def)
  with fallback_turns_rounds [of env task ?l] first show ?thesis
    by (cases "fallback_turns env task ?l") (simp add: start_turns_def)
qed

section \<open>A repair is verified\<close>

lemma race_passed:
  "race env task cs log mut sw = ((True, evalLog, m), s, w)
     \<Longrightarrow> fe_evaluator env \<and> (\<exists>r sw'. Some r \<in> set cs \<and> lr_Actions r \<noteq> []
           \<and> evaluate env task (apply_candidate env r sw') = ((True, evalLog), s, w))"
proof (induction env task cs log mut sw rule: race.induct)
  case (2 env task cs log mut sw)
  from 2(1) 2(2) show ?case by (auto simp del: split_paired_Ex)
next
  case (3 env task r cs log mut sw)
  obtain s1 w1 where ap: "apply_candidate env r sw = (s1, w1)" by fastforce
  obtain p l s2 w2 where ev: "evaluate env task (s1, w1) = ((p, l), s2, w2)" by (metis surj_pair)
  consider "lr_Actions r = []" | "lr_Actions r \<noteq> []" "\<not> fe_evaluator env" | "lr_Actions r \<noteq> []" "fe_evaluator env" p
    | "lr_Actions r \<noteq> []" "fe_evaluator env" "\<not> p" by blast
  then show ?case
  proof cases
    case 1
    with 3(1) [OF 1] 3(4) show ?thesis by (auto simp del: split_paired_Ex)
  next
    case 2
    with 3(2) [OF 2(1) ap [symmetric] refl 2(2)] 3(4) ap show ?thesis by simp
  next
    case 3
    with \<open>race env task (Some r # cs) log mut sw = _\<close> ap ev
    have "evaluate env task (apply_candidate env r sw) = ((True, evalLog), s, w)" by simp
    with 3 show ?thesis by (intro conjI exI [of _ r] exI [of _ sw]) simp_all
  next
    case 4
    then have run: "race env task cs l (mut \<or> mutating r) (s2, rollback env w2) = ((True, evalLog, m), s, w)"
      using \<open>race env task (Some r # cs) log mut sw = _\<close> ap ev by simp
    show ?thesis using 3(3) [OF 4(1) ap [symmetric] refl _ ev [symmetric] refl refl 4(3) run] 4(2) by auto
  qed
qed simp

lemma fallback_round_passed:
  "fallback_round env task l = (Repaired, l')
     \<Longrightarrow> fe_evaluator env \<and> (\<exists>r sw. Some r \<in> set (candidates env l) \<and> lr_Actions r \<noteq> []
       \<and> evaluate env task (apply_candidate env r sw) = ((True, fl_log l'), fl_state l', fl_world l'))"
  by (auto simp: fallback_round_def raceAndApplyCandidateHypotheses_def after_failed_turn_def Let_def
      dest!: race_passed split: prod.splits if_splits) blast+

lemma fallback_turns_passed:
  "fallback_turns env task l = (True, l')
     \<Longrightarrow> fe_evaluator env \<and> (\<exists>lr r sw. Some r \<in> set (candidates env lr) \<and> lr_Actions r \<noteq> []
       \<and> evaluate env task (apply_candidate env r sw) = ((True, fl_log l'), fl_state l', fl_world l'))"
proof (induction env task l rule: fallback_turns.induct)
  case (1 env task l)
  obtain e l1 where r: "fallback_round env task l = (e, l1)" by fastforce
  show ?case
  proof (cases e)
    case Repaired
    with 1(2) r have "l' = l1" by (auto simp: fallback_turns.simps [of env task l] split: if_splits)
    with r Repaired fallback_round_passed [of env task l l1] show ?thesis by blast
  next
    case Goes_on
    with 1(2) r have "\<not> fl_turn l > fl_max l" "fallback_turns env task l1 = (True, l')"
      by (auto simp: fallback_turns.simps [of env task l] split: if_splits)
    with 1(1) [OF _ r [symmetric] Goes_on] show ?thesis by blast
  next
    case Tripped
    with 1(2) r show ?thesis by (auto simp: fallback_turns.simps [of env task l] split: if_splits)
  qed
qed

text \<open>The gates between the world \<open>w0\<close> that passed the tests and the world \<open>w\<close> of the success: a due end-to-end
  command has run in \<open>w0\<close>, without an error, or with one that is excused (its tool is missing, or it is out of the task's
  scope), and has left \<open>w\<close>; otherwise \<open>w\<close> is \<open>w0\<close>. In \<open>w\<close> no file of the task holds a stub.\<close>

definition e2e_passed :: "('v, 'w) fallback_env \<Rightarrow> Task \<Rightarrow> State \<Rightarrow> string \<Rightarrow> string \<times> string option \<Rightarrow> bool" where
  "e2e_passed env task s cmd res \<longleftrightarrow>
     (case res of (out, None) \<Rightarrow> True
      | (out, Some e) \<Rightarrow> fe_tool_missing env cmd (out @ '' '' @ e) \<or> \<not> fe_in_scope env s task (out @ newline # e))"

definition gates_passed :: "('v, 'w) fallback_env \<Rightarrow> Task \<Rightarrow> State \<Rightarrow> 'w \<Rightarrow> 'w \<Rightarrow> bool" where
  "gates_passed env task s w0 w \<longleftrightarrow>
     (let path = st_ProjectPath s; cmd = fe_e2e_command env path w0
      in (if fe_runner env \<and> path \<noteq> [] \<and> fe_e2e_due env s task \<and> cmd \<noteq> []
          then \<exists>res. fe_run env path cmd w0 = (res, w) \<and> e2e_passed env task s cmd res else w = w0)
         \<and> (path \<noteq> [] \<longrightarrow> fe_stubs env path (task_TargetFiles task) w = []))"

lemma evaluate_passed:
  assumes "evaluate env task sw = ((True, log), s, w)"
  shows "\<exists>v w0. fe_validate env task sw = ((True, v), s, w0) \<and> gates_passed env task s w0 w"
  using assms
  by (auto simp: evaluate_def runFallbackAntiStubGate_def runFallbackE2EGate_def gates_passed_def e2e_passed_def Let_def
      split: prod.splits if_splits option.splits)

text \<open>C38: The fallback agent reports success only for a result that it has verified: it is enabled and has a model and an
  evaluator; the success belongs to an answer \<open>r\<close> of the model; the task's tests passed on the very state and world that the actions of
  \<open>r\<close> (and the commit of them) produced; and from there only a due end-to-end command, passed or excused, leads to the world that
  the success leaves, in which no file of the task holds a stub.\<close>

theorem fallback_success_verified:
  assumes "RunFallbackAgent load save env enabled maxTurns task failureLog trigger s u w = ((True, log), s', u', w')"
  shows "enabled \<and> fe_client env \<and> fe_evaluator env
    \<and> (\<exists>l r sw v s0 w0 a. Some r \<in> set (candidates env l) \<and> lr_Actions r \<noteq> []
        \<and> fe_validate env task (apply_candidate env r sw) = ((True, v), s0, w0)
        \<and> gates_passed env task s0 w0 w' \<and> s' = log_action a s0)"
proof -
  have on: "enabled \<and> fe_client env" using assms by (auto simp: RunFallbackAgent_def split: if_splits)
  let ?s0 = "log_action (trigger_action env task failureLog trigger) (use_fallback (task_ID task) s)"
  obtain p l where run: "fallback_turns env task (start_turns (fe_extension_limit env) maxTurns failureLog ?s0 w) = (p, l)" by fastforce
  with assms on have s': "p" "s' = log_action (end_action env task p l) (fl_state l)" "w' = fl_world l"
    by (auto simp: RunFallbackAgent_def)
  from run s'(1) have run: "fallback_turns env task (start_turns (fe_extension_limit env) maxTurns failureLog ?s0 w) = (True, l)" by simp
  from fallback_turns_passed [OF run] obtain lr r sw where ev: "fe_evaluator env" "Some r \<in> set (candidates env lr)" "lr_Actions r \<noteq> []"
    "evaluate env task (apply_candidate env r sw) = ((True, fl_log l), fl_state l, fl_world l)" by blast
  from evaluate_passed [OF ev(4)] obtain v w0 where
    "fe_validate env task (apply_candidate env r sw) = ((True, v), fl_state l, w0)" "gates_passed env task (fl_state l) w0 (fl_world l)" by blast
  with on ev(1-3) s' show ?thesis by blast
qed

section \<open>The rollback\<close>

text \<open>The tools that read the workspace or do nothing to it, and answers that use no other.\<close>

definition reading_tool :: "string \<Rightarrow> bool" where
  "reading_tool tool \<longleftrightarrow> tool \<in> {''noop'', ''read_file'', ''list_directory'', ''find_files'', ''grep_search'', ''log_message''}"

definition only_reads :: "LLMResponse \<Rightarrow> bool" where
  "only_reads r \<longleftrightarrow> list_all (\<lambda>a. reading_tool (la_Tool a)) (lr_Actions r)"

lemma only_reads_mutating: "only_reads r \<Longrightarrow> \<not> mutating r"
  by (auto simp: only_reads_def mutating_def reading_tool_def IsMutatingTool_def list_all_iff list_ex_iff)

text \<open>The history of the branch along first parents, newest commit first. A hard reset to \<open>HEAD~1\<close> removes the newest commit; where there
  is no commit before it git refuses and nothing changes. Cleaning, reading tools, the tests of the project and its end-to-end
  command make no commits.\<close>

definition undo_commit :: "'c list \<Rightarrow> 'c list" where
  "undo_commit h = (if 2 \<le> length h then tl h else h)"

definition git_history :: "('v, 'w) fallback_env \<Rightarrow> ('w \<Rightarrow> 'c list) \<Rightarrow> bool" where
  "git_history env hist \<longleftrightarrow>
     (\<forall>w. hist (fe_clean env w) = hist w \<and> hist (fe_reset env w) = undo_commit (hist w))
     \<and> (\<forall>tool args s w. reading_tool tool \<longrightarrow> hist (snd (fe_tool env tool args (s, w))) = hist w)
     \<and> (\<forall>task s w. hist (snd (snd (fe_validate env task (s, w)))) = hist w)
     \<and> (\<forall>path cmd w. hist (snd (fe_run env path cmd w)) = hist w)"

lemma undo_commits: "(undo_commit ^^ k) h = drop (min k (length h - 1)) h"
proof (induction k)
  case (Suc k)
  then have "(undo_commit ^^ Suc k) h = undo_commit (drop (min k (length h - 1)) h)" by simp
  also have "\<dots> = drop (min (Suc k) (length h - 1)) h"
    by (cases "k < length h - 1") (auto simp: undo_commit_def min_def drop_Suc tl_drop)
  finally show ?case .
qed simp

lemma history_actions:
  "git_history env hist \<Longrightarrow> list_all (\<lambda>a. reading_tool (la_Tool a)) as \<Longrightarrow> hist (snd (fold (apply_action env) as sw)) = hist (snd sw)"
proof (induction as arbitrary: sw)
  case (Cons a as)
  then have "hist (snd (apply_action env a sw)) = hist (snd sw)" by (cases sw) (simp add: git_history_def apply_action_def)
  with Cons show ?case by simp
qed simp

lemma history_evaluate:
  assumes "git_history env hist"
  shows "hist (snd (snd (evaluate env task (s, w)))) = hist w"
proof -
  have "hist (snd (runFallbackE2EGate env task s' v w')) = hist w'" for s' v w'
  proof -
    have "hist (snd (fe_run env (st_ProjectPath s') (fe_e2e_command env (st_ProjectPath s') w') w')) = hist w'"
      using assms by (simp add: git_history_def)
    then show ?thesis by (auto simp: runFallbackE2EGate_def Let_def split: prod.splits option.splits)
  qed
  note gate = this
  have "hist (snd (snd (fe_validate env task (s, w)))) = hist w" using assms by (simp add: git_history_def)
  with gate show ?thesis by (auto simp: evaluate_def Let_def split: prod.splits) (metis snd_conv)+
qed

lemma reading_candidate_history:
  "git_history env hist \<Longrightarrow> only_reads r \<Longrightarrow> hist (snd (apply_candidate env r sw)) = hist (snd sw)"
  using history_actions [of env hist "lr_Actions r" sw] only_reads_mutating [of r]
  by (simp add: apply_candidate_def only_reads_def case_prod_beta)

text \<open>Each rejected candidate that only reads takes a commit with it.\<close>

definition has_actions :: "LLMResponse option \<Rightarrow> bool" where
  "has_actions c = (case c of None \<Rightarrow> False | Some r \<Rightarrow> lr_Actions r \<noteq> [])"

definition reading_answer :: "LLMResponse option \<Rightarrow> bool" where
  "reading_answer c = (case c of None \<Rightarrow> True | Some r \<Rightarrow> only_reads r)"

lemma reading_race:
  assumes "git_history env hist" "fe_git env" "fe_evaluator env" "list_all reading_answer cs"
    and "race env task cs log mut sw = ((False, log', mut'), s', w')"
  shows "hist w' = (undo_commit ^^ length (filter has_actions cs)) (hist (snd sw))"
  using assms
proof (induction env task cs log mut sw rule: race.induct)
  case (3 env task r cs log mut sw)
  show ?case
  proof (cases "lr_Actions r = []")
    case True
    with 3(1) [OF True 3(4-6)] 3(7,8) show ?thesis by (simp add: has_actions_def)
  next
    case False
    obtain s1 w1 where ap: "apply_candidate env r sw = (s1, w1)" by fastforce
    obtain p l s2 w2 where ev: "evaluate env task (s1, w1) = ((p, l), s2, w2)" by (metis surj_pair)
    with 3(6,8) False ap have p: "\<not> p" by auto
    have "hist w2 = hist (snd sw)"
      using reading_candidate_history [OF 3(4), of r sw] history_evaluate [OF 3(4), of task s1 w1] ap ev 3(7)
      by (simp add: reading_answer_def)
    then have "hist (rollback env w2) = undo_commit (hist (snd sw))" using 3(4,5) by (simp add: rollback_def git_history_def)
    moreover have "hist w' = (undo_commit ^^ length (filter has_actions cs)) (hist (snd (s2, rollback env w2)))"
      by (rule 3(3) [OF False ap [symmetric] refl _ ev [symmetric] refl refl p 3(4-6)]) (use 3(6-8) False ap ev p in auto)
    moreover have "has_actions (Some r)" using False by (simp add: has_actions_def)
    ultimately show ?thesis by (simp add: funpow_swap1)
  qed
qed (simp_all add: has_actions_def)

lemma extend_turns_frame:
  "fl_world (extend_turns env log l) = fl_world l \<and> fl_rounds (extend_turns env log l) = fl_rounds l"
  by (simp add: extend_turns_def Let_def)

lemma after_failed_turn_frame:
  "after_failed_turn env log l = (e, l') \<Longrightarrow> e \<noteq> Repaired \<and> fl_world l' = fl_world l \<and> fl_rounds l' = fl_rounds l"
  by (auto simp: after_failed_turn_def extend_turns_frame Let_def split: prod.splits if_splits)

lemma failed_round_race:
  assumes "fallback_round env task l = (e, l')" "e \<noteq> Repaired"
  shows "\<exists>log mut s. race env task (candidates env l) [] False (fl_state l, fl_world l) = ((False, log, mut), s, fl_world l')"
proof -
  obtain p newLog mut s w where race: "race env task (candidates env l) [] False (fl_state l, fl_world l) = ((p, newLog, mut), s, w)"
    by (metis surj_pair)
  let ?l1 = "l\<lparr>fl_rounds := Suc (fl_rounds l), fl_state := s, fl_world := w\<rparr>"
  from assms race have p: "\<not> p" by (auto simp: fallback_round_def raceAndApplyCandidateHypotheses_def)
  have "fl_world l' = w"
  proof (cases "\<not> mut \<and> fl_strikes l < maxFallbackNoopStrikes")
    case True
    with assms(1) race p show ?thesis by (auto simp: fallback_round_def raceAndApplyCandidateHypotheses_def Let_def)
  next
    case False
    with assms(1) race p have "after_failed_turn env newLog (if mut then ?l1\<lparr>fl_strikes := 0\<rparr> else ?l1) = (e, l')"
      by (auto simp: fallback_round_def raceAndApplyCandidateHypotheses_def Let_def)
    from after_failed_turn_frame [OF this] show ?thesis by (auto split: if_splits)
  qed
  with race p show ?thesis by auto
qed

text \<open>C9: The rollback of the fallback agent resets to the commit before \<open>HEAD\<close> whether or not the candidate was committed. So in any
  round that ends without a repair, whatever the rounds before did, if its answers only read the workspace or do nothing, each
  answer with actions removes the newest commit of the branch, as long as the branch has more than one.\<close>

theorem reading_agent_drops_commits:
  assumes "git_history env hist" "fe_git env" "fe_evaluator env"
    and "fallback_round env task l = (e, l')" "e \<noteq> Repaired" "list_all reading_answer (candidates env l)"
  shows "hist (fl_world l')
    = drop (min (length (filter has_actions (candidates env l))) (length (hist (fl_world l)) - 1)) (hist (fl_world l))"
proof -
  from failed_round_race [OF assms(4,5)] obtain log mut s where
    "race env task (candidates env l) [] False (fl_state l, fl_world l) = ((False, log, mut), s, fl_world l')" by blast
  from reading_race [OF assms(1-3,6) this] show ?thesis by (simp add: undo_commits)
qed

text \<open>A repository with three commits, tests that fail, and an agent that answers \<open>noop\<close>: the first round leaves two commits,
  and a run of four rounds the first one.\<close>

definition noop_reply :: LLMResponse where
  "noop_reply = \<lparr>lr_Reasoning = [], lr_Actions = [\<lparr>la_Tool = ''noop'', la_Args = []\<rparr>],
     lr_Usage = zero_usage\<rparr>"

definition quiet :: "'v \<Rightarrow> 'v update_env" where
  "quiet v = \<lparr>ue_env = \<lambda>n. v, ue_before = \<lambda>n. [], ue_after = \<lambda>n. [], ue_wait = \<lambda>n. None, ue_sync = Answered []\<rparr>"

definition noop_env :: "'v \<Rightarrow> ('v, nat list) fallback_env" where
  "noop_env v = \<lparr>fe_client = True, fe_parallel = False, fe_complete = \<lambda>n h t m log w. Some noop_reply, fe_tool = \<lambda>t a sw. sw,
     fe_git = True, fe_dirty = \<lambda>w. False, fe_stage = \<lambda>w. w, fe_staged = \<lambda>w. False, fe_commit = \<lambda>w. 0 # w, fe_reset = undo_commit, fe_clean = \<lambda>w. w,
     fe_evaluator = True, fe_runner = False, fe_validate = \<lambda>t sw. ((False, ''FAIL''), sw), fe_e2e_due = \<lambda>s t. False,
     fe_e2e_command = \<lambda>p w. [], fe_run = \<lambda>p c w. (([], None), w), fe_tool_missing = \<lambda>c out. False, fe_in_scope = \<lambda>s t out. False,
     fe_stubs = \<lambda>p f w. [], fe_extension_limit = 0, fe_fp = \<lambda>l. (l, l), fe_summarize = \<lambda>l. l,
     fe_report = \<lambda>l. \<lparr>tr_Passed = 0, tr_Failed = 1, tr_Success = False, tr_Failures = []\<rparr>, fe_reason = \<lambda>d. [], fe_directive = \<lambda>d. [],
     fe_extension_reason = \<lambda>a b c d e. [],
     fe_update = \<lambda>n. quiet v,
     fe_occ = 0, fe_mailbox = False, fe_now = \<lambda>n. 1\<rparr>"

theorem reading_agent_drops_commits_witness:
  "\<exists>e l. fallback_round (noop_env ()) (mk_task ''T1'' ''Parser'' TaskFailed) (start_turns 0 0 [] (mk_state []) [3, 2, 1]) = (e, l)
     \<and> e = Goes_on \<and> fl_world l = [2, 1]"
proof -
  let ?l = "start_turns 0 0 [] (mk_state []) [3, 2, 1 :: nat]"
  let ?run = "fallback_round (noop_env ()) (mk_task ''T1'' ''Parser'' TaskFailed) ?l"
  have "fst ?run = Goes_on" by code_simp
  then obtain l where run: "?run = (Goes_on, l)" by (cases ?run) auto
  have hist: "git_history (noop_env ()) (\<lambda>w. w)" by (simp add: git_history_def noop_env_def)
  have cs: "candidates (noop_env ()) ?l = [Some noop_reply]" by (simp add: candidates_def noop_env_def)
  have "list_all reading_answer (candidates (noop_env ()) ?l)" "length (filter has_actions (candidates (noop_env ()) ?l)) = 1"
    unfolding cs by (simp_all add: reading_answer_def only_reads_def reading_tool_def has_actions_def noop_reply_def)
  moreover have "fl_world ?l = [3, 2, 1]" by (simp add: start_turns_def)
  moreover have "fe_git (noop_env ())" "fe_evaluator (noop_env ())" by (simp_all add: noop_env_def)
  ultimately have "fl_world l = [2, 1]" using reading_agent_drops_commits [OF hist _ _ run] by simp
  with run show ?thesis by (intro exI [of _ Goes_on] exI [of _ l]) simp
qed

lemma noop_run_drops_commits:
  "fl_world (snd (fallback_turns (noop_env ()) (mk_task ''T1'' ''Parser'' TaskFailed) (start_turns 0 0 [] (mk_state []) [5, 4, 3, 2, 1]))) = [1]"
  by code_simp

definition repaired_env :: "(unit, nat list) fallback_env" where
  "repaired_env = (noop_env ())\<lparr>fe_validate := \<lambda>t sw. ((True, ''ok''), sw)\<rparr>"

theorem fallback_success_verified_witness:
  "fst (fst (RunFallbackAgent (\<lambda>v r. Inr (mk_state [])) (\<lambda>v r s. (r, Inr s)) repaired_env True 3 (mk_task ''T1'' ''Parser'' TaskFailed) [] ''stall''
      (mk_state []) \<lparr>us_repo = (), us_log = [], us_seen = []\<rparr> [5, 4]))
   \<and> (\<exists>r sw v s0 w0 w. lr_Actions r \<noteq> [] \<and> gates_passed repaired_env (mk_task ''T1'' ''Parser'' TaskFailed) s0 w0 w
        \<and> fe_validate repaired_env (mk_task ''T1'' ''Parser'' TaskFailed) (apply_candidate repaired_env r sw) = ((True, v), s0, w0))"
proof -
  let ?run = "RunFallbackAgent (\<lambda>v r. Inr (mk_state [])) (\<lambda>v r s. (r, Inr s)) repaired_env True 3 (mk_task ''T1'' ''Parser'' TaskFailed) []
    ''stall'' (mk_state []) \<lparr>us_repo = (), us_log = [], us_seen = []\<rparr> [5, 4]"
  have passed: "fst (fst ?run)" by code_simp
  obtain p log s' u' w' where run: "?run = ((p, log), s', u', w')" by (metis surj_pair)
  with passed have "?run = ((True, log), s', u', w')" by simp
  from fallback_success_verified [OF this] passed show ?thesis by blast
qed

end
