(* ===== verification/Deadlock_Rescue.thy ===== *)
theory Deadlock_Rescue
  imports Fallback_Agent Story_Ids
begin

text \<open>
  What the orchestrator does when no task is ready: \<open>handleDeadlockOrRescue\<close> (\<open>orchestrator_dispatch_deadlock.go\<close>),
  \<open>UnblockIndependentTasks\<close> (\<open>deadlock_unblocker.go\<close>) and the tests for the end of a story (\<open>orchestrator_sync.go\<close>), all
  under \<open>src/pkg/services\<close>. First a failed task may be rescued by the fallback agent, then tasks of other stories that
  share no file with a failed prerequisite are freed of it, otherwise the story is given up. Every change goes through
  \<open>updateStateWithRetry\<close>, whose error the code ignores. The rescue is a run of \<open>RunFallbackAgent\<close>.
\<close>

section \<open>The end of a story\<close>

definition storyID_of :: "State \<Rightarrow> string" where
  "storyID_of s =
     (let i = ExtractStoryID (meta_InputPath (st_Metadata s)) in if i = [] then meta_FeatureName (st_Metadata s) else i)"

definition counts_for_story :: "string \<Rightarrow> Task \<Rightarrow> bool" where
  "counts_for_story storyID t \<longleftrightarrow>
     \<not> (storyID \<noteq> [] \<and> task_StoryID t \<noteq> [] \<and> task_StoryID t \<noteq> storyID
        \<and> \<not> HasPrefix (ToLower (task_ID t)) (ToLower storyID))"

definition story_tasks_all :: "(Task \<Rightarrow> bool) \<Rightarrow> State \<Rightarrow> bool" where
  "story_tasks_all P s =
     (if st_Tasks s = [] then False
      else let own = filter (counts_for_story (storyID_of s)) (st_Tasks s)
           in list_all P (if own = [] then st_Tasks s else own))"

definition allTasksFinished :: "State \<Rightarrow> bool" where
  "allTasksFinished = story_tasks_all (\<lambda>t. task_Status t = TaskSuccess \<or> task_Status t = TaskFailed)"

definition allTasksSucceeded :: "State \<Rightarrow> bool" where
  "allTasksSucceeded = story_tasks_all (\<lambda>t. task_Status t = TaskSuccess)"

section \<open>Freeing independent tasks\<close>

definition cross_story :: "Task \<Rightarrow> Task \<Rightarrow> bool" where
  "cross_story t f \<longleftrightarrow>
     (task_StoryID t \<noteq> [] \<and> task_StoryID f \<noteq> [] \<and> task_StoryID t \<noteq> task_StoryID f)
     \<or> (HasPrefix (task_ID t) ''US-'' \<and> HasPrefix (task_ID f) ''US-'' \<and> length (task_ID t) \<ge> 6 \<and> length (task_ID f) \<ge> 6
        \<and> take 6 (task_ID t) \<noteq> take 6 (task_ID f))"

definition files_collide :: "Task \<Rightarrow> Task \<Rightarrow> bool" where
  "files_collide t f \<longleftrightarrow>
     list_ex (\<lambda>a. list_ex (\<lambda>b. EqualFold (TrimSpace a) (TrimSpace b)) (task_TargetFiles f)) (task_TargetFiles t)"

definition independent_of :: "Task \<Rightarrow> Task \<Rightarrow> bool" where
  "independent_of t f \<longleftrightarrow>
     cross_story t f \<and> task_TargetFiles t \<noteq> [] \<and> task_TargetFiles f \<noteq> [] \<and> \<not> files_collide t f"

text \<open>Failed tasks by identifier; of two with the same identifier the later one counts.\<close>

definition failedTaskIDs :: "State \<Rightarrow> string \<rightharpoonup> Task" where
  "failedTaskIDs s = map_of (rev (map (\<lambda>t. (task_ID t, t)) (filter (\<lambda>t. task_Status t = TaskFailed) (st_Tasks s))))"

definition prunable :: "(string \<rightharpoonup> Task) \<Rightarrow> Task \<Rightarrow> string \<Rightarrow> bool" where
  "prunable failed t dep = (case failed (TrimSpace dep) of None \<Rightarrow> False | Some f \<Rightarrow> independent_of t f)"

definition unblocked_task :: "(string \<rightharpoonup> Task) \<Rightarrow> Task \<Rightarrow> bool" where
  "unblocked_task failed t \<longleftrightarrow> task_Status t = TaskPending \<and> list_ex (prunable failed t) (task_DependsOn t)"

definition unblock_task :: "(string \<rightharpoonup> Task) \<Rightarrow> gtime \<Rightarrow> Task \<Rightarrow> Task" where
  "unblock_task failed now t =
     (if unblocked_task failed t
      then t\<lparr>task_DependsOn := filter (\<lambda>d. \<not> prunable failed t d) (task_DependsOn t), task_UpdatedAt := now\<rparr> else t)"

definition unblock_tasks :: "(string \<rightharpoonup> Task) \<Rightarrow> gtime \<Rightarrow> State \<Rightarrow> State" where
  "unblock_tasks failed now s = s\<lparr>st_Tasks := map (unblock_task failed now) (st_Tasks s)\<rparr>"

text \<open>The counter is captured by the closure, which runs once for every state it is applied to.\<close>

definition UnblockIndependentTasks :: "('r, 'v) load_op \<Rightarrow> ('r, 'v) save_op \<Rightarrow> 'v update_env \<Rightarrow> int \<Rightarrow> bool \<Rightarrow> (nat \<Rightarrow> gtime)
    \<Rightarrow> State \<Rightarrow> ('r, 'v) update_state \<Rightarrow> nat \<times> ('r, 'v) update_state" where
  "UnblockIndependentTasks load save env occ mailbox now state u =
     (if st_Tasks state = [] \<or> \<not> list_ex (\<lambda>t. task_Status t = TaskFailed) (st_Tasks state) then (0, u)
      else let failed = failedTaskIDs state;
               (err, u') = updateStateWithRetry load save env occ mailbox (\<lambda>n s. Inr (unblock_tasks failed (now n) s)) u;
               seen = drop (length (us_seen u)) (us_seen u')
           in (sum_list (map (\<lambda>s. length (filter (unblocked_task failed) (st_Tasks s))) seen), u'))"

section \<open>The handler\<close>

fun status_text :: "TaskStatus \<Rightarrow> string" where
  "status_text TaskPending = ''PENDING''"
| "status_text TaskInProgress = ''IN_PROGRESS''"
| "status_text TaskSuccess = ''SUCCESS''"
| "status_text TaskFailed = ''FAILED''"
| "status_text TaskConflictBlocked = ''CONFLICT_BLOCKED''"
| "status_text TaskConflictFailed = ''CONFLICT_FAILED''"
| "status_text TaskInterrupted = ''INTERRUPTED''"
| "status_text TaskDeferred = ''DEFERRED''"
| "status_text TaskSkipped = ''SKIPPED''"

definition blocked_text :: "Task \<Rightarrow> string" where
  "blocked_text t = ''task '' @ task_ID t @ '' ('' @ task_Title t @ '', status='' @ status_text (task_Status t)
     @ '', deps=['' @ Join (task_DependsOn t) '' '' @ ''])''"

definition deadlock_text :: "State \<Rightarrow> string" where
  "deadlock_text s =
     ''deadlock detected: 0 ready tasks and 0 active workers; blocked tasks:'' @ newline # '' - ''
     @ Join (map blocked_text (filter (\<lambda>t. task_Status t \<noteq> TaskSuccess) (st_Tasks s))) (newline # '' - '')"

record FallbackAgentConfig =
  fa_Enabled :: bool
  fa_Model :: string
  fa_Profile :: string
  fa_Providers :: "string list"
  fa_MaxTurns :: int

definition GetFallback :: "FallbackAgentConfig \<Rightarrow> FallbackAgentConfig \<Rightarrow> FallbackAgentConfig" where
  "GetFallback fallback lastResort =
     (let stated = (\<lambda>c. fa_Enabled c \<or> fa_Model c \<noteq> [] \<or> fa_Profile c \<noteq> [] \<or> fa_Providers c \<noteq> [])
      in if stated fallback then fallback else if stated lastResort then lastResort else fallback)"

text \<open>The three updates of one call have their own environments, and so has the run of the fallback agent.\<close>

record ('v, 'w) deadlock_env =
  de_update :: "nat \<Rightarrow> 'v update_env"
  de_occ :: int
  de_mailbox :: bool
  de_now :: "nat \<Rightarrow> gtime"
  de_fallback :: FallbackAgentConfig
  de_agent :: "('v, 'w) fallback_env"

definition rescueCandidate :: "State \<Rightarrow> Task option" where
  "rescueCandidate s =
     find (\<lambda>t. task_Status t = TaskFailed \<and> \<not> Contains (task_FailureLog t) ''pipeline_deadlock'') (st_Tasks s)"

definition change_task :: "string \<Rightarrow> (Task \<Rightarrow> Task) \<Rightarrow> State \<Rightarrow> State" where
  "change_task i f s = (case update_task i f (st_Tasks s) of None \<Rightarrow> s | Some ts \<Rightarrow> s\<lparr>st_Tasks := ts\<rparr>)"

definition mark_rescued :: "gtime \<Rightarrow> Task \<Rightarrow> Task" where
  "mark_rescued now t = t\<lparr>task_Status := TaskSuccess, task_Progress := 100, task_FailureLog := [], task_LastResortUsed := True,
     task_UpdatedAt := now\<rparr>"

definition mark_deadlocked :: "string \<Rightarrow> Task \<Rightarrow> Task" where
  "mark_deadlocked log t = t\<lparr>task_LastResortUsed := True, task_FailureLog := ''[pipeline_deadlock] '' @ log\<rparr>"

definition abort_task :: "string \<Rightarrow> gtime \<Rightarrow> Task \<Rightarrow> Task" where
  "abort_task diag now t =
     (if task_Status t \<noteq> TaskSuccess \<and> task_Status t \<noteq> TaskFailed
      then t\<lparr>task_Status := TaskFailed, task_FailureLog := diag, task_UpdatedAt := now\<rparr> else t)"

definition abort_state :: "string \<Rightarrow> gtime \<Rightarrow> State \<Rightarrow> State" where
  "abort_state diag now s = s\<lparr>st_Tasks := map (abort_task diag now) (st_Tasks s), st_BuildStatus := BuildFailing,
     st_StoryStatus := StoryFailed, st_StoryError := diag\<rparr>"

definition stalled :: "State \<Rightarrow> bool" where
  "stalled s \<longleftrightarrow> \<not> (allTasksFinished s \<or> list_ex (\<lambda>a. agent_Status a = AgentWorking) (st_ActiveAgents s)
     \<or> list_ex (\<lambda>t. task_Status t = TaskInProgress) (st_Tasks s) \<or> st_Tasks s = [])"

definition unblock_or_abort :: "('r, 'v) load_op \<Rightarrow> ('r, 'v) save_op \<Rightarrow> ('v, 'w) deadlock_env \<Rightarrow> State \<Rightarrow> ('r, 'v) update_state
    \<Rightarrow> (bool \<times> string option) \<times> ('r, 'v) update_state" where
  "unblock_or_abort load save env s u =
     (let (n, u1) = UnblockIndependentTasks load save (de_update env 1) (de_occ env) (de_mailbox env) (de_now env) s u
      in if n > 0 then ((True, None), u1)
         else let diag = deadlock_text s;
                  (err, u2) = updateStateWithRetry load save (de_update env 2) (de_occ env) (de_mailbox env)
                                (\<lambda>n s. Inr (abort_state diag (de_now env n) s)) u1
              in ((False, Some diag), u2))"

definition rescue_log :: "Task \<Rightarrow> string" where
  "rescue_log t =
     (if TrimSpace (task_FailureLog t) = [] then ''Task failed previous attempts and is blocking downstream story dependencies.''
      else task_FailureLog t)"

text \<open>The rescue of one task, and what the stored state learns of it.\<close>

definition rescue :: "('r, 'v) load_op \<Rightarrow> ('r, 'v) save_op \<Rightarrow> ('v, 'w) deadlock_env \<Rightarrow> Task \<Rightarrow> State \<Rightarrow> ('r, 'v) update_state \<Rightarrow> 'w
    \<Rightarrow> bool \<times> State \<times> ('r, 'v) update_state \<times> 'w" where
  "rescue load save env t s u w =
     (let ((passed, fbLog), s1, u1, w1) = RunFallbackAgent load save (de_agent env) (fa_Enabled (de_fallback env)) (fa_MaxTurns (de_fallback env))
              t (rescue_log t) (''pipeline_deadlock_on_task_'' @ task_ID t) s u w;
          change = (\<lambda>n. if passed then mark_rescued (de_now env n) else mark_deadlocked fbLog);
          (err, u2) = updateStateWithRetry load save (de_update env 0) (de_occ env) (de_mailbox env)
                        (\<lambda>n x. Inr (change_task (task_ID t) (change n) x)) u1
      in (passed, s1, u2, w1))"

definition handleDeadlockOrRescue :: "('r, 'v) load_op \<Rightarrow> ('r, 'v) save_op \<Rightarrow> ('v, 'w) deadlock_env \<Rightarrow> State \<Rightarrow> ('r, 'v) update_state \<Rightarrow> 'w
    \<Rightarrow> (bool \<times> string option) \<times> ('r, 'v) update_state \<times> 'w" where
  "handleDeadlockOrRescue load save env s u w =
     (if \<not> stalled s then ((False, None), u, w)
      else case (rescueCandidate s, fa_Enabled (de_fallback env)) of
             (Some t, True) \<Rightarrow>
               (let (passed, s1, u1, w1) = rescue load save env t s u w
                in if passed then ((True, None), u1, w1)
                   else let (r, u2) = unblock_or_abort load save env s1 u1 in (r, u2, w1))
           | _ \<Rightarrow> (let (r, u2) = unblock_or_abort load save env s u in (r, u2, w)))"

section \<open>A skipped task\<close>

lemma keeps_abort: "keeps_key (\<lambda>n s. Inr (abort_state diag (now n) s))"
  by (simp add: keeps_key_def abort_state_def)

lemma keeps_unblock: "keeps_key (\<lambda>n s. Inr (unblock_tasks failed (now n) s))"
  by (simp add: keeps_key_def unblock_tasks_def)

text \<open>What an update of the SQLite repository commits is the changed form of a state that it has loaded, after the
  saves logged before, and that nobody else has committed since.\<close>

lemma committed_once:
  assumes "updateStateWithRetry (sqlite_load qa) Save env occ mailbox fn \<lparr>us_repo = r, us_log = [], us_seen = []\<rparr> = (res, u)"
    and "keyed_rows r" "keeps_key fn" "\<forall>k. length (ue_before env k) < 2 ^ 64"
  shows "own_commits Save r (us_log u) = [] \<or> commits_once qa env fn r (us_log u)"
  using sqlite_loading.updateStateWithRetry_settled [OF assms(1) _ assms(3,4)] assms(2)
  by (auto simp: sqlite_loading.settled_def sqlite_loading.atomic_update_def sqlite_loading.one_commit_def commits_once_def
      split: option.splits)

lemma committed_update:
  fixes r :: "'h repo"
  assumes "updateStateWithRetry (sqlite_load qa) Save env occ mailbox fn \<lparr>us_repo = r, us_log = [], us_seen = []\<rparr> = (res, u)"
    and "keyed_rows r" "keeps_key fn" "\<forall>k. length (ue_before env k) < 2 ^ 64"
  shows "length (own_commits Save r (us_log u)) \<le> 1
    \<and> (\<forall>x \<in> set (own_commits Save r (us_log u)). \<exists>v (r' :: 'h repo) n s. sqlite_load qa v r' = Inr s \<and> fn n s = Inr x)"
  using committed_once [OF assms] by (elim disjE) (auto simp: commits_once_def, (intro exI conjI, assumption+))

text \<open>C39: A task that the escalator has split, or that triage has deferred, makes a story fail whose other tasks have all
  succeeded: it is not finished for \<open>allTasksFinished\<close>, so once no agent works the handler reports a deadlock, and what it
  commits to a SQLite repository is a failed story in which that task has failed too.\<close>

theorem skipped_task_fails_story:
  assumes "handleDeadlockOrRescue (sqlite_load qa) Save env s \<lparr>us_repo = r, us_log = [], us_seen = []\<rparr> w = (res, u, w')"
    and "list_all (\<lambda>t. task_Status t \<in> {TaskSuccess, TaskSkipped, TaskDeferred}) (st_Tasks s)"
    and "list_ex (\<lambda>t. task_Status t \<noteq> TaskSuccess \<and> counts_for_story (storyID_of s) t) (st_Tasks s)"
    and "list_all (\<lambda>a. agent_Status a \<noteq> AgentWorking) (st_ActiveAgents s)"
    and "keyed_rows r" "\<forall>n k. length (ue_before (de_update env n) k) < 2 ^ 64"
  shows "res = (False, Some (deadlock_text s)) \<and> length (own_commits Save r (us_log u)) \<le> 1
    \<and> list_all (\<lambda>x. st_StoryStatus x = StoryFailed \<and> st_BuildStatus x = BuildFailing \<and> st_StoryError x = deadlock_text s
         \<and> list_all (\<lambda>t. task_Status t \<in> {TaskSuccess, TaskFailed}) (st_Tasks x)) (own_commits Save r (us_log u))"
proof -
  have none_failed: "\<not> list_ex (\<lambda>t. task_Status t = TaskFailed) (st_Tasks s)" using assms(2) by (auto simp: list_all_iff list_ex_iff)
  from assms(3) obtain t where t: "t \<in> set (st_Tasks s)" "task_Status t \<noteq> TaskSuccess" "counts_for_story (storyID_of s) t"
    by (auto simp: list_ex_iff)
  then have "task_Status t \<noteq> TaskFailed" using none_failed by (auto simp: list_ex_iff)
  with t have "\<not> allTasksFinished s"
    by (auto simp: allTasksFinished_def story_tasks_all_def list_all_iff Let_def filter_empty_conv)
  then have "stalled s"
    using t(1) assms(2-4) by (auto simp: stalled_def list_all_iff list_ex_iff)
  moreover have "rescueCandidate s = None"
    using assms(2) by (auto simp: rescueCandidate_def find_None_iff list_all_iff)
  ultimately have run: "unblock_or_abort (sqlite_load qa) Save env s \<lparr>us_repo = r, us_log = [], us_seen = []\<rparr> = (res, u)"
    using assms(1) by (auto simp: handleDeadlockOrRescue_def split: prod.splits)
  let ?diag = "deadlock_text s"
  obtain err where upd: "updateStateWithRetry (sqlite_load qa) Save (de_update env 2) (de_occ env) (de_mailbox env)
      (\<lambda>n x. Inr (abort_state ?diag (de_now env n) x)) \<lparr>us_repo = r, us_log = [], us_seen = []\<rparr> = (err, u)"
    and res: "res = (False, Some ?diag)"
    using run none_failed by (auto simp: unblock_or_abort_def UnblockIndependentTasks_def Let_def split: prod.splits)
  from committed_update [OF upd assms(5) keeps_abort] assms(6)
  have "length (own_commits Save r (us_log u)) \<le> 1"
    and "\<forall>x \<in> set (own_commits Save r (us_log u)). \<exists>now y. abort_state ?diag now y = x" by blast+
  then show ?thesis using res by (fastforce simp: list_all_iff abort_state_def abort_task_def)
qed

section \<open>Unblocking\<close>

lemma failedTaskIDs_Some:
  "failedTaskIDs s i = Some f \<Longrightarrow> f \<in> set (st_Tasks s) \<and> task_Status f = TaskFailed \<and> task_ID f = i"
  by (auto simp: failedTaskIDs_def dest!: map_of_SomeD)

text \<open>A task loses only dependencies on failed tasks that it is independent of.\<close>

definition freed :: "State \<Rightarrow> Task \<Rightarrow> Task \<Rightarrow> bool" where
  "freed s t t' \<longleftrightarrow> t' = t \<or> task_Status t = TaskPending
     \<and> (\<exists>gone now. t' = t\<lparr>task_DependsOn := filter (\<lambda>d. d \<notin> gone) (task_DependsOn t), task_UpdatedAt := now\<rparr>
       \<and> (\<forall>d \<in> gone. \<exists>f \<in> set (st_Tasks s). task_Status f = TaskFailed \<and> task_ID f = TrimSpace d \<and> independent_of t f))"

lemma unblock_task_freed: "freed s t (unblock_task (failedTaskIDs s) now t)"
proof (cases "unblocked_task (failedTaskIDs s) t")
  case True
  have "\<forall>d \<in> {d. prunable (failedTaskIDs s) t d}. \<exists>f \<in> set (st_Tasks s). task_Status f = TaskFailed \<and> task_ID f = TrimSpace d \<and> independent_of t f"
    by (auto simp: prunable_def dest!: failedTaskIDs_Some split: option.splits)
  then show ?thesis
    unfolding freed_def
    by (intro disjI2 conjI exI [of _ "{d. prunable (failedTaskIDs s) t d}"] exI [of _ now])
      (use True in \<open>auto simp: unblock_task_def unblocked_task_def\<close>)
qed (simp add: freed_def unblock_task_def)

text \<open>C40: What \<open>UnblockIndependentTasks\<close> commits to a SQLite repository is the state that it has loaded from it right before, after
  the saves logged until then and without a commit of others in between, except that some pending tasks have lost
  dependencies: only such on failed tasks of another story that share no target file with the task.\<close>

theorem unblock_only_independent:
  fixes r :: "'h repo"
  assumes "UnblockIndependentTasks (sqlite_load qa) Save env occ mailbox now s \<lparr>us_repo = r, us_log = [], us_seen = []\<rparr> = (n, u)"
    and "keyed_rows r" "\<forall>k. length (ue_before env k) < 2 ^ 64" "x \<in> set (own_commits Save r (us_log u))"
  shows "\<exists>pre mid k l. us_log u = pre @ map (Pair False) mid @ [(True, ue_env env k, x)]
    \<and> sqlite_load qa (ue_env env k) (sqlite.run r (map snd pre)) = Inr l \<and> sqlite.commits (st_ID l) (sqlite.run r (map snd pre)) mid = 0
    \<and> x = l\<lparr>st_Tasks := st_Tasks x\<rparr> \<and> list_all2 (freed s) (st_Tasks l) (st_Tasks x)"
proof -
  have "st_Tasks s \<noteq> [] \<and> list_ex (\<lambda>t. task_Status t = TaskFailed) (st_Tasks s)"
    using assms(1,4) by (auto simp: UnblockIndependentTasks_def split: if_splits)
  then obtain err where upd: "updateStateWithRetry (sqlite_load qa) Save env occ mailbox
      (\<lambda>n l. Inr (unblock_tasks (failedTaskIDs s) (now n) l)) \<lparr>us_repo = r, us_log = [], us_seen = []\<rparr> = (err, u)"
    using assms(1) by (auto simp: UnblockIndependentTasks_def Let_def split: prod.splits)
  from committed_once [OF upd assms(2) keeps_unblock assms(3)] assms(4)
  obtain pre mid k l where l: "us_log u = pre @ map (Pair False) mid @ [(True, ue_env env k, x)]"
    "sqlite_load qa (ue_env env k) (sqlite.run r (map snd pre)) = Inr l" "x = unblock_tasks (failedTaskIDs s) (now k) l"
    "sqlite.commits (st_ID l) (sqlite.run r (map snd pre)) mid = 0" by (auto simp: commits_once_def)
  then have "x = l\<lparr>st_Tasks := st_Tasks x\<rparr> \<and> list_all2 (freed s) (st_Tasks l) (st_Tasks x)"
    by (simp add: unblock_tasks_def list.rel_map unblock_task_freed list_all2_same)
  with l show ?thesis by blast
qed

text \<open>A story with one finished and one split task, and one with a failed task and a pending task of another story.\<close>

definition dl_env :: "(relation_rows save_env, nat list) deadlock_env" where
  "dl_env = \<lparr>de_update = \<lambda>n. quiet sample_env, de_occ = 0, de_mailbox = False, de_now = \<lambda>n. 9,
     de_fallback = \<lparr>fa_Enabled = True, fa_Model = [], fa_Profile = [], fa_Providers = [], fa_MaxTurns = 2\<rparr>, de_agent = noop_env sample_env\<rparr>"

definition split_state :: State where
  "split_state = (plan_state ''s1'')\<lparr>st_Tasks := [mk_task ''T1'' ''Parser'' TaskSuccess, mk_task ''T2'' ''Printer'' TaskSkipped]\<rparr>"

definition split_repo :: "relation_rows repo" where
  "split_repo = fst (Save sample_env new_repo split_state)"

definition failed_state :: State where
  "failed_state = (plan_state ''s1'')\<lparr>st_Tasks := [(mk_task ''US-001-T1'' ''Parser'' TaskFailed)\<lparr>task_TargetFiles := [''a.go'']\<rparr>,
     (mk_task ''US-002-T1'' ''Printer'' TaskPending)\<lparr>task_TargetFiles := [''b.go''], task_DependsOn := [''US-001-T1'']\<rparr>]\<rparr>"

definition failed_repo :: "relation_rows repo" where
  "failed_repo = fst (Save sample_env new_repo failed_state)"

lemma deadlock_runs:
  "map st_StoryStatus (own_commits Save split_repo (us_log (fst (snd
     (handleDeadlockOrRescue (sqlite_load no_reviews) Save dl_env split_state \<lparr>us_repo = split_repo, us_log = [], us_seen = []\<rparr> []))))) = [StoryFailed]"
  "map (map task_DependsOn \<circ> st_Tasks) (own_commits Save failed_repo (us_log (snd
     (UnblockIndependentTasks (sqlite_load no_reviews) Save (quiet sample_env) 0 False (\<lambda>n. 9) failed_state
        \<lparr>us_repo = failed_repo, us_log = [], us_seen = []\<rparr>)))) = [[[], []]]"
  "keyed_rows split_repo" "keyed_rows failed_repo"
  "length (us_log (snd (UnblockIndependentTasks (sqlite_load no_reviews) Save (quiet sample_env) 0 False (\<lambda>n. 9) failed_state
     \<lparr>us_repo = failed_repo, us_log = [], us_seen = []\<rparr>))) = 1"
  unfolding keyed_rows_def by code_simp+

theorem skipped_task_fails_story_witness:
  "\<exists>u w'. handleDeadlockOrRescue (sqlite_load no_reviews) Save dl_env split_state \<lparr>us_repo = split_repo, us_log = [], us_seen = []\<rparr> []
       = ((False, Some (deadlock_text split_state)), u, w')
     \<and> map st_StoryStatus (own_commits Save split_repo (us_log u)) = [StoryFailed]"
proof -
  obtain res u w' where run: "handleDeadlockOrRescue (sqlite_load no_reviews) Save dl_env split_state
      \<lparr>us_repo = split_repo, us_log = [], us_seen = []\<rparr> [] = (res, u, w')" by (metis surj_pair)
  have tasks: "list_all (\<lambda>t. task_Status t \<in> {TaskSuccess, TaskSkipped, TaskDeferred}) (st_Tasks split_state)"
    "list_ex (\<lambda>t. task_Status t \<noteq> TaskSuccess \<and> counts_for_story (storyID_of split_state) t) (st_Tasks split_state)"
    "list_all (\<lambda>a. agent_Status a \<noteq> AgentWorking) (st_ActiveAgents split_state)" by code_simp+
  have "\<forall>n k. length (ue_before (de_update dl_env n) k) < 2 ^ 64" by (simp add: dl_env_def quiet_def)
  from skipped_task_fails_story [OF run tasks deadlock_runs(3) this] run deadlock_runs(1) show ?thesis
    by (intro exI [of _ u] exI [of _ w']) simp
qed

theorem unblock_only_independent_witness:
  "\<exists>n u x l. UnblockIndependentTasks (sqlite_load no_reviews) Save (quiet sample_env) 0 False (\<lambda>n. 9) failed_state
       \<lparr>us_repo = failed_repo, us_log = [], us_seen = []\<rparr> = (n, u)
     \<and> us_log u = [(True, sample_env, x)] \<and> map task_DependsOn (st_Tasks x) = [[], []]
     \<and> sqlite_load no_reviews sample_env failed_repo = Inr l \<and> list_all2 (freed failed_state) (st_Tasks l) (st_Tasks x)"
proof -
  obtain n u where run: "UnblockIndependentTasks (sqlite_load no_reviews) Save (quiet sample_env) 0 False (\<lambda>n. 9) failed_state
      \<lparr>us_repo = failed_repo, us_log = [], us_seen = []\<rparr> = (n, u)" by fastforce
  with deadlock_runs(2) obtain x where x: "own_commits Save failed_repo (us_log u) = [x]" "map task_DependsOn (st_Tasks x) = [[], []]"
    by (auto simp: map_eq_Cons_conv)
  have "length (us_log u) = 1" using deadlock_runs(5) run by simp
  moreover have "\<forall>k. length (ue_before (quiet sample_env) k) < 2 ^ 64" by (simp add: quiet_def)
  from unblock_only_independent [OF run deadlock_runs(4) this, of x] x(1) obtain pre mid k l where
    h: "us_log u = pre @ map (Pair False) mid @ [(True, ue_env (quiet sample_env) k, x)]"
      "sqlite_load no_reviews (ue_env (quiet sample_env) k) (sqlite.run failed_repo (map snd pre)) = Inr l"
      "list_all2 (freed failed_state) (st_Tasks l) (st_Tasks x)" by auto
  ultimately have "us_log u = [(True, sample_env, x)] \<and> sqlite_load no_reviews sample_env failed_repo = Inr l"
    by (auto simp: quiet_def)
  with run x h(3) show ?thesis by (intro exI [of _ n] exI [of _ u] exI [of _ x] exI [of _ l]) simp
qed

text \<open>The number of unblocked tasks counts every run of the closure, also one whose save is refused: with a running mailbox and
  somebody else's save in between, the handler reports progress although nothing was committed.\<close>

lemma unblock_reports_unsaved:
  "fst (unblock_or_abort (sqlite_load no_reviews) Save (dl_env\<lparr>de_update := \<lambda>n. (quiet sample_env)\<lparr>ue_before := \<lambda>k.
       [(sample_env, failed_state\<lparr>st_Version := 1\<rparr>)]\<rparr>, de_mailbox := True\<rparr>) failed_state \<lparr>us_repo = failed_repo, us_log = [], us_seen = []\<rparr>)
     = (True, None)"
  "own_commits Save failed_repo (us_log (snd (unblock_or_abort (sqlite_load no_reviews) Save (dl_env\<lparr>de_update := \<lambda>n. (quiet sample_env)\<lparr>ue_before := \<lambda>k.
       [(sample_env, failed_state\<lparr>st_Version := 1\<rparr>)]\<rparr>, de_mailbox := True\<rparr>) failed_state \<lparr>us_repo = failed_repo, us_log = [], us_seen = []\<rparr>))) = []"
  by code_simp+

end
