(* ===== verification/Task_Dispatch.thy ===== *)
theory Task_Dispatch
  imports State_Updates Task_Scheduler Task_Escalation
begin

text \<open>
  The execution of tasks: \<open>executeTask\<close> (\<open>orchestrator_execute.go\<close>) with \<open>markTaskFailed\<close> (\<open>orchestrator_channels.go\<close>) and
  \<open>CategorizeFailureLog\<close> (\<open>watchdog_repair.go\<close>), and the loop \<open>dispatchContinuously\<close> (\<open>orchestrator_dispatch.go\<close>), which keeps
  the worker slots busy; all under \<open>src/pkg/services\<close>. An execution changes the stored state and the file locks. What it does
  between the checks at its start and the record of its outcome (the agents, the tests, the fallback agent) is a function of
  the environment, and so is the push of the branch to the rebase queue. The loop is a step relation: executions end in any
  order, and the loop sees the ends in any order, with any state in the repository.
\<close>

section \<open>Failure categories\<close>

datatype FailureCategory = FailureUnknown | FailureTestLogic | FailureTimeout | FailureCompile | FailureSandbox

fun category_text :: "FailureCategory \<Rightarrow> string" where
  "category_text FailureUnknown = ''unknown''"
| "category_text FailureTestLogic = ''test_logic''"
| "category_text FailureTimeout = ''timeout''"
| "category_text FailureCompile = ''compile''"
| "category_text FailureSandbox = ''sandbox''"

definition CategorizeFailureLog :: "string \<Rightarrow> FailureCategory" where
  "CategorizeFailureLog log =
     (let lower = ToLower log; says = list_ex (Contains lower)
      in if says [''no output produced within idle timeout'', ''max wall-clock duration exceeded'', ''command killed''] then FailureTimeout
         else if says [''sandbox violation'', ''sandbox toolchain'', ''toolchain binary'', ''compiler not found'', ''gcc not found'',
                ''command not found'', ''not found in $path'', ''not found in %path%'', ''executable file not found'', ''exit status 127'',
                '': not found'', ''cannot execute binary file'', ''is not recognized as an internal or external command'',
                ''cannot connect to the docker daemon'', ''is the docker daemon running'']
              \<or> Contains lower ''failed with:'' \<and> Contains lower ''not found'' then FailureSandbox
         else if says [''compile error'', ''syntax error'', ''compilation error''] then FailureCompile
         else if says [''error:'', ''fail:'', ''traceback''] then FailureTestLogic
         else FailureUnknown)"

section \<open>The execution of one task\<close>

record ('r, 'v) task_env =
  te_load :: 'v
  te_update :: "nat \<Rightarrow> 'v update_env"
  te_occ :: int
  te_mailbox :: bool
  te_now :: "nat \<Rightarrow> gtime"
  te_uuid :: string
  te_MaxRetries :: int
  te_setup :: "State \<Rightarrow> Task \<Rightarrow> string option"
  te_escalator :: "ProgressiveTaskEscalator option"
  te_work :: "State \<Rightarrow> Task \<Rightarrow> ('r, 'v) update_state \<Rightarrow> (bool \<times> string) \<times> Task \<times> ('r, 'v) update_state"
  te_merge :: "State \<Rightarrow> Task \<Rightarrow> string option"

text \<open>Change the first task with an identifier, or append the given one, changed.\<close>

definition upsert_task :: "Task \<Rightarrow> (Task \<Rightarrow> Task) \<Rightarrow> State \<Rightarrow> State" where
  "upsert_task t f s =
     s\<lparr>st_Tasks := (case update_task (task_ID t) f (st_Tasks s) of Some ts \<Rightarrow> ts | None \<Rightarrow> st_Tasks s @ [f t])\<rparr>"

definition start_task :: "gtime \<Rightarrow> Task \<Rightarrow> State \<Rightarrow> State" where
  "start_task now t = upsert_task t (\<lambda>x. x\<lparr>task_Status := TaskInProgress, task_Progress := 10, task_UpdatedAt := now\<rparr>)"

definition markTaskFailed :: "string \<Rightarrow> gtime \<Rightarrow> string \<Rightarrow> string \<Rightarrow> State \<Rightarrow> State" where
  "markTaskFailed uuid now taskID reason s =
     (let s1 = (case update_task taskID (\<lambda>x. x\<lparr>task_Status := TaskFailed, task_UpdatedAt := now\<rparr>) (st_Tasks s) of
                  Some ts \<Rightarrow> s\<lparr>st_Tasks := ts\<rparr> | None \<Rightarrow> s)
      in AppendAction uuid s1 \<lparr>act_ID = [], act_Timestamp = now, act_Tool = ''execute'', act_Args = [], act_Reasoning = [],
           act_Result = reason, act_Success = False\<rparr>)"

definition replace_by_subtasks :: "gtime \<Rightarrow> string \<Rightarrow> Task list \<Rightarrow> State \<Rightarrow> State" where
  "replace_by_subtasks now taskID subtasks s =
     (let s1 = (case update_task taskID (\<lambda>x. x\<lparr>task_Status := TaskSkipped,
                    task_FailureLog := ''Decomposed into smaller subtasks due to complexity escalation'', task_UpdatedAt := now\<rparr>) (st_Tasks s) of
                  Some ts \<Rightarrow> s\<lparr>st_Tasks := ts\<rparr> | None \<Rightarrow> s)
      in s1\<lparr>st_Tasks := st_Tasks s1 @ subtasks\<rparr>)"

definition effective_max_retries :: "int \<Rightarrow> Task \<Rightarrow> int" where
  "effective_max_retries configured t =
     (let m = (if task_MaxRetries t \<le> 0 \<and> configured > 0 then configured else task_MaxRetries t) in if m \<le> 0 then 3 else m)"

definition sandbox_failure :: "bool \<Rightarrow> string \<Rightarrow> bool" where
  "sandbox_failure passed log \<longleftrightarrow> \<not> passed \<and> CategorizeFailureLog log = FailureSandbox"

definition should_retry :: "int \<Rightarrow> bool \<Rightarrow> string \<Rightarrow> Task \<Rightarrow> bool" where
  "should_retry configured passed log t \<longleftrightarrow>
     \<not> passed \<and> \<not> sandbox_failure passed log \<and> task_Retries t < effective_max_retries configured t"

text \<open>The outcome in the stored task: \<open>t\<close> is the task of this execution, \<open>x\<close> the stored one.\<close>

definition finished_task :: "int \<Rightarrow> gtime \<Rightarrow> bool \<Rightarrow> string \<Rightarrow> Task \<Rightarrow> Task \<Rightarrow> Task" where
  "finished_task configured now passed log t x =
     (let y = (if task_MaxRetries x \<le> 0 then x\<lparr>task_MaxRetries := effective_max_retries configured t\<rparr> else x);
          z = (if passed then y\<lparr>task_Status := TaskSuccess, task_Progress := 100, task_FailureLog := []\<rparr>
               else if sandbox_failure passed log
               then y\<lparr>task_Status := TaskFailed, task_Progress := 0,
                      task_FailureLog := ''Unrecoverable environment error ('' @ category_text (CategorizeFailureLog log) @ ''): '' @ log\<rparr>
               else if should_retry configured passed log t
               then y\<lparr>task_Retries := task_Retries y + 1, task_FailureLog := log, task_Progress := 0, task_Status := TaskPending\<rparr>
               else y\<lparr>task_Status := TaskFailed, task_Progress := 0, task_FailureLog := log\<rparr>)
      in z\<lparr>task_UpdatedAt := now\<rparr>)"

definition finish_task :: "string \<Rightarrow> int \<Rightarrow> gtime \<Rightarrow> bool \<Rightarrow> string \<Rightarrow> Task \<Rightarrow> State \<Rightarrow> State" where
  "finish_task uuid configured now passed log t s =
     (let s1 = upsert_task t (finished_task configured now passed log t) s;
          s2 = (if passed then s1 else s1\<lparr>st_BuildStatus := BuildFailing\<rparr>)
      in AppendAction uuid s2 \<lparr>act_ID = [], act_Timestamp = now, act_Tool = ''evaluate'', act_Args = [], act_Reasoning = [],
           act_Result = log, act_Success = passed\<rparr>)"

text \<open>How an execution ends: with its locks released, by an early return, or in a panic.\<close>

datatype task_end = Released | Returned | Crashed

definition task_update :: "('r, 'v) load_op \<Rightarrow> ('r, 'v) save_op \<Rightarrow> ('r, 'v) task_env \<Rightarrow> nat \<Rightarrow> (State \<Rightarrow> State)
    \<Rightarrow> ('r, 'v) update_state \<Rightarrow> update_error option \<times> ('r, 'v) update_state" where
  "task_update load save env n f u =
     updateStateWithRetry load save (te_update env n) (te_occ env) (te_mailbox env) (\<lambda>k s. Inr (f s)) u"

definition split_now :: "('r, 'v) task_env \<Rightarrow> Task \<Rightarrow> Task list" where
  "split_now env t =
     (case te_escalator env of None \<Rightarrow> []
      | Some e \<Rightarrow> (case EvaluateEscalation e (Some t) 0 of
           Some d \<Rightarrow> if dec_ShouldSplit d then (case SplitTask (Some t) of Inl _ \<Rightarrow> [] | Inr ts \<Rightarrow> ts) else []
         | None \<Rightarrow> []))"

definition escalation_panics :: "('r, 'v) task_env \<Rightarrow> Task \<Rightarrow> bool" where
  "escalation_panics env t \<longleftrightarrow> (case te_escalator env of None \<Rightarrow> False | Some e \<Rightarrow> EvaluateEscalation e (Some t) 0 = None)"

text \<open>The work, the push of the branch and the record of the outcome.\<close>

definition work_and_finish :: "('r, 'v) load_op \<Rightarrow> ('r, 'v) save_op \<Rightarrow> ('r, 'v) task_env \<Rightarrow> State \<Rightarrow> Task \<Rightarrow> ('r, 'v) update_state
    \<Rightarrow> ('r, 'v) update_state" where
  "work_and_finish load save env s t u =
     (let ((passed, log), t', u1) = te_work env s t u;
          (passed', log') = (case (passed, te_merge env s t) of
             (True, Some e) \<Rightarrow> (False, ''Failed to merge task branch into integration branch: '' @ e) | _ \<Rightarrow> (passed, log))
      in snd (task_update load save env 2 (finish_task (te_uuid env) (te_MaxRetries env) (te_now env 2) passed' log' t') u1))"

definition executeTask :: "('r, 'v) load_op \<Rightarrow> ('r, 'v) save_op \<Rightarrow> ('r, 'v) task_env \<Rightarrow> string \<Rightarrow> locks \<Rightarrow> ('r, 'v) update_state
    \<Rightarrow> task_end \<times> ('r, 'v) update_state \<times> locks" where
  "executeTask load save env taskID locks u =
     (case load (te_load env) (us_repo u) of
        Inl _ \<Rightarrow> (Returned, u, locks)
      | Inr s \<Rightarrow>
          (case find (\<lambda>t. task_ID t = taskID) (st_Tasks s) of
             None \<Rightarrow> (Returned, u, locks)
           | Some t \<Rightarrow>
               (if meta_IntegrationBranch (st_Metadata s) = [] \<and> length (st_ID s) < 8 then (Crashed, u, locks)
                else let (err, u1) = task_update load save env 0 (start_task (te_now env 0) t) u
                     in if err \<noteq> None then (Returned, u1, locks)
                        else case te_setup env s t of
                          Some e \<Rightarrow> (Returned, snd (task_update load save env 1 (markTaskFailed (te_uuid env) (te_now env 1) taskID
                                        (''Failed to setup workspace: '' @ e)) u1), locks)
                        | None \<Rightarrow>
                            (if escalation_panics env t then (Crashed, u1, locks)
                             else if split_now env t \<noteq> []
                             then (Returned, snd (task_update load save env 1 (replace_by_subtasks (te_now env 1) taskID (split_now env t)) u1), locks)
                             else (Released, work_and_finish load save env s t u1, ReleaseLocks locks taskID)))))"

section \<open>The dispatch loop\<close>

record dispatch_loop =
  dl_inflight :: "Task list"
  dl_running :: "Task list"
  dl_locks :: locks

definition concurrency_of :: "int \<Rightarrow> int \<Rightarrow> int" where
  "concurrency_of Concurrency GeneratorsNumber =
     (let c = (if Concurrency \<le> 0 then GeneratorsNumber else Concurrency) in if c \<le> 0 then 3 else c)"

definition ids :: "Task list \<Rightarrow> string list" where
  "ids = map task_ID"

fun dispatch :: "int \<Rightarrow> Task list \<Rightarrow> dispatch_loop \<Rightarrow> dispatch_loop" where
  "dispatch c [] d = d"
| "dispatch c (t # ts) d =
     (if task_ID t \<in> set (ids (dl_inflight d)) \<or> int (length (dl_inflight d)) \<ge> c then dispatch c ts d
      else dispatch c ts (d\<lparr>dl_inflight := dl_inflight d @ [t], dl_running := dl_running d @ [t]\<rparr>))"

definition readyTasksForFreeSlots :: "State \<Rightarrow> string list \<Rightarrow> int \<Rightarrow> locks \<Rightarrow> Task list \<times> locks" where
  "readyTasksForFreeSlots s inflight freeSlots l =
     (let snapshot = s\<lparr>st_Tasks := map (\<lambda>t. if task_ID t \<in> set inflight then t\<lparr>task_Status := TaskInProgress\<rparr> else t) (st_Tasks s)\<rparr>;
          (ready, l') = GetReadyTasks snapshot (freeSlots + activeCount snapshot) l
      in (filter (\<lambda>t. task_ID t \<notin> set inflight) ready, l'))"

definition start_loop :: "int \<Rightarrow> Task list \<times> locks \<Rightarrow> dispatch_loop" where
  "start_loop c ready = dispatch c (fst ready) \<lparr>dl_inflight = [], dl_running = [], dl_locks = snd ready\<rparr>"

definition without :: "string \<Rightarrow> Task list \<Rightarrow> Task list" where
  "without i = filter (\<lambda>t. task_ID t \<noteq> i)"

text \<open>One completion that the loop receives, with the state that it loads then.\<close>

definition complete_and_dispatch :: "int \<Rightarrow> State \<Rightarrow> string \<Rightarrow> dispatch_loop \<Rightarrow> dispatch_loop" where
  "complete_and_dispatch c s i d =
     (let d1 = d\<lparr>dl_inflight := without i (dl_inflight d)\<rparr>;
          freeSlots = c - int (length (dl_inflight d1))
      in if freeSlots \<le> 0 then d1
         else let (ready, l') = readyTasksForFreeSlots s (ids (dl_inflight d1)) freeSlots (dl_locks d1)
              in dispatch c ready (d1\<lparr>dl_locks := l'\<rparr>))"

text \<open>An execution ends with its locks released or by an early return; later the loop receives its completion, and dispatches
  unless its context has ended or the state cannot be loaded.\<close>

inductive dispatch_step :: "int \<Rightarrow> dispatch_loop \<Rightarrow> dispatch_loop \<Rightarrow> bool" for c where
  Task_released: "t \<in> set (dl_running d) \<Longrightarrow>
     dispatch_step c d (d\<lparr>dl_running := without (task_ID t) (dl_running d), dl_locks := ReleaseLocks (dl_locks d) (task_ID t)\<rparr>)"
| Task_returned: "t \<in> set (dl_running d) \<Longrightarrow> dispatch_step c d (d\<lparr>dl_running := without (task_ID t) (dl_running d)\<rparr>)"
| Drained: "t \<in> set (dl_inflight d) \<Longrightarrow> task_ID t \<notin> set (ids (dl_running d)) \<Longrightarrow>
     dispatch_step c d (d\<lparr>dl_inflight := without (task_ID t) (dl_inflight d)\<rparr>)"
| Completed: "t \<in> set (dl_inflight d) \<Longrightarrow> task_ID t \<notin> set (ids (dl_running d)) \<Longrightarrow>
     dispatch_step c d (complete_and_dispatch c s (task_ID t) d)"

inductive dispatch_reach :: "int \<Rightarrow> dispatch_loop \<Rightarrow> bool" for c where
  loop_start: "dispatch_reach c (start_loop c (GetReadyTasks s c l))"
| loop_step: "dispatch_reach c d \<Longrightarrow> dispatch_step c d d' \<Longrightarrow> dispatch_reach c d'"

inductive_cases dispatch_stepE: "dispatch_step c d d'"

section \<open>Locks\<close>

lemma select_ready_keeps:
  "l f = Some h \<Longrightarrow> snd (select_ready ok slots ts l ready) f = Some h"
proof (induction ok slots ts l ready rule: select_ready.induct)
  case (2 ok slots t ts l ready)
  obtain b l' where a: "TryAcquireLocks l (task_ID t) (task_TargetFiles t) = (b, l')" by force
  with 2(4) have "l' f = Some h"
    using registry.owns_kept [of l h "[f]" "task_ID t" "task_TargetFiles t"] by (simp add: registry.owns_def)
  with 2 a show ?case by (cases b) auto
qed simp

lemma GetReadyTasks_keeps: "registry.owns l i fs \<Longrightarrow> registry.owns (snd (GetReadyTasks s limit l)) i fs"
  by (auto simp: registry.owns_def GetReadyTasks_def Let_def select_ready_keeps split: option.split)

lemma GetReadyTasks_owns:
  "t \<in> set (fst (GetReadyTasks s limit l)) \<Longrightarrow> registry.owns (snd (GetReadyTasks s limit l)) (task_ID t) (task_TargetFiles t)"
  using select_ready_owns [of "[]"] by (simp add: GetReadyTasks_def Let_def split: option.splits if_splits)

lemma ready_lock_free:
  assumes "t \<in> set (fst (GetReadyTasks s limit l))" "f \<in> set (task_TargetFiles t)" "l f = Some h"
  shows "h = task_ID t"
proof -
  have "snd (GetReadyTasks s limit l) f = Some h" using assms(3) GetReadyTasks_keeps [of l h "[f]"] by (simp add: registry.owns_def)
  moreover have "snd (GetReadyTasks s limit l) f = Some (task_ID t)"
    using GetReadyTasks_owns [OF assms(1)] assms(2) by (simp add: registry.owns_def)
  ultimately show ?thesis by simp
qed

lemma executeTask_locks:
  "executeTask load save env taskID l u = (e, u', l') \<Longrightarrow> l' = (if e = Released then ReleaseLocks l taskID else l)"
  by (auto simp: executeTask_def Let_def split: sum.splits option.splits prod.splits if_splits)

text \<open>What happens to the lock table after an execution: scheduling rounds, on whatever states and limits, and ends of other
  executions that run to their end.\<close>

datatype lock_event = Round State int | Ended string

fun lock_history :: "lock_event list \<Rightarrow> locks \<Rightarrow> locks" where
  "lock_history [] l = l"
| "lock_history (Round s limit # es) l = lock_history es (snd (GetReadyTasks s limit l))"
| "lock_history (Ended i # es) l = lock_history es (ReleaseLocks l i)"

lemma lock_history_owns:
  "registry.owns l i fs \<Longrightarrow> Ended i \<notin> set es \<Longrightarrow> registry.owns (lock_history es l) i fs"
  by (induction es l rule: lock_history.induct) (auto simp: GetReadyTasks_keeps registry.owns_release_other)

text \<open>C8: An execution that runs to its end releases the locks of its task and no others. One that returns early (the state cannot
  be loaded, the task is gone, the start cannot be recorded, the workspace cannot be set up, or the task is split) keeps
  them: through all scheduling rounds and ends of other executions that follow, until an execution of the same task runs to its
  end, each of its files stays locked and no round returns another task that has such a file, such as a part of the split task.\<close>

theorem early_return_keeps_locks:
  assumes "executeTask load save env (task_ID t) l u = (e, u', l')" "registry.owns l (task_ID t) (task_TargetFiles t)"
    and "f \<in> set (task_TargetFiles t)" "f \<in> set (task_TargetFiles other)" "task_ID other \<noteq> task_ID t"
    and "Ended (task_ID t) \<notin> set es"
  shows "if e = Released then l' = (\<lambda>g. if l g = Some (task_ID t) then None else l g) \<and> l' f = None
    else lock_history es l' f = Some (task_ID t) \<and> other \<notin> set (fst (GetReadyTasks s limit (lock_history es l')))"
proof (cases "e = Released")
  case True
  have "l f = Some (task_ID t)" using assms(2,3) by (simp add: registry.owns_def)
  with True executeTask_locks [OF assms(1)] registry.release_holder [of l "task_ID t"] show ?thesis by auto
next
  case False
  with executeTask_locks [OF assms(1)] have "l' = l" by simp
  with lock_history_owns [OF assms(2,6)] assms(3) have "lock_history es l' f = Some (task_ID t)"
    by (simp add: registry.owns_def)
  with False ready_lock_free [of other s limit "lock_history es l'" f] assms(4,5) show ?thesis by auto
qed

text \<open>A task of which the escalator splits four files into three parts: its locks stay, and after a
  round on an empty state and the end of another execution the first part is not ready.\<close>

definition split_me :: Task where
  "split_me = (mk_task ''T1'' ''Parser'' TaskPending)\<lparr>task_TargetFiles := [''a'', ''b'', ''c'', ''d''], task_ModelUpgrades := 2\<rparr>"

definition splitter :: ProgressiveTaskEscalator where
  "splitter = \<lparr>pe_cfg = \<lparr>esc_Enabled = True, esc_ThinkingThresholdTurns = 2, esc_ModelUpgradeThresholdTurns = 2, esc_MaxModelUpgrades = 2,
     esc_SplitOnMaxUpgrades = None, esc_CleanWorktreeOnEscalate = None, esc_UpgradedModels = []\<rparr>, pe_availableUpgradedModels = []\<rparr>"

definition split_env :: "(State, unit) task_env" where
  "split_env = \<lparr>te_load = (), te_update = \<lambda>n. \<lparr>ue_env = \<lambda>n. (), ue_before = \<lambda>n. [], ue_after = \<lambda>n. [], ue_wait = \<lambda>n. None, ue_sync = Answered []\<rparr>, te_occ = 0,
     te_mailbox = False, te_now = \<lambda>n. 5, te_uuid = ''u'', te_MaxRetries = 0, te_setup = \<lambda>s t. None, te_escalator = Some splitter,
     te_work = \<lambda>s t u. ((True, []), t, u), te_merge = \<lambda>s t. None\<rparr>"

definition split_run :: "task_end \<times> (State, unit) update_state \<times> locks" where
  "split_run = executeTask (\<lambda>v r. Inr r) (\<lambda>v r s. (s, Inr s)) split_env ''T1'' (snd (TryAcquireLocks Map.empty ''T1'' (task_TargetFiles split_me)))
     \<lparr>us_repo = (mk_state [split_me])\<lparr>st_ID := ''story-0001''\<rparr>, us_log = [], us_seen = []\<rparr>"

lemma split_run_result:
  "fst split_run = Returned"
  "map task_ID (st_Tasks (us_repo (fst (snd split_run)))) = [''T1'', ''T1-A'', ''T1-B'', ''T1-C'']"
  "map task_TargetFiles (st_Tasks (us_repo (fst (snd split_run)))) = [[''a'', ''b'', ''c'', ''d''], [''a'', ''b''], [''c'', ''d''], []]"
  by code_simp+

theorem early_return_keeps_locks_witness:
  "fst split_run = Returned \<and> task_TargetFiles (st_Tasks (us_repo (fst (snd split_run))) ! 1) = [''a'', ''b'']
   \<and> (st_Tasks (us_repo (fst (snd split_run))) ! 1) \<notin> set (fst (GetReadyTasks (us_repo (fst (snd split_run))) 4
       (lock_history [Round (mk_state []) 4, Ended ''T0''] (snd (snd split_run)))))"
proof -
  let ?other = "st_Tasks (us_repo (fst (snd split_run))) ! 1"
  have "length (map task_ID (st_Tasks (us_repo (fst (snd split_run))))) = 4" by (simp only: split_run_result(2)) simp
  then have "1 < length (st_Tasks (us_repo (fst (snd split_run))))" by simp
  moreover have "map task_ID (st_Tasks (us_repo (fst (snd split_run)))) ! 1 = ''T1-A''"
    "map task_TargetFiles (st_Tasks (us_repo (fst (snd split_run)))) ! 1 = [''a'', ''b'']"
    by (simp_all only: split_run_result(2,3)) simp_all
  ultimately have o: "task_ID ?other = ''T1-A''" "task_TargetFiles ?other = [''a'', ''b'']" by simp_all
  have me: "task_ID split_me = ''T1''" "task_TargetFiles split_me = [''a'', ''b'', ''c'', ''d'']" by (simp_all add: split_me_def mk_task_def)
  have "split_run = (Returned, fst (snd split_run), snd (snd split_run))" using split_run_result(1) by (simp add: prod_eq_iff)
  then have run: "executeTask (\<lambda>v r. Inr r) (\<lambda>v r s. (s, Inr s)) split_env (task_ID split_me)
      (snd (TryAcquireLocks Map.empty ''T1'' (task_TargetFiles split_me)))
      \<lparr>us_repo = (mk_state [split_me])\<lparr>st_ID := ''story-0001''\<rparr>, us_log = [], us_seen = []\<rparr> = (Returned, fst (snd split_run), snd (snd split_run))"
    by (simp only: me(1) split_run_def)
  have owns: "registry.owns (snd (TryAcquireLocks Map.empty ''T1'' (task_TargetFiles split_me))) (task_ID split_me) (task_TargetFiles split_me)"
    by (simp add: me registry.owns_def TryAcquireLocks_def)
  have "''a'' \<in> set (task_TargetFiles split_me)" "''a'' \<in> set (task_TargetFiles ?other)" "task_ID ?other \<noteq> task_ID split_me"
    by (simp_all only: me o) simp_all
  moreover have "Ended (task_ID split_me) \<notin> set [Round (mk_state []) 4, Ended ''T0'']" by (simp add: me)
  ultimately have "?other \<notin> set (fst (GetReadyTasks (us_repo (fst (snd split_run))) 4
      (lock_history [Round (mk_state []) 4, Ended ''T0''] (snd (snd split_run)))))"
    using early_return_keeps_locks [OF run owns, of "''a''" ?other "[Round (mk_state []) 4, Ended ''T0'']" "us_repo (fst (snd split_run))" 4]
    by (simp del: lock_history.simps)
  with o split_run_result(1) show ?thesis by simp
qed

section \<open>Retries\<close>

definition attempts :: "int \<Rightarrow> gtime \<Rightarrow> string list \<Rightarrow> Task \<Rightarrow> Task" where
  "attempts configured now logs t = fold (\<lambda>log x. finished_task configured now False log x x) logs t"

lemma effective_max_positive: "0 < effective_max_retries configured t"
  by (simp add: effective_max_retries_def Let_def)

text \<open>One failed attempt, in terms of retries and their limit.\<close>

lemma failed_attempt:
  "let y = finished_task configured now False log t t; m = effective_max_retries configured t in
    effective_max_retries configured y = m \<and> task_MaxRetries y = m
    \<and> (if CategorizeFailureLog log = FailureSandbox then task_Status y = TaskFailed \<and> task_Retries y = task_Retries t
       else if task_Retries t < m then task_Status y = TaskPending \<and> task_Retries y = task_Retries t + 1
       else task_Status y = TaskFailed \<and> task_Retries y = task_Retries t)"
  by (auto simp: finished_task_def effective_max_retries_def sandbox_failure_def should_retry_def Let_def)

definition ordinary_failures :: "string list \<Rightarrow> int" where
  "ordinary_failures logs = int (length (filter (\<lambda>l. CategorizeFailureLog l \<noteq> FailureSandbox) logs))"

lemma attempts_state:
  assumes "task_Retries t \<le> effective_max_retries configured t" "logs \<noteq> []"
  shows "let y = attempts configured now logs t; m = effective_max_retries configured t in
    task_MaxRetries y = m \<and> task_Retries y = min m (task_Retries t + ordinary_failures logs)
    \<and> (task_Status y = TaskFailed \<or> task_Status y = TaskPending)
    \<and> (task_Retries t + ordinary_failures logs > m \<longrightarrow> task_Status y = TaskFailed)
    \<and> (task_Status t = TaskFailed \<and> task_Retries t = m \<longrightarrow> task_Status y = TaskFailed)"
  using assms
proof (induction logs arbitrary: t)
  case (Cons log logs)
  let ?y = "finished_task configured now False log t t" and ?m = "effective_max_retries configured t"
  have one: "effective_max_retries configured ?y = ?m" "task_MaxRetries ?y = ?m"
    "if CategorizeFailureLog log = FailureSandbox then task_Status ?y = TaskFailed \<and> task_Retries ?y = task_Retries t
       else if task_Retries t < ?m then task_Status ?y = TaskPending \<and> task_Retries ?y = task_Retries t + 1
       else task_Status ?y = TaskFailed \<and> task_Retries ?y = task_Retries t"
    using failed_attempt [of configured now log t] by (simp_all add: Let_def)
  have step: "attempts configured now (log # logs) t = attempts configured now logs ?y" by (simp add: attempts_def)
  show ?case
  proof (cases "logs = []")
    case True
    with one Cons.prems(1) show ?thesis
      by (auto simp: attempts_def ordinary_failures_def Let_def split: if_splits)
  next
    case False
    have le: "task_Retries ?y \<le> effective_max_retries configured ?y" using one Cons.prems(1) by (auto split: if_splits)
    show ?thesis
      using Cons.IH [OF le False] one(1,3) Cons.prems(1) unfolding step
      by (auto simp: ordinary_failures_def Let_def split: if_splits)
  qed
qed simp

text \<open>C34: The retry limit counts ordinary failures only. After more ordinary failures than retries are left, a task is never
  dispatched again; but as long as there are fewer, it may be dispatched again whatever the number of failures that were
  called unrecoverable, since these neither count nor end the retries.\<close>

theorem retry_limit_ignores_sandbox_failures:
  assumes "task_Retries t \<le> effective_max_retries configured t" "logs \<noteq> []"
  shows "(task_Retries t + ordinary_failures logs < effective_max_retries configured t \<longrightarrow> retryable (attempts configured now logs t))
    \<and> (task_Retries t + ordinary_failures logs > effective_max_retries configured t \<longrightarrow> \<not> retryable (attempts configured now logs t))"
  using attempts_state [OF assms, of now] by (auto simp: retryable_def Let_def)

theorem retry_limit_ignores_sandbox_failures_witness:
  "retryable (attempts 0 9 (replicate 20 ''make: command not found'') (mk_task ''T1'' ''Parser'' TaskPending))
   \<and> \<not> retryable (attempts 0 9 (replicate 4 ''FAIL: TestX'') (mk_task ''T1'' ''Parser'' TaskPending))"
proof -
  have t: "task_Retries (mk_task ''T1'' ''Parser'' TaskPending) = 0" "effective_max_retries 0 (mk_task ''T1'' ''Parser'' TaskPending) = 3" by code_simp+
  have "CategorizeFailureLog ''make: command not found'' = FailureSandbox" "CategorizeFailureLog ''FAIL: TestX'' = FailureTestLogic" by code_simp+
  then have "ordinary_failures (replicate 20 ''make: command not found'') = 0" "ordinary_failures (replicate 4 ''FAIL: TestX'') = 4"
    by (simp_all add: ordinary_failures_def filter_replicate)
  with t retry_limit_ignores_sandbox_failures [of "mk_task ''T1'' ''Parser'' TaskPending" 0 "replicate 20 ''make: command not found''" 9]
    retry_limit_ignores_sandbox_failures [of "mk_task ''T1'' ''Parser'' TaskPending" 0 "replicate 4 ''FAIL: TestX''" 9]
  show ?thesis by simp
qed

section \<open>The loop keeps tasks apart\<close>

definition apart :: "int \<Rightarrow> dispatch_loop \<Rightarrow> bool" where
  "apart c d \<longleftrightarrow> distinct (ids (dl_inflight d)) \<and> set (dl_running d) \<subseteq> set (dl_inflight d) \<and> int (length (dl_inflight d)) \<le> c
     \<and> (\<forall>t \<in> set (dl_running d). registry.owns (dl_locks d) (task_ID t) (task_TargetFiles t))"

lemma dispatch_apart:
  "apart c d \<Longrightarrow> \<forall>t \<in> set ts. registry.owns (dl_locks d) (task_ID t) (task_TargetFiles t) \<Longrightarrow> apart c (dispatch c ts d)"
proof (induction c ts d rule: dispatch.induct)
  case (2 c t ts d)
  show ?case
  proof (cases "task_ID t \<in> set (ids (dl_inflight d)) \<or> int (length (dl_inflight d)) \<ge> c")
    case False
    with 2(3,4) have "apart c (d\<lparr>dl_inflight := dl_inflight d @ [t], dl_running := dl_running d @ [t]\<rparr>)"
      by (auto simp: apart_def ids_def)
    with 2(2) [OF False] 2(4) False show ?thesis by simp
  qed (use 2 in auto)
qed simp

lemma readyTasks_owns:
  assumes "readyTasksForFreeSlots s inflight k l = (ready, l')"
  shows "\<forall>t \<in> set ready. registry.owns l' (task_ID t) (task_TargetFiles t)" "registry.owns l i fs \<Longrightarrow> registry.owns l' i fs"
proof -
  let ?s = "s\<lparr>st_Tasks := map (\<lambda>t. if task_ID t \<in> set inflight then t\<lparr>task_Status := TaskInProgress\<rparr> else t) (st_Tasks s)\<rparr>"
  obtain all where g: "GetReadyTasks ?s (k + activeCount ?s) l = (all, l')" and "set ready \<subseteq> set all"
    using assms by (auto simp: readyTasksForFreeSlots_def Let_def split: prod.splits)
  with GetReadyTasks_owns [of _ ?s "k + activeCount ?s" l]
  show "\<forall>t \<in> set ready. registry.owns l' (task_ID t) (task_TargetFiles t)" by auto
  show "registry.owns l i fs \<Longrightarrow> registry.owns l' i fs" using GetReadyTasks_keeps [of l i fs ?s "k + activeCount ?s"] g by simp
qed

lemma without_apart: "apart c d \<Longrightarrow> i \<notin> set (ids (dl_running d)) \<Longrightarrow> apart c (d\<lparr>dl_inflight := without i (dl_inflight d)\<rparr>)"
  by (auto simp: apart_def without_def ids_def distinct_map_filter) (rule order_trans [OF of_nat_mono [OF length_filter_le]])

lemma complete_apart:
  assumes "apart c d" "i \<notin> set (ids (dl_running d))"
  shows "apart c (complete_and_dispatch c s i d)"
proof -
  let ?d1 = "d\<lparr>dl_inflight := without i (dl_inflight d)\<rparr>"
  obtain ready l' where r: "readyTasksForFreeSlots s (ids (dl_inflight ?d1)) (c - int (length (dl_inflight ?d1))) (dl_locks ?d1) = (ready, l')"
    by fastforce
  have d1: "apart c ?d1" using without_apart assms by blast
  with readyTasks_owns(2) [OF r] have "apart c (?d1\<lparr>dl_locks := l'\<rparr>)" by (simp add: apart_def)
  with dispatch_apart [of c "?d1\<lparr>dl_locks := l'\<rparr>" ready] readyTasks_owns(1) [OF r] have
    "apart c (dispatch c ready (?d1\<lparr>dl_locks := l'\<rparr>))" by simp
  with d1 r show ?thesis by (simp add: complete_and_dispatch_def Let_def)
qed

lemma dispatch_step_apart: "dispatch_step c d d' \<Longrightarrow> apart c d \<Longrightarrow> apart c d'"
proof (induction rule: dispatch_step.induct)
  case (Task_released t d)
  then show ?case using registry.owns_release_other by (auto simp: apart_def without_def)
next
  case (Task_returned t d)
  then show ?case by (auto simp: apart_def without_def)
qed (auto intro: without_apart complete_apart)

lemma dispatch_reach_apart: "dispatch_reach c d \<Longrightarrow> 0 \<le> c \<Longrightarrow> apart c d"
proof (induction rule: dispatch_reach.induct)
  case (loop_start s l)
  have "apart c \<lparr>dl_inflight = [], dl_running = [], dl_locks = snd (GetReadyTasks s c l)\<rparr>" using loop_start by (simp add: apart_def ids_def)
  with GetReadyTasks_owns show ?case unfolding start_loop_def by (intro dispatch_apart) simp_all
qed (use dispatch_step_apart in blast)

text \<open>C2: At every moment of the dispatch loop, whatever states it loads and in whatever order executions end: at most as many tasks
  are in flight as the concurrency limit allows, never two with one identifier, and two tasks that are being executed never
  share a target file.\<close>

theorem dispatched_tasks_apart:
  assumes "dispatch_reach (concurrency_of n g) d"
  shows "int (length (dl_inflight d)) \<le> concurrency_of n g \<and> distinct (map task_ID (dl_inflight d))
    \<and> set (dl_running d) \<subseteq> set (dl_inflight d)
    \<and> (\<forall>t \<in> set (dl_running d). \<forall>u \<in> set (dl_running d). t \<noteq> u \<longrightarrow> set (task_TargetFiles t) \<inter> set (task_TargetFiles u) = {})"
proof -
  have "apart (concurrency_of n g) d" by (rule dispatch_reach_apart [OF assms]) (simp add: concurrency_of_def Let_def)
  moreover from this have "task_ID t \<noteq> task_ID u" if "t \<in> set (dl_running d)" "u \<in> set (dl_running d)" "t \<noteq> u" for t u
    using that by (auto simp: apart_def ids_def distinct_map inj_on_def)
  ultimately show ?thesis using registry.owns_disjoint unfolding apart_def ids_def by meson
qed

text \<open>Two tasks run; one ends, and its slot is given to a third task that a new plan brings.\<close>

definition slots_plan :: "string list \<Rightarrow> State" where
  "slots_plan is = mk_state (map (\<lambda>i. (mk_task i i TaskPending)\<lparr>task_TargetFiles := [i @ ''.go'']\<rparr>) is)"

definition two_running :: dispatch_loop where
  "two_running = start_loop 2 (GetReadyTasks (slots_plan [''A'', ''B'']) 2 Map.empty)"

definition refilled :: dispatch_loop where
  "refilled = complete_and_dispatch 2 (slots_plan [''A'', ''B'', ''C'']) ''A''
     (two_running\<lparr>dl_running := without ''A'' (dl_running two_running), dl_locks := ReleaseLocks (dl_locks two_running) ''A''\<rparr>)"

lemma slots_runs:
  "ids (dl_inflight two_running) = [''A'', ''B'']" "ids (dl_running two_running) = [''A'', ''B'']"
  "ids (dl_inflight refilled) = [''B'', ''A'']"
  by code_simp+

theorem dispatched_tasks_apart_witness:
  "dispatch_reach (concurrency_of 2 0) refilled \<and> length (dl_inflight refilled) = 2 \<and> distinct (map task_ID (dl_inflight refilled))"
proof -
  have c: "concurrency_of 2 0 = 2" by code_simp
  obtain t where t: "t \<in> set (dl_running two_running)" "t \<in> set (dl_inflight two_running)" "task_ID t = ''A''"
  proof -
    have "map task_ID (dl_running two_running) ! 0 = ''A''" "length (map task_ID (dl_running two_running)) = 2"
      using slots_runs(2) by (simp_all add: ids_def)
    moreover have "dispatch_reach 2 two_running" unfolding two_running_def by (rule loop_start)
    then have "set (dl_running two_running) \<subseteq> set (dl_inflight two_running)" using dispatch_reach_apart by (auto simp: apart_def)
    ultimately show ?thesis using that [of "dl_running two_running ! 0"] by (auto simp: subset_iff)
  qed
  let ?d = "two_running\<lparr>dl_running := without ''A'' (dl_running two_running), dl_locks := ReleaseLocks (dl_locks two_running) ''A''\<rparr>"
  have "dispatch_reach 2 two_running" unfolding two_running_def by (rule loop_start)
  from loop_step [OF this Task_released [OF t(1)]] have d: "dispatch_reach 2 ?d" by (simp only: t(3))
  have "dispatch_step 2 ?d (complete_and_dispatch 2 (slots_plan [''A'', ''B'', ''C'']) (task_ID t) ?d)"
    by (rule Completed) (use t in \<open>auto simp: ids_def without_def\<close>)
  from loop_step [OF d this] have r: "dispatch_reach (concurrency_of 2 0) refilled" by (simp only: t(3) c refilled_def)
  have "length (ids (dl_inflight refilled)) = 2" by (simp only: slots_runs(3)) simp
  then have "length (dl_inflight refilled) = 2" by (simp add: ids_def)
  with r dispatched_tasks_apart [OF r] show ?thesis by blast
qed

end
