(* ===== verification/Run_Cycle.thy ===== *)
theory Run_Cycle
  imports Task_Dispatch Deadlock_Rescue
begin

text \<open>
  One cycle of the orchestrator, \<open>RunOnce\<close> (\<open>src/pkg/services/orchestrator_dispatch.go\<close>): the ceilings on actions, time and tokens, the
  end of a story and the choice between dispatch and deadlock handling; and the loop of the server around it,
  \<open>processStory\<close> (\<open>src/cmd/noctifab/cli/serve.go\<close>), with the first gate of \<open>FinalizeUserStory\<close> (\<open>orchestrator_finalize.go\<close>). The index
  of the workspace, the phases after the last task (repair, audits, release) and the executions of a dispatch are
  functions of the environment; \<open>Task_Dispatch\<close> has the loop that runs them.
\<close>

section \<open>Ceilings\<close>

record OrchestratorConfig =
  oc_Concurrency :: int
  oc_GeneratorsNumber :: int
  oc_MaxActions :: int
  oc_MaxDuration :: int
  oc_MaxTokensPerStory :: int
  oc_MaxTokens :: int
  oc_MaxSilentStallDuration :: int
  oc_OCCMaxRetries :: int

text \<open>What comes from outside at the time of the checks: the clock, the counter of actions, and the print form of durations.\<close>

record clock =
  ck_now :: gtime
  ck_actions :: int
  ck_duration :: "int \<Rightarrow> string"

definition elapsed :: "clock \<Rightarrow> gtime \<Rightarrow> int" where
  "elapsed ck t = int (ck_now ck) - int t"

definition actions_ceiling :: "OrchestratorConfig \<Rightarrow> clock \<Rightarrow> State \<Rightarrow> string option" where
  "actions_ceiling cfg ck s =
     (if oc_MaxActions cfg > 0 \<and> ck_actions ck \<ge> oc_MaxActions cfg \<and> st_StoryStatus s = StoryIdle
      then Some (''story exceeded max_actions ceiling '' @ fmt_d (oc_MaxActions cfg) @ '' (executed '' @ fmt_d (ck_actions ck) @ '')'')
      else None)"

text \<open>The start of the story is set in the first cycle that has a ready task.\<close>

definition story_start :: "OrchestratorConfig \<Rightarrow> clock \<Rightarrow> Task list \<Rightarrow> State \<Rightarrow> gtime \<Rightarrow> gtime" where
  "story_start cfg ck ready s started =
     (if oc_MaxDuration cfg > 0 \<and> st_Tasks s \<noteq> [] \<and> started = 0 \<and> ready \<noteq> [] then ck_now ck else started)"

definition duration_ceiling :: "OrchestratorConfig \<Rightarrow> clock \<Rightarrow> State \<Rightarrow> gtime \<Rightarrow> string option" where
  "duration_ceiling cfg ck s started =
     (if oc_MaxDuration cfg > 0 \<and> st_Tasks s \<noteq> [] \<and> started \<noteq> 0 \<and> elapsed ck started > oc_MaxDuration cfg \<and> \<not> allTasksFinished s
      then Some (''story exceeded max_duration '' @ ck_duration ck (oc_MaxDuration cfg) @ '' (elapsed '' @ ck_duration ck (elapsed ck started) @ '')'')
      else None)"

definition story_tokens :: "State \<Rightarrow> int" where
  "story_tokens s = foldl (\<lambda>n t. wrap64 (n + task_TokensUsed t)) 0 (st_Tasks s)"

definition story_tokens_ceiling :: "OrchestratorConfig \<Rightarrow> State \<Rightarrow> string option" where
  "story_tokens_ceiling cfg s =
     (if oc_MaxTokensPerStory cfg > 0 \<and> st_Tasks s \<noteq> [] \<and> story_tokens s \<ge> oc_MaxTokensPerStory cfg \<and> \<not> allTasksFinished s
      then Some (''story exceeded max_tokens_per_story ceiling '' @ fmt_d (oc_MaxTokensPerStory cfg) @ '' (consumed '' @ fmt_d (story_tokens s) @ '' tokens)'')
      else None)"

definition tokens_ceiling :: "OrchestratorConfig \<Rightarrow> State \<Rightarrow> string option" where
  "tokens_ceiling cfg s =
     (let used = meta_TotalTokensUsed (st_Metadata s)
      in if oc_MaxTokens cfg > 0 \<and> st_Tasks s \<noteq> [] \<and> used \<ge> oc_MaxTokens cfg \<and> \<not> allTasksFinished s
         then Some (''execution exceeded global max_tokens ceiling '' @ fmt_d (oc_MaxTokens cfg) @ '' (consumed '' @ fmt_d used @ '' tokens)'')
         else None)"

definition last_activity_of :: "State \<Rightarrow> gtime \<Rightarrow> gtime" where
  "last_activity_of s started =
     (let latest = fold max (map act_Timestamp (st_LastActions s) @ map task_UpdatedAt (st_Tasks s)) 0
      in if latest = 0 then started else latest)"

definition stall_ceiling :: "OrchestratorConfig \<Rightarrow> clock \<Rightarrow> State \<Rightarrow> gtime \<Rightarrow> string option" where
  "stall_ceiling cfg ck s started =
     (let last = last_activity_of s started
      in if oc_MaxSilentStallDuration cfg > 0 \<and> st_Tasks s \<noteq> [] \<and> last \<noteq> 0 \<and> elapsed ck last > oc_MaxSilentStallDuration cfg
              \<and> \<not> allTasksFinished s
         then Some (''story exceeded max_silent_stall_duration '' @ ck_duration ck (oc_MaxSilentStallDuration cfg)
                      @ '' without progress (elapsed '' @ ck_duration ck (elapsed ck last) @ '')'')
         else None)"

definition first_some :: "'a option list \<Rightarrow> 'a option" where
  "first_some xs = (case filter (\<lambda>x. x \<noteq> None) xs of [] \<Rightarrow> None | x # _ \<Rightarrow> x)"

definition ceiling_reached :: "OrchestratorConfig \<Rightarrow> clock \<Rightarrow> State \<Rightarrow> gtime \<Rightarrow> string option" where
  "ceiling_reached cfg ck s started =
     first_some [actions_ceiling cfg ck s, duration_ceiling cfg ck s started, story_tokens_ceiling cfg s, tokens_ceiling cfg s,
       stall_ceiling cfg ck s started]"

definition abort_remaining :: "string \<Rightarrow> gtime \<Rightarrow> State \<Rightarrow> State" where
  "abort_remaining log now s =
     s\<lparr>st_Tasks := map (abort_task log now) (st_Tasks s), st_BuildStatus := BuildFailing, st_StoryStatus := StoryFailed\<rparr>"

section \<open>The end of a story\<close>

text \<open>The answers of the phases after the last task: an audit is \<open>None\<close> if it failed or gave no result, otherwise whether it
  passed and what is missing.\<close>

record ('r, 'v) final_phases =
  fn_repair :: "State \<Rightarrow> ('r, 'v) update_state \<Rightarrow> State \<times> ('r, 'v) update_state"
  fn_git :: bool
  fn_changed :: bool
  fn_audit_due :: bool
  fn_audit :: "(bool \<times> string list) option"
  fn_queue_story :: "('r, 'v) update_state \<Rightarrow> bool \<times> ('r, 'v) update_state"
  fn_auditor :: bool
  fn_acceptance :: "(bool \<times> string list) option"
  fn_remediate :: bool
  fn_queue_acceptance :: "('r, 'v) update_state \<Rightarrow> bool \<times> ('r, 'v) update_state"
  fn_release :: "State \<Rightarrow> string option"

definition gaps_found :: "(bool \<times> string list) option \<Rightarrow> bool" where
  "gaps_found a = (case a of Some (passed, gaps) \<Rightarrow> \<not> passed \<and> gaps \<noteq> [] | None \<Rightarrow> False)"

definition is_final_story :: "State \<Rightarrow> bool" where
  "is_final_story s = list_all (\<lambda>x. story_ID x = meta_FeatureName (st_Metadata s) \<or> story_Status x = StorySuccess
     \<or> story_Status x = StoryDeferred) (st_Stories s)"

text \<open>\<open>FinalizeUserStory\<close>: nothing is released, and no error is reported, unless all tasks succeeded; the release is \<open>release\<close>.\<close>

definition FinalizeUserStory :: "(State \<Rightarrow> string option) \<Rightarrow> State \<Rightarrow> string option" where
  "FinalizeUserStory release s = (if \<not> allTasksSucceeded s then None else release s)"

definition work_verified :: "('r, 'v) final_phases \<Rightarrow> State \<Rightarrow> bool" where
  "work_verified fn s \<longleftrightarrow> \<not> (fn_git fn \<and> meta_BaseBranch (st_Metadata s) \<noteq> [] \<and> st_Tasks s \<noteq> [] \<and> \<not> fn_changed fn)"

datatype verdict = Remediate | Build bool

definition judge_story :: "('r, 'v) final_phases \<Rightarrow> State \<Rightarrow> ('r, 'v) update_state \<Rightarrow> verdict \<times> ('r, 'v) update_state" where
  "judge_story fn s u =
     (if \<not> allTasksSucceeded s then (Build False, u)
      else let bad = (fn_audit_due fn \<and> gaps_found (fn_audit fn));
               (queued, u1) = (if bad then fn_queue_story fn u else (False, u))
           in if queued then (Remediate, u1)
              else let ok = (work_verified fn s \<and> \<not> bad);
                       bad2 = (is_final_story s \<and> ok \<and> fn_auditor fn \<and> gaps_found (fn_acceptance fn));
                       (queued2, u2) = (if bad2 \<and> fn_remediate fn then fn_queue_acceptance fn u1 else (False, u1))
                   in if queued2 then (Remediate, u2)
                      else (Build (ok \<and> \<not> bad2 \<and> FinalizeUserStory (fn_release fn) s = None), u2))"

fun finish_story :: "(Story \<Rightarrow> bool) \<Rightarrow> (Story \<Rightarrow> Story) \<Rightarrow> Story list \<Rightarrow> Story list" where
  "finish_story P f [] = []"
| "finish_story P f (x # xs) = (if P x then f x # xs else x # finish_story P f xs)"

definition record_outcome :: "bool \<Rightarrow> gtime \<Rightarrow> State \<Rightarrow> State \<Rightarrow> State" where
  "record_outcome buildOK now s x =
     (let status = (if buildOK then StorySuccess else StoryFailed); m = st_Metadata s; sid = storyID_of s
      in x\<lparr>st_BuildStatus := (if buildOK then BuildPassing else BuildFailing), st_StoryStatus := status,
           st_Stories := finish_story (\<lambda>y. story_ID y = meta_FeatureName m \<or> story_FilePath y = meta_InputPath m \<or> sid \<noteq> [] \<and> story_ID y = sid)
             (\<lambda>y. y\<lparr>story_Status := status, story_CompletedAt := Some now, story_UpdatedAt := now\<rparr>) (st_Stories x)\<rparr>)"

section \<open>One cycle\<close>

record ('r, 'v, 'w) cycle_env =
  cy_load :: 'v
  cy_clock :: clock
  cy_sync :: "State \<Rightarrow> ('r, 'v) update_state \<Rightarrow> (string + State) \<times> ('r, 'v) update_state"
  cy_update :: "nat \<Rightarrow> 'v update_env"
  cy_mailbox :: bool
  cy_final :: "('r, 'v) final_phases"
  cy_deadlock :: "('v, 'w) deadlock_env"
  cy_dispatch :: "Task list \<Rightarrow> locks \<Rightarrow> ('r, 'v) update_state \<Rightarrow> locks \<times> ('r, 'v) update_state"

text \<open>What lives in the process: the locks, the start of the story, the repository and the world.\<close>

record ('r, 'v, 'w) process =
  pr_locks :: locks
  pr_started :: gtime
  pr_repo :: "('r, 'v) update_state"
  pr_world :: 'w

datatype cycle_result = Cycle_error string | No_work | Worked

definition cycle_update :: "('r, 'v) load_op \<Rightarrow> ('r, 'v) save_op \<Rightarrow> OrchestratorConfig \<Rightarrow> ('r, 'v, 'w) cycle_env \<Rightarrow> nat \<Rightarrow> (State \<Rightarrow> State)
    \<Rightarrow> ('r, 'v) update_state \<Rightarrow> ('r, 'v) update_state" where
  "cycle_update load save cfg env n f u =
     snd (updateStateWithRetry load save (cy_update env n) (oc_OCCMaxRetries cfg) (cy_mailbox env) (\<lambda>k s. Inr (f s)) u)"

definition conclude_story :: "('r, 'v) load_op \<Rightarrow> ('r, 'v) save_op \<Rightarrow> OrchestratorConfig \<Rightarrow> ('r, 'v, 'w) cycle_env \<Rightarrow> State
    \<Rightarrow> ('r, 'v) update_state \<Rightarrow> cycle_result \<times> ('r, 'v) update_state" where
  "conclude_story load save cfg env s u =
     (let (s1, u1) = fn_repair (cy_final env) s u; (verdict, u2) = judge_story (cy_final env) s1 u1
      in case verdict of
           Remediate \<Rightarrow> (Worked, u2)
         | Build ok \<Rightarrow> (No_work, cycle_update load save cfg env 1 (record_outcome ok (ck_now (cy_clock env)) s1) u2))"

text \<open>What follows when no ceiling is reached.\<close>

definition act_on_ready :: "('r, 'v) load_op \<Rightarrow> ('r, 'v) save_op \<Rightarrow> OrchestratorConfig \<Rightarrow> ('r, 'v, 'w) cycle_env \<Rightarrow> State \<Rightarrow> Task list
    \<Rightarrow> ('r, 'v, 'w) process \<Rightarrow> cycle_result \<times> ('r, 'v, 'w) process" where
  "act_on_ready load save cfg env s ready p =
     (if ready \<noteq> [] then
        (let (l, u) = cy_dispatch env ready (pr_locks p) (pr_repo p) in (Worked, p\<lparr>pr_locks := l, pr_repo := u\<rparr>))
      else if allTasksFinished s \<and> (st_StoryStatus s = StoryIdle \<or> st_StoryStatus s = StoryRunning) then
        (let (r, u) = conclude_story load save cfg env s (pr_repo p) in (r, p\<lparr>pr_repo := u\<rparr>))
      else
        (let ((progress, err), u, w) = handleDeadlockOrRescue load save (cy_deadlock env) s (pr_repo p) (pr_world p)
         in (case err of Some e \<Rightarrow> Cycle_error e | None \<Rightarrow> if progress then Worked else No_work, p\<lparr>pr_repo := u, pr_world := w\<rparr>)))"

definition RunOnce :: "('r, 'v) load_op \<Rightarrow> ('r, 'v) save_op \<Rightarrow> OrchestratorConfig \<Rightarrow> ('r, 'v, 'w) cycle_env \<Rightarrow> ('r, 'v, 'w) process
    \<Rightarrow> cycle_result \<times> ('r, 'v, 'w) process" where
  "RunOnce load save cfg env p =
     (case load (cy_load env) (us_repo (pr_repo p)) of
        Inl e \<Rightarrow> (Cycle_error ''load'', p)
      | Inr s0 \<Rightarrow>
          (case cy_sync env s0 (pr_repo p) of
             (Inl e, u) \<Rightarrow> (Cycle_error e, p\<lparr>pr_repo := u\<rparr>)
           | (Inr s, u) \<Rightarrow>
               (let (ready, l) = GetReadyTasks s (concurrency_of (oc_Concurrency cfg) (oc_GeneratorsNumber cfg)) (pr_locks p);
                    started = (if actions_ceiling cfg (cy_clock env) s \<noteq> None then pr_started p
                               else story_start cfg (cy_clock env) ready s (pr_started p));
                    p1 = p\<lparr>pr_locks := l, pr_repo := u, pr_started := started\<rparr>
                in case ceiling_reached cfg (cy_clock env) s started of
                     Some log \<Rightarrow> (No_work, p1\<lparr>pr_repo :=
                         cycle_update load save cfg env 0 (abort_remaining log (ck_now (cy_clock env))) u\<rparr>)
                   | None \<Rightarrow> act_on_ready load save cfg env s ready p1)))"

section \<open>The server's loop\<close>

definition allTasksDone :: "State \<Rightarrow> bool" where
  "allTasksDone s \<longleftrightarrow> st_Tasks s \<noteq> [] \<and> list_all (\<lambda>t. task_Status t = TaskSuccess \<or> task_Status t = TaskFailed) (st_Tasks s)"

definition anyTaskPermanentlyFailed :: "State \<Rightarrow> bool" where
  "anyTaskPermanentlyFailed s \<longleftrightarrow> list_ex (\<lambda>t. task_Status t = TaskFailed) (st_Tasks s)"

definition interrupt_task :: "gtime \<Rightarrow> Task \<Rightarrow> Task" where
  "interrupt_task now t =
     (if task_Status t = TaskInProgress \<or> task_Status t = TaskPending then t\<lparr>task_Status := TaskInterrupted, task_UpdatedAt := now\<rparr> else t)"

record ('r, 'v, 'w) serve_env =
  sv_path :: string
  sv_before :: 'v
  sv_after :: 'v
  sv_save :: 'v
  sv_now :: gtime
  sv_release :: "State \<Rightarrow> string option"
  sv_cycle :: "('r, 'v, 'w) cycle_env"

text \<open>One turn of the loop of \<open>processStory\<close>: it goes on, or the story ends with an optional error. Its saves ignore errors.\<close>

datatype loop_end = Goes_round | Story_ends "string option"

definition serve_save :: "('r, 'v) save_op \<Rightarrow> ('r, 'v, 'w) serve_env \<Rightarrow> State \<Rightarrow> ('r, 'v, 'w) process \<Rightarrow> ('r, 'v, 'w) process" where
  "serve_save save env s p = p\<lparr>pr_repo := snd (do_save save True (sv_save env) s (pr_repo p))\<rparr>"

definition cancel_story :: "gtime \<Rightarrow> State \<Rightarrow> State" where
  "cancel_story now s = s\<lparr>st_Tasks := map (interrupt_task now) (st_Tasks s), st_StoryError := ''cancelled by user''\<rparr>"

text \<open>After the cycle: all done, something failed, or neither.\<close>

definition check_story :: "('r, 'v) save_op \<Rightarrow> ('r, 'v, 'w) serve_env \<Rightarrow> State \<Rightarrow> ('r, 'v, 'w) process \<Rightarrow> loop_end \<times> ('r, 'v, 'w) process" where
  "check_story save env s p =
     (if allTasksDone s then
        (let err = FinalizeUserStory (sv_release env) s
         in (Story_ends err, serve_save save env
              (case err of None \<Rightarrow> s\<lparr>st_StoryStatus := StorySuccess\<rparr> | Some e \<Rightarrow> s\<lparr>st_StoryStatus := StoryFailed, st_StoryError := e\<rparr>) p))
      else if anyTaskPermanentlyFailed s then
        (let err = ''story '' @ sv_path env @ '': one or more tasks failed permanently''
         in (Story_ends (Some err), serve_save save env (s\<lparr>st_StoryStatus := StoryFailed, st_StoryError := err\<rparr>) p))
      else (Goes_round, p))"

definition processStory_turn :: "('r, 'v) load_op \<Rightarrow> ('r, 'v) save_op \<Rightarrow> OrchestratorConfig \<Rightarrow> ('r, 'v, 'w) serve_env \<Rightarrow> ('r, 'v, 'w) process
    \<Rightarrow> loop_end \<times> ('r, 'v, 'w) process" where
  "processStory_turn load save cfg env p =
     (case load (sv_before env) (us_repo (pr_repo p)) of
        Inl e \<Rightarrow> (Goes_round, p)
      | Inr s \<Rightarrow>
          (if st_StoryStatus s = StoryPaused then (Goes_round, p)
           else if st_StoryStatus s = StoryCancelled
           then (Story_ends (Some (''story '' @ sv_path env @ '': cancelled by user'')), serve_save save env (cancel_story (sv_now env) s) p)
           else let (r, p1) = RunOnce load save cfg (sv_cycle env) p
                in case load (sv_after env) (us_repo (pr_repo p1)) of
                     Inl e \<Rightarrow> (Story_ends (Some ''load''), p1)
                   | Inr s1 \<Rightarrow> check_story save env s1 p1))"

section \<open>What the code decides\<close>

text \<open>C36: A story is recorded as successful exactly if all its tasks succeeded, the branch shows work, no due audit that gave a result
  found something missing, and the release reported no error.\<close>

theorem story_success_iff:
  "fst (judge_story fn s u) = Build True \<longleftrightarrow>
     allTasksSucceeded s \<and> work_verified fn s \<and> (fn_audit_due fn \<longrightarrow> \<not> gaps_found (fn_audit fn))
     \<and> (is_final_story s \<and> fn_auditor fn \<longrightarrow> \<not> gaps_found (fn_acceptance fn)) \<and> fn_release fn s = None"
  by (auto simp: judge_story_def FinalizeUserStory_def Let_def split: prod.splits if_splits)

lemma failed_task_not_succeeded:
  "t \<in> set (st_Tasks s) \<Longrightarrow> counts_for_story (storyID_of s) t \<Longrightarrow> task_Status t \<noteq> TaskSuccess \<Longrightarrow> \<not> allTasksSucceeded s"
  by (auto simp: allTasksSucceeded_def story_tasks_all_def list_all_iff Let_def filter_empty_conv)

text \<open>C7: The server takes a story whose tasks are all finished for done although one of them has failed: \<open>FinalizeUserStory\<close> then
  skips the release without an error, and the loop saves the story as successful and returns no error.\<close>

theorem failed_story_saved_as_success:
  assumes "processStory_turn load save cfg env p = (res, p')" "RunOnce load save cfg (sv_cycle env) p = (r, p1)"
    and "load (sv_before env) (us_repo (pr_repo p)) = Inr s0" "st_StoryStatus s0 \<notin> {StoryPaused, StoryCancelled}"
    and "load (sv_after env) (us_repo (pr_repo p1)) = Inr s" "allTasksDone s"
    and "t \<in> set (st_Tasks s)" "counts_for_story (storyID_of s) t" "task_Status t = TaskFailed"
  shows "res = Story_ends None \<and> us_log (pr_repo p') = us_log (pr_repo p1) @ [(True, sv_save env, s\<lparr>st_StoryStatus := StorySuccess\<rparr>)]"
proof -
  have "FinalizeUserStory (sv_release env) s = None"
    using failed_task_not_succeeded [OF assms(7,8)] assms(9) by (simp add: FinalizeUserStory_def)
  with assms show ?thesis
    by (auto simp: processStory_turn_def check_story_def serve_save_def do_save_def split: prod.splits)
qed

section \<open>After an abort\<close>

definition aborted_status :: "TaskStatus \<Rightarrow> TaskStatus" where
  "aborted_status st = (if st = TaskSuccess then st else TaskFailed)"

lemma abort_task_fields [simp]:
  "task_ID (abort_task d n t) = task_ID t" "task_Title (abort_task d n t) = task_Title t" "task_StoryID (abort_task d n t) = task_StoryID t"
  "task_DependsOn (abort_task d n t) = task_DependsOn t" "task_TargetFiles (abort_task d n t) = task_TargetFiles t"
  "task_Retries (abort_task d n t) = task_Retries t" "task_MaxRetries (abort_task d n t) = task_MaxRetries t"
  "task_Status (abort_task d n t) = aborted_status (task_Status t)"
  by (simp_all add: abort_task_def aborted_status_def)

lemma aborted_success [simp]: "aborted_status st = TaskSuccess \<longleftrightarrow> st = TaskSuccess"
  by (simp add: aborted_status_def)

lemma newDependencyIndex_abort [simp]: "newDependencyIndex (map (abort_task d n) ts) = newDependencyIndex ts"
proof -
  have "foldl index_task i (map (abort_task d n) ts) = foldl index_task i ts" for i
    by (induction ts arbitrary: i) (simp_all add: index_task_def Let_def)
  then show ?thesis by (simp add: newDependencyIndex_def)
qed

lemma statusMap_abort: "statusMap (map (abort_task d n) ts) i = map_option aborted_status (statusMap ts i)"
proof -
  have "map_of (rev (map (\<lambda>t. (task_ID t, aborted_status (task_Status t))) ts))
     = map_of (map (\<lambda>(k, v). (k, aborted_status v)) (rev (map (\<lambda>t. (task_ID t, task_Status t)) ts)))"
    by (simp add: rev_map comp_def)
  then show ?thesis by (simp add: statusMap_def comp_def map_of_map)
qed

lemma depsMet_abort [simp]:
  "depsMet idx (map (abort_task d n) ts) (abort_task d n t) = depsMet idx ts t"
proof -
  have "earlier_story_done (map (abort_task d n) ts) (abort_task d n t) i = earlier_story_done ts t i" for i
    by (simp add: earlier_story_done_def Let_def list_ex_iff list_all_iff)
  then have "dep_met idx (map (abort_task d n) ts) (abort_task d n t) = dep_met idx ts t"
    by (auto simp: dep_met_def statusMap_abort Let_def split: option.splits)
  moreover have "hasCrossStoryDep idx (map (abort_task d n) ts) (abort_task d n t) = hasCrossStoryDep idx ts t"
    by (simp add: hasCrossStoryDep_def list_ex_iff)
  then have "milestone_met idx (map (abort_task d n) ts) (abort_task d n t) = milestone_met idx ts t"
    by (simp add: milestone_met_def list_all_iff)
  ultimately show ?thesis by (simp add: depsMet_def)
qed

lemma block_pass_abort [simp]: "block_pass idx (map (abort_task d n) ts) b = block_pass idx ts b"
  by (induction idx ts b rule: block_pass.induct) simp_all

lemma propagate_abort [simp]: "propagate idx (map (abort_task d n) ts) b = propagate idx ts b"
proof (induction idx ts b rule: propagate.induct)
  case (1 idx ts b)
  then show ?case
    by (simp add: propagate.simps [of idx "map (abort_task d n) ts" b] propagate.simps [of idx ts b] Let_def)
qed

text \<open>A task that was ready before the abort, with a retry left, makes the next round return something.\<close>

lemma ready_after_abort:
  assumes t: "t \<in> set (fst (GetReadyTasks s limit l))" and retries: "task_Retries t < task_MaxRetries t"
  shows "fst (GetReadyTasks (abort_remaining log now s) limit (snd (GetReadyTasks s limit l))) \<noteq> []"
proof -
  let ?idx = "newDependencyIndex (st_Tasks s)" and ?l = "snd (GetReadyTasks s limit l)" and ?x = "abort_remaining log now s"
  obtain b0 where b0: "initial_blocked ?idx (st_Clarifications s) {} = Some b0" and slots: "activeCount s < limit"
    using t by (auto simp: GetReadyTasks_def Let_def split: option.splits if_splits)
  note e = ready_elem [OF t]
  have "eligible ?x (propagate ?idx (st_Tasks s) b0) (abort_task log now t)"
    using e(2-4) retries propagate_iff [OF b0]
    by (auto simp: eligible_def abort_remaining_def retryable_def aborted_status_def)
  moreover have "fst (TryAcquireLocks ?l (task_ID (abort_task log now t)) (task_TargetFiles (abort_task log now t)))"
    using GetReadyTasks_owns [OF t] by (auto simp: TryAcquireLocks_granted registry.owns_def)
  moreover have "abort_task log now t \<in> set (st_Tasks ?x)" using e(1) by (simp add: abort_remaining_def)
  ultimately have "\<exists>u \<in> set (st_Tasks ?x). eligible ?x (propagate ?idx (st_Tasks s) b0) u
      \<and> fst (TryAcquireLocks ?l (task_ID u) (task_TargetFiles u))" by blast
  from select_ready_progress [OF this] b0 slots show ?thesis
    by (simp add: GetReadyTasks_def Let_def abort_remaining_def activeCount_def)
qed

lemma no_ceiling_after_abort: "st_Tasks s \<noteq> [] \<Longrightarrow> ceiling_reached cfg ck (abort_remaining log now s) started = None"
proof -
  assume "st_Tasks s \<noteq> []"
  then have "allTasksFinished (abort_remaining log now s)"
    by (auto simp: allTasksFinished_def story_tasks_all_def abort_remaining_def list_all_iff aborted_status_def Let_def
        split: if_splits)
  then show ?thesis
    by (simp add: ceiling_reached_def first_some_def actions_ceiling_def duration_ceiling_def story_tokens_ceiling_def tokens_ceiling_def
        stall_ceiling_def Let_def) (simp add: abort_remaining_def)
qed

text \<open>C35: A ceiling does not hold for the next cycle: after a cycle that found a ready task but failed all tasks because of a ceiling,
  no ceiling applies to the stored state, whatever has been spent, since its tasks count as finished; and if the task has a
  retry left, the next cycle dispatches again.\<close>

theorem aborted_story_redispatched:
  assumes "load (cy_load env) (us_repo (pr_repo p)) = Inr (abort_remaining log now s)" "\<forall>x u. cy_sync env x u = (Inr x, u)"
    and "c = concurrency_of (oc_Concurrency cfg) (oc_GeneratorsNumber cfg)" "pr_locks p = snd (GetReadyTasks s c l)"
    and "t \<in> set (fst (GetReadyTasks s c l))" "task_Retries t < task_MaxRetries t"
  shows "\<exists>ready p1. ready \<noteq> [] \<and> RunOnce load save cfg env p = act_on_ready load save cfg env (abort_remaining log now s) ready p1"
proof -
  have "st_Tasks s \<noteq> []" using ready_elem(1) [OF assms(5)] by auto
  note none = no_ceiling_after_abort [OF this]
  have "actions_ceiling cfg (cy_clock env) (abort_remaining log now s) = None" by (simp add: actions_ceiling_def abort_remaining_def)
  obtain ready l' where g: "GetReadyTasks (abort_remaining log now s) c (pr_locks p) = (ready, l')" by fastforce
  with ready_after_abort [OF assms(5,6)] assms(4) have "ready \<noteq> []" by (metis fst_conv)
  with assms(1-3) none \<open>actions_ceiling cfg _ _ = None\<close> g show ?thesis
    by (intro exI [of _ ready] exI [of _ "p\<lparr>pr_locks := l', pr_repo := pr_repo p, pr_started :=
          story_start cfg (cy_clock env) ready (abort_remaining log now s) (pr_started p)\<rparr>"] conjI) (simp_all add: RunOnce_def)
qed

text \<open>A process whose repository is one state: the token ceiling is exceeded, the cycle fails the only task, and the server records the
  story as successful; a second cycle would dispatch the task.\<close>

definition idle_phases :: "(State, unit) final_phases" where
  "idle_phases = \<lparr>fn_repair = \<lambda>s u. (s, u), fn_git = True, fn_changed = True, fn_audit_due = True, fn_audit = Some (True, []),
     fn_queue_story = \<lambda>u. (False, u), fn_auditor = False, fn_acceptance = None, fn_remediate = False,
     fn_queue_acceptance = \<lambda>u. (False, u), fn_release = \<lambda>s. None\<rparr>"

definition costly_env :: "(State, unit, nat list) cycle_env" where
  "costly_env = \<lparr>cy_load = (), cy_clock = \<lparr>ck_now = 50, ck_actions = 0, ck_duration = fmt_d\<rparr>, cy_sync = \<lambda>s u. (Inr s, u),
     cy_update = \<lambda>n. quiet (), cy_mailbox = False, cy_final = idle_phases,
     cy_deadlock = \<lparr>de_update = \<lambda>n. quiet (), de_occ = 0, de_mailbox = False, de_now = \<lambda>n. 50,
       de_fallback = \<lparr>fa_Enabled = False, fa_Model = [], fa_Profile = [], fa_Providers = [], fa_MaxTurns = 0\<rparr>, de_agent = noop_env ()\<rparr>,
     cy_dispatch = \<lambda>ready l u. (l, u)\<rparr>"

definition costly_cfg :: OrchestratorConfig where
  "costly_cfg = \<lparr>oc_Concurrency = 2, oc_GeneratorsNumber = 0, oc_MaxActions = 0, oc_MaxDuration = 0, oc_MaxTokensPerStory = 100,
     oc_MaxTokens = 0, oc_MaxSilentStallDuration = 0, oc_OCCMaxRetries = 0\<rparr>"

definition costly_story :: State where
  "costly_story = (mk_state [(mk_task ''T1'' ''Parser'' TaskPending)\<lparr>task_TokensUsed := 120, task_MaxRetries := 3\<rparr>])\<lparr>st_StoryStatus := StoryRunning\<rparr>"

definition costly_process :: "(State, unit, nat list) process" where
  "costly_process = \<lparr>pr_locks = Map.empty, pr_started = 0, pr_repo = \<lparr>us_repo = costly_story, us_log = [], us_seen = []\<rparr>, pr_world = []\<rparr>"

definition costly_serve :: "(State, unit, nat list) serve_env" where
  "costly_serve = \<lparr>sv_path = ''a.md'', sv_before = (), sv_after = (), sv_save = (), sv_now = 60, sv_release = \<lambda>s. None, sv_cycle = costly_env\<rparr>"

definition memory_load :: "(State, unit) load_op" where
  "memory_load v r = Inr r"

definition memory_save :: "(State, unit) save_op" where
  "memory_save v r s = (s, Inr s)"

definition costly_log :: string where
  "costly_log = ''story exceeded max_tokens_per_story ceiling 100 (consumed 120 tokens)''"

lemma costly_run:
  "us_repo (pr_repo (snd (RunOnce memory_load memory_save costly_cfg costly_env costly_process))) = abort_remaining costly_log 50 costly_story"
  "map task_ID (fst (GetReadyTasks costly_story 2 Map.empty)) = [''T1'']" "concurrency_of 2 0 = 2"
  "allTasksDone (abort_remaining costly_log 50 costly_story)"
  "list_all (\<lambda>t. counts_for_story (storyID_of (abort_remaining costly_log 50 costly_story)) t \<and> task_Status t = TaskFailed)
     (st_Tasks (abort_remaining costly_log 50 costly_story))"
  by code_simp+

theorem story_success_iff_witness:
  "fst (judge_story idle_phases ((mk_state [mk_task ''T1'' ''Parser'' TaskSuccess])) \<lparr>us_repo = costly_story, us_log = [], us_seen = []\<rparr>) = Build True"
proof -
  have "allTasksSucceeded (mk_state [mk_task ''T1'' ''Parser'' TaskSuccess])" by code_simp
  moreover have "work_verified idle_phases s \<and> \<not> gaps_found (fn_audit idle_phases) \<and> \<not> fn_auditor idle_phases \<and> fn_release idle_phases s = None" for s
    by (simp add: work_verified_def idle_phases_def gaps_found_def)
  ultimately show ?thesis unfolding story_success_iff by blast
qed

theorem failed_story_saved_as_success_witness:
  "\<exists>p'. processStory_turn memory_load memory_save costly_cfg costly_serve costly_process = (Story_ends None, p')
     \<and> st_StoryStatus (snd (snd (last (us_log (pr_repo p'))))) = StorySuccess"
proof -
  let ?x = "abort_remaining costly_log 50 costly_story"
  obtain res p' where turn: "processStory_turn memory_load memory_save costly_cfg costly_serve costly_process = (res, p')" by fastforce
  obtain r p1 where run: "RunOnce memory_load memory_save costly_cfg (sv_cycle costly_serve) costly_process = (r, p1)" by fastforce
  then have after: "memory_load (sv_after costly_serve) (us_repo (pr_repo p1)) = Inr ?x"
    using costly_run(1) by (simp add: memory_load_def costly_serve_def)
  have before: "memory_load (sv_before costly_serve) (us_repo (pr_repo costly_process)) = Inr costly_story"
    "st_StoryStatus costly_story \<notin> {StoryPaused, StoryCancelled}"
    by (simp_all add: memory_load_def costly_process_def costly_story_def)
  have "st_Tasks ?x \<noteq> []" using costly_run(4) by (simp add: allTasksDone_def)
  then obtain t where "t \<in> set (st_Tasks ?x)" by (cases "st_Tasks ?x") auto
  moreover from this have "counts_for_story (storyID_of ?x) t" "task_Status t = TaskFailed" using costly_run(5) by (simp_all add: list_all_iff)
  ultimately have "res = Story_ends None \<and> us_log (pr_repo p') = us_log (pr_repo p1) @ [(True, sv_save costly_serve, ?x\<lparr>st_StoryStatus := StorySuccess\<rparr>)]"
    by (rule failed_story_saved_as_success [OF turn run before after costly_run(4)])
  with turn show ?thesis by (intro exI [of _ p']) simp
qed

theorem aborted_story_redispatched_witness:
  "\<exists>ready p1. ready \<noteq> [] \<and> RunOnce memory_load memory_save costly_cfg costly_env
       (costly_process\<lparr>pr_locks := snd (GetReadyTasks costly_story 2 Map.empty),
          pr_repo := \<lparr>us_repo = abort_remaining costly_log 50 costly_story, us_log = [], us_seen = []\<rparr>\<rparr>)
     = act_on_ready memory_load memory_save costly_cfg costly_env (abort_remaining costly_log 50 costly_story) ready p1"
proof -
  have "fst (GetReadyTasks costly_story 2 Map.empty) \<noteq> []" using costly_run(2) by auto
  then obtain t where t: "t \<in> set (fst (GetReadyTasks costly_story 2 Map.empty))"
    by (cases "fst (GetReadyTasks costly_story 2 Map.empty)") auto
  have "list_all (\<lambda>t. task_Retries t < task_MaxRetries t) (st_Tasks costly_story)" by code_simp
  with ready_elem(1) [OF t] have "task_Retries t < task_MaxRetries t" by (simp add: list_all_iff)
  from aborted_story_redispatched [OF _ _ _ _ t this, of memory_load costly_env _ costly_log 50 costly_cfg memory_save]
  show ?thesis using costly_run(3) by (simp add: memory_load_def costly_env_def costly_cfg_def)
qed

end
