(* ===== verification/Llm_Client.thy ===== *)
theory Llm_Client
  imports Llm_Errors
begin

text \<open>
  One completion against one provider: \<open>client.go\<close>, \<open>client_catalog.go\<close>, \<open>client_reminder.go\<close> and
  \<open>fallback.go\<close> of \<open>src/pkg/infrastructure/llm\<close>. A call is retried with a growing pause, a rate limit
  moves to the next key of the pool, an unknown model is blacklisted, and after a failure that a cheaper
  model may cure the next model of the catalogue is tried once; a reply that is no JSON envelope is
  asked for once more. The provider, the clock, the pause, the environment variables, the parsers of
  replies and model names, and the prompt compactors are the environment
  \<open>llm_env\<close> over a world \<open>'w\<close>; versions are any linear order. The state has the fields of \<open>Client\<close> that calls
  change, the process-wide blacklist and the calls made so far. The background refresh of the
  catalogue is taken right after the answer that starts it; trace spans and events are left out.
\<close>

section \<open>Data\<close>

record ProviderCallResult =
  pr_Body :: string
  pr_Usage :: TokenUsage

record 'v ProviderModelInfo =
  pm_Name :: string
  pm_Version :: 'v
  pm_Tier :: string
  pm_Rank :: int

record Client =
  cl_Provider :: string
  cl_Model :: string
  cl_APIKey :: string
  cl_APIKeys :: "string list"
  cl_MaxRetries :: int
  cl_Backoff :: int
  cl_CavemanCompaction :: bool
  cl_Compaction :: string
  cl_SkipOnCreditExhausted :: bool
  cl_MaxPromptTokens :: int
  cl_JSONReminderTaskCap :: int
  cl_catalogTTL :: int

record ('w, 'v) llm_env =
  le_call :: "'w \<Rightarrow> string \<Rightarrow> string \<Rightarrow> string \<Rightarrow> (ProviderCallResult option \<times> go_error option) \<times> 'w"
  le_models :: "'w \<Rightarrow> string \<Rightarrow> string list option \<times> 'w"
  le_now :: "'w \<Rightarrow> int"
  le_wait :: "'w \<Rightarrow> int \<Rightarrow> go_error option \<times> 'w"
  le_getenv :: "string \<Rightarrow> string"
  le_env_keys :: "string list"
  le_reply :: "string \<Rightarrow> (go_error, LLMResponse) result"
  le_parse_model :: "string \<Rightarrow> 'v ProviderModelInfo option"
  le_sort :: "'v ProviderModelInfo list \<Rightarrow> 'v ProviderModelInfo list"
  le_json :: "(string \<times> gany) list \<Rightarrow> string option"
  le_simple_english :: "string \<Rightarrow> string"
  le_caveman :: "string \<Rightarrow> string"

record provider_call =
  call_model :: string
  call_key :: string
  call_prompt :: string
  call_result :: "ProviderCallResult option"
  call_err :: "go_error option"

record 'w llm_state =
  ls_world :: 'w
  ls_blacklist :: "string list"
  ls_keyIndex :: int
  ls_catalog :: "(string list \<times> int) option"
  ls_calls :: "provider_call list"

definition call_provider :: "('w, 'v) llm_env \<Rightarrow> 'w llm_state \<Rightarrow> string \<Rightarrow> string \<Rightarrow> string
    \<Rightarrow> (ProviderCallResult option \<times> go_error option) \<times> 'w llm_state" where
  "call_provider env s model key prompt =
     (let ((r, e), w) = le_call env (ls_world s) model key prompt
      in ((r, e), s\<lparr>ls_world := w, ls_calls := ls_calls s @
           [\<lparr>call_model = model, call_key = key, call_prompt = prompt, call_result = r, call_err = e\<rparr>]\<rparr>))"

section \<open>Choosing a fallback model\<close>

definition normalizeModelName :: "string \<Rightarrow> string" where
  "normalizeModelName name = TrimPrefix (TrimPrefix (ToLower (TrimSpace name)) ''~'') ''models/''"

text \<open>The order of \<open>sortProviderModels\<close>. \<open>sort.Slice\<close> leaves the order of equal elements open, so the sort itself
  is the parameter \<open>le_sort\<close> and the properties hold for every function that sorts.\<close>

definition model_before :: "'v::linorder ProviderModelInfo \<Rightarrow> 'v ProviderModelInfo \<Rightarrow> bool" where
  "model_before a b \<longleftrightarrow>
     (if pm_Rank a \<noteq> pm_Rank b then pm_Rank a > pm_Rank b else pm_Version a > pm_Version b)"

definition isModelDelimiter :: "char \<Rightarrow> bool" where
  "isModelDelimiter b \<longleftrightarrow> b \<in> {CHR ''-'', CHR ''.'', CHR ''_'', CHR '':'', CHR ''/''}"

definition extends_at_delimiter :: "string \<Rightarrow> string \<Rightarrow> bool" where
  "extends_at_delimiter long short \<longleftrightarrow>
     HasPrefix long short \<and> (case drop (length short) long of [] \<Rightarrow> False | b # _ \<Rightarrow> isModelDelimiter b)"

definition isModelPrefixMatch :: "string \<Rightarrow> string \<Rightarrow> bool" where
  "isModelPrefixMatch catalogName configuredName =
     (let normCat = normalizeModelName catalogName; normCfg = normalizeModelName configuredName
      in if normCat = [] \<or> normCfg = [] then False
         else if normCat = normCfg then True
         else extends_at_delimiter normCat normCfg \<or> extends_at_delimiter normCfg normCat)"

text \<open>The search over a sorted list: below the current model if that is listed, otherwise by prefix of
  the configured name, otherwise from the top.\<close>

fun below_current :: "string \<Rightarrow> 'v ProviderModelInfo list \<Rightarrow> 'v ProviderModelInfo list option" where
  "below_current normCurrent [] = None"
| "below_current normCurrent (m # ms) =
     (if normalizeModelName (pm_Name m) = normCurrent then Some ms else below_current normCurrent ms)"

definition first_name :: "('v ProviderModelInfo \<Rightarrow> bool) \<Rightarrow> 'v ProviderModelInfo list \<Rightarrow> string option" where
  "first_name P ms = map_option pm_Name (find P ms)"

definition selectFallbackModel :: "('v ProviderModelInfo list \<Rightarrow> 'v ProviderModelInfo list) \<Rightarrow> string list
    \<Rightarrow> string \<Rightarrow> string \<Rightarrow> 'v ProviderModelInfo list \<Rightarrow> string" where
  "selectFallbackModel srt bl configured current models =
     (if models = [] then []
      else let ms = srt models; normCurrent = normalizeModelName current;
               ok = (\<lambda>m. \<not> IsModelBlacklisted bl (pm_Name m));
               other = (\<lambda>m. ok m \<and> normalizeModelName (pm_Name m) \<noteq> normCurrent)
           in (case below_current normCurrent ms of
                 Some lower \<Rightarrow> (case first_name ok lower of Some n \<Rightarrow> n | None \<Rightarrow> [])
               | None \<Rightarrow>
                   (case (if normalizeModelName configured \<noteq> []
                          then first_name (\<lambda>m. other m \<and> isModelPrefixMatch (pm_Name m) configured) ms
                          else None) of
                      Some n \<Rightarrow> n
                    | None \<Rightarrow> (case first_name other ms of Some n \<Rightarrow> n | None \<Rightarrow> []))))"

definition selectLowerModelFromParsed :: "('v ProviderModelInfo list \<Rightarrow> 'v ProviderModelInfo list) \<Rightarrow> string list
    \<Rightarrow> string \<Rightarrow> 'v ProviderModelInfo list \<Rightarrow> string" where
  "selectLowerModelFromParsed srt bl current models = selectFallbackModel srt bl current current models"

section \<open>The model catalogue\<close>

definition catalog_ttl :: "Client \<Rightarrow> int" where
  "catalog_ttl c = (if cl_catalogTTL c \<le> 0 then 300 * 10 ^ 9 else cl_catalogTTL c)"

text \<open>\<open>None\<close> is an error of the provider. Errors and empty catalogues are not cached.\<close>

definition fetchAndCacheCatalog :: "('w, 'v) llm_env \<Rightarrow> Client \<Rightarrow> string \<Rightarrow> 'w llm_state \<Rightarrow> string list option \<times> 'w llm_state" where
  "fetchAndCacheCatalog env c apiKey s =
     (let (models, w) = le_models env (ls_world s) apiKey; s1 = s\<lparr>ls_world := w\<rparr>
      in (case models of
            None \<Rightarrow> (None, s1)
          | Some [] \<Rightarrow> (Some [], s1)
          | Some ms \<Rightarrow> (Some ms, s1\<lparr>ls_catalog := Some (ms, le_now env w + catalog_ttl c)\<rparr>)))"

definition availableModelsCached :: "('w, 'v) llm_env \<Rightarrow> Client \<Rightarrow> string \<Rightarrow> 'w llm_state \<Rightarrow> string list option \<times> 'w llm_state" where
  "availableModelsCached env c apiKey s =
     (case ls_catalog s of
        Some (m # ms, expires) \<Rightarrow>
          (Some (m # ms),
           if expires - le_now env (ls_world s) < catalog_ttl c div 5
           then snd (fetchAndCacheCatalog env c apiKey s) else s)
      | _ \<Rightarrow> fetchAndCacheCatalog env c apiKey s)"

definition parseCatalogModels :: "('w, 'v) llm_env \<Rightarrow> string list \<Rightarrow> 'v ProviderModelInfo list" where
  "parseCatalogModels env available = List.map_filter (le_parse_model env) available"

definition getNextLowerModel :: "('w, 'v) llm_env \<Rightarrow> Client \<Rightarrow> string \<Rightarrow> string \<Rightarrow> 'w llm_state \<Rightarrow> string \<times> 'w llm_state" where
  "getNextLowerModel env c apiKey current s =
     (let (available, s1) = availableModelsCached env c apiKey s
      in (case available of
            None \<Rightarrow> ([], s1)
          | Some names \<Rightarrow>
              (if parseCatalogModels env names = [] then ([], s1)
               else (selectFallbackModel (le_sort env) (ls_blacklist s1) (cl_Model c) current
                       (parseCatalogModels env names), s1))))"

definition resolveLatestModel :: "('w, 'v) llm_env \<Rightarrow> Client \<Rightarrow> string \<Rightarrow> 'w llm_state \<Rightarrow> string \<times> 'w llm_state" where
  "resolveLatestModel env c apiKey s =
     (let (available, s1) = availableModelsCached env c apiKey s
      in (case available of
            None \<Rightarrow> ([], s1)
          | Some names \<Rightarrow>
              (if parseCatalogModels env names = [] then ([], s1)
               else (pm_Name (hd (le_sort env (parseCatalogModels env names))), s1))))"

section \<open>Keys and prompts\<close>

definition getNextAPIKey :: "Client \<Rightarrow> 'w llm_state \<Rightarrow> string \<times> 'w llm_state" where
  "getNextAPIKey c s =
     (if cl_APIKeys c \<noteq> []
      then (cl_APIKeys c ! nat (ls_keyIndex s mod int (length (cl_APIKeys c))), s\<lparr>ls_keyIndex := (ls_keyIndex s + 1) mod 2 ^ 64\<rparr>)
      else (cl_APIKey c, s))"

definition api_key_or_env :: "('w, 'v) llm_env \<Rightarrow> string \<Rightarrow> string" where
  "api_key_or_env env key =
     (if key \<noteq> [] then key
      else case find (\<lambda>v. v \<noteq> []) (map (le_getenv env) (le_env_keys env)) of
             Some v \<Rightarrow> v | None \<Rightarrow> le_getenv env ''NOCTIFAB_LLM_API_KEY'')"

text \<open>\<open>tailLen\<close> is the length of the output contract at the end of the prompt, from the context.\<close>

definition compactPrompt :: "('w, 'v) llm_env \<Rightarrow> Client \<Rightarrow> nat \<Rightarrow> string \<Rightarrow> string" where
  "compactPrompt env c tailLen prompt =
     (let cut = (if 0 < tailLen \<and> tailLen < length prompt then length prompt - tailLen else length prompt);
          head = take cut prompt; tail = drop cut prompt;
          mode = ToLower (TrimSpace (cl_Compaction c))
      in if mode = ''simple_english'' then le_simple_english env head @ tail
         else if mode = ''caveman'' \<or> mode = ''aggressive'' then le_caveman env head @ tail
         else if cl_CavemanCompaction c then le_caveman env head @ tail
         else prompt)"

definition truncated_mark :: string where
  "truncated_mark = newline # ''...[spec/context truncated for format reminder]...''"

text \<open>The reminder, line by line.\<close>

definition reminder_text :: "string \<Rightarrow> string" where
  "reminder_text summary = (let quote = CHR 0x27 in Join
     [''Your previous response did NOT contain the structured JSON envelope that this system requires. ''
        @ ''The system cannot continue without a single valid JSON object.'',
      [],
      ''Original task:'',
      summary,
      [],
      ''CRITICAL INSTRUCTION (overrides anything above):'',
      ''Respond with ONLY a single JSON object matching this schema. Ensure the JSON starts with an ''
        @ ''opening brace '' @ quote # ''{'' @ quote # []
        @ '' and ends with a closing brace '' @ quote # ''}'' @ quote # []
        @ ''. No markdown, no code fences, no prose before or after the JSON. Keys and string values must ''
        @ ''use double quotes.'',
      [],
      ''Schema:'',
      ''{'',
      ''  \"reasoning\": \"your reasoning\",'',
      ''  \"actions\": ['',
      ''    { \"tool\": \"write_file\", \"args\": { \"path\": \"...\", \"content\": \"...\" } }'',
      ''  ]'',
      ''}'',
      [],
      ''Return the valid JSON block now and nothing else.''] [newline])"

definition buildJSONReminderPrompt :: "Client \<Rightarrow> string \<Rightarrow> string" where
  "buildJSONReminderPrompt c prompt =
     (let taskCap = (if cl_JSONReminderTaskCap c > 0 then nat (cl_JSONReminderTaskCap c) else 1500);
          summary = TrimSpace prompt
      in reminder_text (if length summary > taskCap then take taskCap summary @ truncated_mark else summary))"

section \<open>Retries\<close>

definition retries :: "Client \<Rightarrow> nat" where
  "retries c = (if cl_MaxRetries c \<le> 0 then 5 else nat (cl_MaxRetries c))"

definition first_backoff :: "Client \<Rightarrow> int" where
  "first_backoff c = (if cl_Backoff c \<le> 0 then 100 * 10 ^ 6 else cl_Backoff c)"

datatype attempts_end = Finished "ProviderCallResult option" "go_error option" bool | Stopped go_error

text \<open>The loop over \<open>attempt\<close>; \<open>left\<close> counts the attempts that remain, \<open>prev\<close> is the result of the
  previous one. \<open>Stopped\<close> is the return when the context ends during a pause.\<close>

primrec attempts :: "('w, 'v) llm_env \<Rightarrow> Client \<Rightarrow> string \<Rightarrow> string \<Rightarrow> nat \<Rightarrow> string \<Rightarrow> int \<Rightarrow> bool
    \<Rightarrow> ProviderCallResult option \<times> go_error option \<Rightarrow> 'w llm_state \<Rightarrow> attempts_end \<times> 'w llm_state" where
  "attempts env c model prompt 0 key backoff credit prev s = (Finished (fst prev) (snd prev) credit, s)"
| "attempts env c model prompt (Suc left) key backoff credit prev s =
     (let ((res, err), s1) = call_provider env s model key prompt;
          skip = cl_SkipOnCreditExhausted c;
          credit' = (credit \<or> isCreditExhausted err);
          attempt = retries c - left
      in if err = None \<and> res \<noteq> None then (Finished res err credit, s1)
         else if isModelNotFoundOrDeprecated err
         then (Finished res err credit, s1\<lparr>ls_blacklist := BlacklistModel (ls_blacklist s1) model\<rparr>)
         else if isCreditExhausted err \<and> skip then (Finished res err True, s1)
         else if isNonRetryableHTTPError err then (Finished res err credit', s1)
         else if isRateLimitOrQuota err \<or> (credit' \<and> skip)
         then (if length (cl_APIKeys c) > 1 \<and> attempt < length (cl_APIKeys c) - 1
               then let (key', s2) = getNextAPIKey c s1
                    in attempts env c model prompt left key' backoff credit' (res, err) s2
               else (Finished res err credit', s1))
         else if attempt = retries c then (Finished res err credit', s1)
         else let (stop, w) = le_wait env (ls_world s1) backoff; s2 = s1\<lparr>ls_world := w\<rparr>
              in (case stop of
                    Some e \<Rightarrow> (Stopped e, s2)
                  | None \<Rightarrow> attempts env c model prompt left key (wrap64 (backoff * 2)) credit' (res, err) s2))"

section \<open>Replies\<close>

definition stated_usage :: "('w, 'v) llm_env \<Rightarrow> string \<Rightarrow> LLMResponse \<Rightarrow> TokenUsage \<Rightarrow> TokenUsage" where
  "stated_usage env prompt resp usage =
     (if tu_TotalTokens usage \<le> 0 then FallbackTokenUsage (le_json env) prompt (Some resp) else usage)"

text \<open>A reply that is no envelope is asked for once more with a reminder.\<close>

definition finish_call :: "('w, 'v) llm_env \<Rightarrow> Client \<Rightarrow> string \<Rightarrow> string \<Rightarrow> string \<Rightarrow> ProviderCallResult
    \<Rightarrow> 'w llm_state \<Rightarrow> (go_error, LLMResponse) result \<times> 'w llm_state" where
  "finish_call env c apiKey model prompt res s =
     (case le_reply env (pr_Body res) of
        Inr resp \<Rightarrow> (Inr (resp\<lparr>lr_Usage := stated_usage env prompt resp (pr_Usage res)\<rparr>), s)
      | Inl parseErr \<Rightarrow>
          (let reminder = buildJSONReminderPrompt c prompt;
               ((res2, err2), s1) = call_provider env s model apiKey reminder
           in (case (res2, err2) of
                 (Some r2, None) \<Rightarrow>
                   (case le_reply env (pr_Body r2) of
                      Inr resp2 \<Rightarrow> (Inr (resp2\<lparr>lr_Usage := add_usage (pr_Usage res)
                                      (stated_usage env reminder resp2 (pr_Usage r2))\<rparr>), s1)
                    | Inl parseErr2 \<Rightarrow> (Inl parseErr2, s1))
               | _ \<Rightarrow> (Inl parseErr, s1))))"

definition surfaced_error :: "Client \<Rightarrow> string \<Rightarrow> go_error option \<Rightarrow> bool \<Rightarrow> go_error" where
  "surfaced_error c model err credit =
     (let e = (case err of Some e \<Rightarrow> e | None \<Rightarrow> ErrText ''%!w(<nil>)'')
      in if credit \<and> cl_SkipOnCreditExhausted c
         then ErrWrap [] ErrCreditExhausted ('' (provider '' @ cl_Provider c @ '', model '' @ model @ ''): '' @ err_text e)
         else if isRateLimitOrQuota err then ErrWrap ''LLM rate limit / quota exceeded (HTTP 429): '' e []
         else ErrWrap ''LLM completion failed: '' e [])"

section \<open>A completion\<close>

text \<open>The outer loop; \<open>fallbacks\<close> is the number of model fallbacks that are still allowed.\<close>

primrec ladder :: "('w, 'v) llm_env \<Rightarrow> Client \<Rightarrow> string \<Rightarrow> string \<Rightarrow> nat \<Rightarrow> string \<Rightarrow> 'w llm_state
    \<Rightarrow> (go_error, LLMResponse) result \<times> 'w llm_state" where
  "ladder env c apiKey prompt 0 model s =
     (let (out, s1) = attempts env c model prompt (Suc (retries c)) apiKey (first_backoff c) False (None, None) s
      in (case out of
            Stopped e \<Rightarrow> (Inl e, s1)
          | Finished (Some res) None credit \<Rightarrow> finish_call env c apiKey model prompt res s1
          | Finished res err credit \<Rightarrow> (Inl (surfaced_error c model err credit), s1)))"
| "ladder env c apiKey prompt (Suc k) model s =
     (let (out, s1) = attempts env c model prompt (Suc (retries c)) apiKey (first_backoff c) False (None, None) s
      in (case out of
            Stopped e \<Rightarrow> (Inl e, s1)
          | Finished (Some res) None credit \<Rightarrow> finish_call env c apiKey model prompt res s1
          | Finished res err credit \<Rightarrow>
              (if \<not> (credit \<and> cl_SkipOnCreditExhausted c) \<and> \<not> shouldSkipModelFallback err then
                 let (nextModel, s2) = getNextLowerModel env c apiKey model s1
                 in if nextModel \<noteq> [] then ladder env c apiKey prompt k nextModel s2
                    else (Inl (surfaced_error c model err credit), s2)
               else (Inl (surfaced_error c model err credit), s1))))"

definition active_model :: "('w, 'v) llm_env \<Rightarrow> Client \<Rightarrow> string \<Rightarrow> 'w llm_state \<Rightarrow> string \<times> 'w llm_state" where
  "active_model env c apiKey s =
     (if ToLower (TrimSpace (cl_Model c)) \<in> {''latest'', ''auto'', []}
      then let (resolved, s1) = resolveLatestModel env c apiKey s
           in (if resolved \<noteq> [] then resolved else cl_Model c, s1)
      else (cl_Model c, s))"

definition Complete :: "('w, 'v) llm_env \<Rightarrow> Client \<Rightarrow> nat \<Rightarrow> string \<Rightarrow> 'w llm_state
    \<Rightarrow> (go_error, LLMResponse) result \<times> 'w llm_state" where
  "Complete env c tailLen prompt0 s =
     (let prompt = compactPrompt env c tailLen prompt0
      in (case checkPromptSize prompt (cl_MaxPromptTokens c) of
            Some e \<Rightarrow> (Inl e, s)
          | None \<Rightarrow>
              (let (key, s1) = getNextAPIKey c s; apiKey = api_key_or_env env key
               in if apiKey = [] then (Inl (ErrText ''missing API key for LLM provider''), s1)
                  else let (model, s2) = active_model env c apiKey s1
                       in ladder env c apiKey prompt 1 model s2)))"

declare ladder.simps [simp del] attempts.simps(2) [simp del]

section \<open>Facts on the choice of a model\<close>

definition sorts_models :: "('v::linorder ProviderModelInfo list \<Rightarrow> 'v ProviderModelInfo list) \<Rightarrow> bool" where
  "sorts_models srt \<longleftrightarrow>
     (\<forall>ms. mset (srt ms) = mset ms \<and> sorted_wrt (\<lambda>a b. \<not> model_before b a) (srt ms))"

lemma first_name_SomeD: "first_name P ms = Some n \<Longrightarrow> \<exists>m \<in> set ms. pm_Name m = n \<and> P m"
  by (auto simp: first_name_def dest: find_SomeD)

lemma below_current_Some:
  "below_current nc ms = Some lower \<Longrightarrow> \<exists>before m. ms = before @ m # lower \<and> normalizeModelName (pm_Name m) = nc
     \<and> (\<forall>x \<in> set before. normalizeModelName (pm_Name x) \<noteq> nc)"
proof (induction ms)
  case (Cons m ms)
  show ?case
  proof (cases "normalizeModelName (pm_Name m) = nc")
    case True
    with Cons.prems show ?thesis by (intro exI [of _ "[]"]) simp
  next
    case False
    with Cons obtain before x where "ms = before @ x # lower" "normalizeModelName (pm_Name x) = nc"
      "\<forall>x \<in> set before. normalizeModelName (pm_Name x) \<noteq> nc" by auto
    with False show ?thesis by (intro exI [of _ "m # before"]) simp
  qed
qed simp

lemma below_current_None: "below_current nc ms = None \<longleftrightarrow> (\<forall>m \<in> set ms. normalizeModelName (pm_Name m) \<noteq> nc)"
  by (induction ms) auto

lemma first_name_best:
  assumes "first_name P ms = Some n" "sorted_wrt (\<lambda>a b. \<not> model_before b a) ms"
  obtains m where "m \<in> set ms" "pm_Name m = n" "P m" "\<forall>x \<in> set ms. P x \<longrightarrow> \<not> model_before x m"
proof -
  from assms(1) obtain m where m: "find P ms = Some m" "pm_Name m = n" by (auto simp: first_name_def)
  from m(1) assms(2) have "\<forall>x \<in> set ms. P x \<longrightarrow> \<not> model_before x m"
  proof (induction ms)
    case (Cons a ms)
    then show ?case by (auto simp: model_before_def split: if_splits)
  qed simp
  with m find_SomeD [OF m(1)] that show ?thesis by blast
qed

lemma selected_not_blacklisted:
  assumes "selectFallbackModel srt bl cfg cur models = n" "n \<noteq> []"
  shows "\<not> IsModelBlacklisted bl n"
  using assms
  by (auto simp: selectFallbackModel_def Let_def split: if_splits option.splits dest!: first_name_SomeD)

text \<open>The fallback model is a member of the catalogue that is not blacklisted. If the current model is listed, the choice is
  the best permitted model after it in the ladder of ranks and versions, so repeated fallbacks only descend;
  otherwise it is the best permitted match by prefix or, if there is none, the best permitted model.
  This holds for every sorting function.\<close>

theorem fallback_model_sound:
  assumes srt: "sorts_models srt" and sel: "selectFallbackModel srt bl cfg cur models = n" and "n \<noteq> []"
  shows "\<exists>m \<in> set models. pm_Name m = n \<and> \<not> IsModelBlacklisted bl n
    \<and> (if \<exists>x \<in> set models. normalizeModelName (pm_Name x) = normalizeModelName cur
       then \<exists>x \<in> set models. normalizeModelName (pm_Name x) = normalizeModelName cur \<and> \<not> model_before m x
         \<and> (\<forall>y \<in> set models. model_before x y \<and> \<not> IsModelBlacklisted bl (pm_Name y) \<longrightarrow> \<not> model_before y m)
       else (\<forall>y \<in> set models. \<not> IsModelBlacklisted bl (pm_Name y)
               \<and> (isModelPrefixMatch n cfg \<longrightarrow> isModelPrefixMatch (pm_Name y) cfg) \<longrightarrow> \<not> model_before y m))"
proof -
  define ms where "ms = srt models"
  from srt have set: "set ms = set models" and sorted: "sorted_wrt (\<lambda>a b. \<not> model_before b a) ms"
    by (metis ms_def sorts_models_def mset_eq_setD) (use srt in \<open>simp add: ms_def sorts_models_def\<close>)
  define ok where "ok = (\<lambda>m :: 'a ProviderModelInfo. \<not> IsModelBlacklisted bl (pm_Name m))"
  show ?thesis
  proof (cases "below_current (normalizeModelName cur) ms")
    case (Some lower)
    from below_current_Some [OF Some] obtain before x where split: "ms = before @ x # lower"
      and x: "normalizeModelName (pm_Name x) = normalizeModelName cur" by blast
    from sel \<open>n \<noteq> []\<close> Some have f: "first_name ok lower = Some n"
      by (auto simp: selectFallbackModel_def Let_def ms_def [symmetric] ok_def [symmetric] split: if_splits option.splits)
    from sorted split have sl: "sorted_wrt (\<lambda>a b. \<not> model_before b a) lower"
      and below: "\<forall>y \<in> set lower. \<not> model_before y x"
      and above: "\<forall>y \<in> set before. \<not> model_before x y" by (auto simp: sorted_wrt_append)
    from first_name_best [OF f sl] obtain m where m: "m \<in> set lower" "pm_Name m = n" "ok m"
      "\<forall>y \<in> set lower. ok y \<longrightarrow> \<not> model_before y m" by blast
    have "\<not> model_before y m" if "y \<in> set models" "model_before x y" "ok y" for y
    proof -
      from that(2) have "y \<noteq> x" by (auto simp: model_before_def)
      with that above split set have "y \<in> set lower" by auto
      with m(4) that(3) show ?thesis by blast
    qed
    with m below x split show ?thesis unfolding set [symmetric] ok_def by fastforce
  next
    case None
    define other where "other = (\<lambda>m. ok m \<and> normalizeModelName (pm_Name m) \<noteq> normalizeModelName cur)"
    from None have notin: "\<forall>m \<in> set models. normalizeModelName (pm_Name m) \<noteq> normalizeModelName cur"
      by (simp add: below_current_None set)
    then have other: "other m \<longleftrightarrow> ok m" if "m \<in> set models" for m using that by (simp add: other_def)
    from sel \<open>n \<noteq> []\<close> None consider
        "first_name (\<lambda>m. other m \<and> isModelPrefixMatch (pm_Name m) cfg) ms = Some n"
      | "first_name other ms = Some n"
      by (auto simp: selectFallbackModel_def Let_def ms_def [symmetric] ok_def other_def split: if_splits option.splits)
    then show ?thesis
    proof cases
      case 1
      from first_name_best [OF this sorted] obtain m where m: "m \<in> set ms" "pm_Name m = n"
        "other m" "isModelPrefixMatch (pm_Name m) cfg"
        "\<forall>y \<in> set ms. other y \<and> isModelPrefixMatch (pm_Name y) cfg \<longrightarrow> \<not> model_before y m" by blast
      with notin other show ?thesis unfolding set by (intro bexI [of _ m]) (auto simp: ok_def)
    next
      case 2
      from first_name_best [OF this sorted] obtain m where m: "m \<in> set ms" "pm_Name m = n"
        "other m" "\<forall>y \<in> set ms. other y \<longrightarrow> \<not> model_before y m" by blast
      with notin other show ?thesis unfolding set by (intro bexI [of _ m]) (auto simp: ok_def)
    qed
  qed
qed

lemma sorts_models_stable: "sorts_models (sort_stable model_before)"
proof -
  have "sorted_wrt (\<lambda>a b. \<not> model_before b a) (sort_stable model_before ms)" for ms :: "'a ProviderModelInfo list"
    by (rule sort_stable_sorted_wrt) (auto simp: model_before_def split: if_splits)
  then show ?thesis by (simp add: sorts_models_def)
qed

definition sample_catalog :: "nat ProviderModelInfo list" where
  "sample_catalog = [\<lparr>pm_Name = ''m-2'', pm_Version = 2, pm_Tier = [], pm_Rank = 1\<rparr>,
     \<lparr>pm_Name = ''m-1'', pm_Version = 1, pm_Tier = [], pm_Rank = 1\<rparr>, \<lparr>pm_Name = ''m-3'', pm_Version = 3, pm_Tier = [], pm_Rank = 1\<rparr>]"

theorem fallback_model_sound_witness:
  "selectFallbackModel (sort_stable model_before) [] ''m-3'' ''M-3 '' sample_catalog = ''m-2''
   \<and> (\<exists>m \<in> set sample_catalog. pm_Name m = ''m-2'' \<and> \<not> IsModelBlacklisted [] ''m-2'')"
proof -
  have sel: "selectFallbackModel (sort_stable model_before) [] ''m-3'' ''M-3 '' sample_catalog = ''m-2''" by code_simp
  from fallback_model_sound [OF sorts_models_stable this] sel show ?thesis by auto
qed

section \<open>Facts on the sequence of calls\<close>

text \<open>What must hold of a failed call before the same model is called again.\<close>

definition may_retry :: "Client \<Rightarrow> provider_call \<Rightarrow> bool" where
  "may_retry c x \<longleftrightarrow> \<not> (call_err x = None \<and> call_result x \<noteq> None)
     \<and> \<not> isModelNotFoundOrDeprecated (call_err x)
     \<and> \<not> (isCreditExhausted (call_err x) \<and> cl_SkipOnCreditExhausted c)
     \<and> \<not> isNonRetryableHTTPError (call_err x)"

text \<open>The calls of one loop: at most \<open>n\<close>, all for one model and prompt, each but the last one retryable.\<close>

definition tries :: "Client \<Rightarrow> string \<Rightarrow> string \<Rightarrow> nat \<Rightarrow> provider_call list \<Rightarrow> bool" where
  "tries c model prompt n cs \<longleftrightarrow> length cs \<le> n
     \<and> (\<forall>x \<in> set cs. call_model x = model \<and> call_prompt x = prompt)
     \<and> (\<forall>x \<in> set (butlast cs). may_retry c x)"

lemma tries_Nil [simp]: "tries c model prompt n []"
  by (simp add: tries_def)

lemma tries_Cons:
  "tries c model prompt (Suc n) (x # cs) \<longleftrightarrow> call_model x = model \<and> call_prompt x = prompt
     \<and> (cs \<noteq> [] \<longrightarrow> may_retry c x) \<and> tries c model prompt n cs"
  by (auto simp: tries_def)

lemma no_error_class [simp]:
  "\<not> isModelNotFoundOrDeprecated None" "\<not> isCreditExhausted None" "\<not> isNonRetryableHTTPError None"
  "\<not> isRateLimitOrQuota None" "\<not> isTransientError None" "\<not> isEvictionError None" "\<not> shouldSkipModelFallback None"
  "\<not> isTimeoutOrCanceled None"
  by (simp_all add: isModelNotFoundOrDeprecated_def isCreditExhausted_def isNonRetryableHTTPError_def isTransientError_def
    isRateLimitOrQuota_def isEvictionError_def shouldSkipModelFallback_def isTimeoutOrNetworkError_def isTimeoutOrCanceled_def)

lemma call_provider_calls:
  "call_provider env s model key prompt = (r, s1) \<Longrightarrow>
     ls_calls s1 = ls_calls s @ [\<lparr>call_model = model, call_key = key, call_prompt = prompt,
                                  call_result = fst r, call_err = snd r\<rparr>]
     \<and> ls_blacklist s1 = ls_blacklist s \<and> ls_keyIndex s1 = ls_keyIndex s \<and> ls_catalog s1 = ls_catalog s"
  by (auto simp: call_provider_def split: prod.splits)

lemma getNextAPIKey_frame:
  "getNextAPIKey c s = (k, s1) \<Longrightarrow> ls_calls s1 = ls_calls s \<and> ls_blacklist s1 = ls_blacklist s
     \<and> (cl_APIKeys c \<noteq> [] \<longrightarrow> k \<in> set (cl_APIKeys c))"
  by (auto simp: getNextAPIKey_def nat_less_iff split: if_splits intro!: nth_mem)

text \<open>One turn of the loop either ends it after a call or leads to the next turn with a retryable call.\<close>

lemma attempts_Suc_cases:
  assumes "attempts env c model prompt (Suc left) key backoff credit prev s = (out, s')"
    and "\<not> (credit \<and> cl_SkipOnCreditExhausted c)"
  obtains (stop) res err where "ls_calls s' = ls_calls s @
      [\<lparr>call_model = model, call_key = key, call_prompt = prompt, call_result = res, call_err = err\<rparr>]"
    "(\<exists>cr. out = Finished res err cr) \<or> (\<exists>e. out = Stopped e)"
    "ls_blacklist s' = (if isModelNotFoundOrDeprecated err then BlacklistModel (ls_blacklist s) model else ls_blacklist s)"
  | (more) x b cr s2 key' where "call_model x = model" "call_key x = key" "call_prompt x = prompt" "may_retry c x"
    "ls_calls s2 = ls_calls s @ [x]" "ls_blacklist s2 = ls_blacklist s" "\<not> (cr \<and> cl_SkipOnCreditExhausted c)"
    "key' = key \<or> (isRateLimitOrQuota (call_err x) \<and> key' \<in> set (cl_APIKeys c))"
    "attempts env c model prompt left key' b cr (call_result x, call_err x) s2 = (out, s')"
proof -
  obtain res err s1 where call: "call_provider env s model key prompt = ((res, err), s1)" by (metis surj_pair)
  note frame = call_provider_calls [OF call]
  define x where "x = \<lparr>call_model = model, call_key = key, call_prompt = prompt, call_result = res, call_err = err\<rparr>"
  define cr where "cr = (credit \<or> isCreditExhausted err)"
  note step = assms(1) [unfolded attempts.simps call Let_def prod.case cr_def [symmetric]]
  have retry: "may_retry c x \<longleftrightarrow> \<not> (err = None \<and> res \<noteq> None) \<and> \<not> isModelNotFoundOrDeprecated err
      \<and> \<not> (isCreditExhausted err \<and> cl_SkipOnCreditExhausted c) \<and> \<not> isNonRetryableHTTPError err"
    by (simp add: may_retry_def x_def)
  show ?thesis
  proof (cases "may_retry c x")
    case False
    then show ?thesis
      using step frame by (intro stop [of res err]) (auto simp: retry split: if_splits)
  next
    case True
    then have cr: "\<not> (cr \<and> cl_SkipOnCreditExhausted c)" using assms(2) retry by (auto simp: cr_def)
    from True have nf: "\<not> isModelNotFoundOrDeprecated err" by (simp add: retry)
    have cont: "\<not> (err = None \<and> res \<noteq> None)" "\<not> (isCreditExhausted err \<and> cl_SkipOnCreditExhausted c)"
      "\<not> isNonRetryableHTTPError err" using True by (auto simp: retry)
    note step = step [unfolded if_not_P [OF cont(1)] if_not_P [OF nf] if_not_P [OF cont(2)] if_not_P [OF cont(3)]]
    obtain k s2 where k: "getNextAPIKey c s1 = (k, s2)" by (metis surj_pair)
    note kf = getNextAPIKey_frame [OF k]
    obtain e w where w: "le_wait env (ls_world s1) backoff = (e, w)" by (metis surj_pair)
    note step = step [unfolded k w prod.case]
    consider (rotate) "isRateLimitOrQuota err" "length (cl_APIKeys c) > 1"
        "attempts env c model prompt left k backoff cr (res, err) s2 = (out, s')"
      | (pause) "attempts env c model prompt left key (wrap64 (backoff * 2)) cr (res, err) (s1\<lparr>ls_world := w\<rparr>) = (out, s')"
      | (ended) "ls_calls s' = ls_calls s1" "ls_blacklist s' = ls_blacklist s1" "(\<exists>cr. out = Finished res err cr) \<or> (\<exists>e. out = Stopped e)"
      using step cr by (auto split: if_splits option.splits)
    then show ?thesis
    proof cases
      case rotate
      then have "cl_APIKeys c \<noteq> []" by auto
      with rotate kf frame True cr show ?thesis
        by (intro more [of x s2 cr k backoff]) (simp_all add: x_def)
    next
      case pause
      with frame True cr show ?thesis
        by (intro more [of x "s1\<lparr>ls_world := w\<rparr>" cr key "wrap64 (backoff * 2)"]) (simp_all add: x_def)
    next
      case ended
      with frame nf show ?thesis by (intro stop [of res err]) simp_all
    qed
  qed
qed

text \<open>The whole loop.\<close>

lemma attempts_calls:
  assumes "attempts env c model prompt (Suc n) key b credit prev s = (out, s')"
    and "\<not> (credit \<and> cl_SkipOnCreditExhausted c)"
  shows "\<exists>cs. ls_calls s' = ls_calls s @ cs \<and> tries c model prompt (Suc n) cs \<and> cs \<noteq> []
    \<and> ((\<exists>cr. out = Finished (call_result (last cs)) (call_err (last cs)) cr) \<or> (\<exists>e. out = Stopped e))
    \<and> set (ls_blacklist s) \<subseteq> set (ls_blacklist s')
    \<and> (isModelNotFoundOrDeprecated (call_err (last cs)) \<and> model \<noteq> [] \<longrightarrow> IsModelBlacklisted (ls_blacklist s') model)
    \<and> ((\<forall>x \<in> set cs. \<not> isRateLimitOrQuota (call_err x)) \<longrightarrow> (\<forall>x \<in> set cs. call_key x = key))"
  using assms
proof (induction n arbitrary: key b credit prev s)
  case 0
  from 0 show ?case
  proof (cases rule: attempts_Suc_cases)
    case (stop res err)
    then show ?thesis
      by (intro exI conjI) (auto simp: tries_def BlacklistModel_def IsModelBlacklisted_def)
  next
    case (more x b cr s2 key')
    then show ?thesis by (intro exI [of _ "[x]"]) (auto simp: tries_def may_retry_def)
  qed
next
  case (Suc n)
  from Suc.prems show ?case
  proof (cases rule: attempts_Suc_cases)
    case (stop res err)
    then show ?thesis
      by (intro exI conjI) (auto simp: tries_def BlacklistModel_def IsModelBlacklisted_def)
  next
    case (more x b' cr s2 key')
    from Suc.IH [OF more(9,7)] obtain cs where cs: "ls_calls s' = ls_calls s2 @ cs" "tries c model prompt (Suc n) cs" "cs \<noteq> []"
      "(\<exists>cr. out = Finished (call_result (last cs)) (call_err (last cs)) cr) \<or> (\<exists>e. out = Stopped e)"
      "set (ls_blacklist s2) \<subseteq> set (ls_blacklist s')"
      "isModelNotFoundOrDeprecated (call_err (last cs)) \<and> model \<noteq> [] \<longrightarrow> IsModelBlacklisted (ls_blacklist s') model"
      "(\<forall>x \<in> set cs. \<not> isRateLimitOrQuota (call_err x)) \<longrightarrow> (\<forall>x \<in> set cs. call_key x = key')" by blast
    with more show ?thesis
      by (intro exI [of _ "x # cs"]) (auto simp: tries_Cons)
  qed
qed

lemma fetchAndCacheCatalog_frame:
  "fetchAndCacheCatalog env c k s = (r, s1) \<Longrightarrow> ls_calls s1 = ls_calls s \<and> ls_blacklist s1 = ls_blacklist s"
  by (auto simp: fetchAndCacheCatalog_def Let_def split: prod.splits option.splits list.splits)

lemma availableModelsCached_frame:
  "availableModelsCached env c k s = (r, s1) \<Longrightarrow> ls_calls s1 = ls_calls s \<and> ls_blacklist s1 = ls_blacklist s"
  using fetchAndCacheCatalog_frame [of env c k s "fst (fetchAndCacheCatalog env c k s)" "snd (fetchAndCacheCatalog env c k s)"]
  by (auto simp: availableModelsCached_def dest: fetchAndCacheCatalog_frame split: option.splits list.splits if_splits prod.splits)

lemma getNextLowerModel_frame:
  assumes "getNextLowerModel env c k cur s = (n, s1)"
  shows "ls_calls s1 = ls_calls s \<and> ls_blacklist s1 = ls_blacklist s
    \<and> (n \<noteq> [] \<longrightarrow> \<not> IsModelBlacklisted (ls_blacklist s) n)"
proof -
  obtain av s2 where av: "availableModelsCached env c k s = (av, s2)" by (metis surj_pair)
  with availableModelsCached_frame [OF av] assms show ?thesis
    by (auto simp: getNextLowerModel_def split: option.splits if_splits dest!: selected_not_blacklisted [OF refl])
qed

lemma active_model_frame:
  assumes "active_model env c k s = (m, s1)"
  shows "ls_calls s1 = ls_calls s \<and> ls_blacklist s1 = ls_blacklist s"
proof -
  obtain av s2 where av: "availableModelsCached env c k s = (av, s2)" by (metis surj_pair)
  with availableModelsCached_frame [OF av] assms show ?thesis
    by (auto simp: active_model_def resolveLatestModel_def split: option.splits if_splits prod.splits)
qed

lemma finish_call_calls:
  assumes "finish_call env c k model prompt res s = (r, s')"
  shows "ls_blacklist s' = ls_blacklist s \<and> (\<exists>cs. ls_calls s' = ls_calls s @ cs \<and> length cs \<le> 1
    \<and> (\<forall>x \<in> set cs. call_model x = model \<and> call_key x = k \<and> call_prompt x = buildJSONReminderPrompt c prompt
         \<and> isl (le_reply env (pr_Body res))))"
proof (cases "le_reply env (pr_Body res)")
  case (Inl pe)
  obtain q s1 where call: "call_provider env s model k (buildJSONReminderPrompt c prompt) = (q, s1)" by (metis surj_pair)
  from call_provider_calls [OF this] assms Inl call show ?thesis
    by (cases q) (auto simp: finish_call_def Let_def split: option.splits sum.splits)
next
  case (Inr resp)
  with assms show ?thesis by (auto simp: finish_call_def)
qed

text \<open>What one round of the outer loop leads to.\<close>

lemma ladder_cases:
  assumes "ladder env c k prompt fallbacks model s = (r, s')"
  obtains (failed) out s1 where "attempts env c model prompt (Suc (retries c)) k (first_backoff c) False (None, None) s = (out, s1)"
      "ls_calls s' = ls_calls s1" "isl r"
  | (reply) res credit s1 where
      "attempts env c model prompt (Suc (retries c)) k (first_backoff c) False (None, None) s = (Finished (Some res) None credit, s1)"
      "finish_call env c k model prompt res s1 = (r, s')"
  | (fallback) res err credit s1 s2 nm f where
      "attempts env c model prompt (Suc (retries c)) k (first_backoff c) False (None, None) s = (Finished res err credit, s1)"
      "fallbacks = Suc f" "\<not> shouldSkipModelFallback err" "\<not> (res \<noteq> None \<and> err = None)"
      "getNextLowerModel env c k model s1 = (nm, s2)" "nm \<noteq> []" "ladder env c k prompt f nm s2 = (r, s')"
proof -
  obtain out s1 where at: "attempts env c model prompt (Suc (retries c)) k (first_backoff c) False (None, None) s = (out, s1)"
    by (metis surj_pair)
  obtain n s2 where nx: "getNextLowerModel env c k model s1 = (n, s2)" by (metis surj_pair)
  from getNextLowerModel_frame [OF nx] have frame: "ls_calls s2 = ls_calls s1" by blast
  show ?thesis
  proof (cases out)
    case (Stopped e)
    with assms at have "r = Inl e" "s' = s1" by (cases fallbacks; simp add: ladder.simps)+
    with failed [of out s1] at show ?thesis by simp
  next
    case (Finished res err credit)
    show ?thesis
    proof (cases "res \<noteq> None \<and> err = None")
      case True
      then obtain y where "res = Some y" "err = None" by auto
      with assms Finished at have "finish_call env c k model prompt y s1 = (r, s')"
        by (cases fallbacks) (simp_all add: ladder.simps)
      with \<open>res = Some y\<close> \<open>err = None\<close> Finished at show ?thesis by (intro reply [of y credit s1]) simp_all
    next
      case False
      consider "isl r" "ls_calls s' = ls_calls s1"
        | f where "fallbacks = Suc f" "n \<noteq> []" "\<not> shouldSkipModelFallback err" "ladder env c k prompt f n s2 = (r, s')"
      proof (cases fallbacks)
        case 0
        with assms at Finished False have "r = Inl (surfaced_error c model err credit)" "s' = s1"
          by (auto simp: ladder.simps split: option.splits)
        with that(1) show ?thesis by simp
      next
        case (Suc f)
        with assms at nx Finished False frame that show ?thesis
          by (auto simp: ladder.simps split: option.splits if_splits)
      qed
      then show ?thesis
      proof cases
        case 1
        with at failed [of out s1] show ?thesis by auto
      next
        case 2
        with at nx Finished False show ?thesis by (intro fallback [of res err credit s1 f n s2]) auto
      qed
    qed
  qed
qed

definition succeeded :: "provider_call \<Rightarrow> bool" where
  "succeeded x \<longleftrightarrow> call_err x = None \<and> call_result x \<noteq> None"

text \<open>The one repetition of a call \<open>x\<close> whose reply was no envelope: with the same model, and a reminder in the prompt.\<close>

definition reminds :: "('w, 'v) llm_env \<Rightarrow> Client \<Rightarrow> string \<Rightarrow> provider_call \<Rightarrow> provider_call \<Rightarrow> bool" where
  "reminds env c prompt x y \<longleftrightarrow> succeeded x \<and> (\<exists>res. call_result x = Some res \<and> isl (le_reply env (pr_Body res)))
     \<and> call_model y = call_model x \<and> call_prompt y = buildJSONReminderPrompt c prompt"

lemma attempts_Finished:
  assumes "attempts env c model prompt (Suc n) key b False prev s = (Finished res err cr, s')"
  obtains cs where "ls_calls s' = ls_calls s @ cs" "tries c model prompt (Suc n) cs" "cs \<noteq> []"
    "call_result (last cs) = res" "call_err (last cs) = err" "set (ls_blacklist s) \<subseteq> set (ls_blacklist s')"
    "isModelNotFoundOrDeprecated err \<and> model \<noteq> [] \<longrightarrow> IsModelBlacklisted (ls_blacklist s') model"
  using attempts_calls [OF assms] by auto

lemma reminded_call:
  assumes "finish_call env c k model prompt res s = (r, s')" "tries c model prompt n cs" "cs \<noteq> []"
    and "call_result (last cs) = Some res" "call_err (last cs) = None"
  shows "\<exists>cs3. ls_calls s' = ls_calls s @ cs3 \<and> (cs3 = [] \<or> (\<exists>y. cs3 = [y] \<and> reminds env c prompt (last cs) y))"
proof -
  from finish_call_calls [OF assms(1)] obtain cs3 where cs3: "ls_calls s' = ls_calls s @ cs3" "length cs3 \<le> 1"
    "\<forall>x \<in> set cs3. call_model x = model \<and> call_prompt x = buildJSONReminderPrompt c prompt \<and> isl (le_reply env (pr_Body res))" by blast
  have "call_model (last cs) = model" using assms(2,3) by (simp add: tries_def)
  with cs3(2,3) assms(4,5) have "cs3 = [] \<or> (\<exists>y. cs3 = [y] \<and> reminds env c prompt (last cs) y)"
    by (cases cs3) (auto simp: reminds_def succeeded_def)
  with cs3(1) show ?thesis by blast
qed

text \<open>The calls of a completion: tries with the first model, tries with the fallback model, a reminder.\<close>

lemma ladder_calls:
  assumes "ladder env c k prompt fallbacks model s = (r, s')" "fallbacks \<le> 1"
  shows "\<exists>cs1 cs2 cs3 m2. ls_calls s' = ls_calls s @ cs1 @ cs2 @ cs3 \<and> cs1 \<noteq> []
    \<and> tries c model prompt (retries c + 1) cs1 \<and> tries c m2 prompt (retries c + 1) cs2
    \<and> (cs3 = [] \<or> (\<exists>y. cs3 = [y] \<and> reminds env c prompt (last (cs1 @ cs2)) y))
    \<and> (cs2 \<noteq> [] \<longrightarrow> fallbacks = 1 \<and> \<not> succeeded (last cs1) \<and> \<not> shouldSkipModelFallback (call_err (last cs1))
         \<and> \<not> IsModelBlacklisted (ls_blacklist s) m2
         \<and> (isModelNotFoundOrDeprecated (call_err (last cs1)) \<longrightarrow> m2 \<noteq> model))"
  using assms
proof (induction fallbacks arbitrary: model s)
  case 0
  note at = attempts_calls [where credit = False, simplified]
  from 0(1) show ?case
  proof (cases rule: ladder_cases)
    case (failed out s1)
    with at [OF failed(1)] show ?thesis by (metis append_Nil2 Suc_eq_plus1 tries_Nil)
  next
    case (reply res credit s1)
    from attempts_Finished [OF reply(1)] obtain cs where cs: "ls_calls s1 = ls_calls s @ cs"
      "tries c model prompt (Suc (retries c)) cs" "cs \<noteq> []" "call_result (last cs) = Some res" "call_err (last cs) = None" by metis
    from reminded_call [OF reply(2) cs(2-5)] obtain cs3 where
      "ls_calls s' = ls_calls s1 @ cs3" "cs3 = [] \<or> (\<exists>y. cs3 = [y] \<and> reminds env c prompt (last cs) y)" by blast
    with cs show ?thesis by (intro exI [of _ cs] exI [of _ "[]"] exI [of _ cs3] exI [of _ model]) simp
  next
    case (fallback res err credit s1 s2 nm f)
    then show ?thesis by simp
  qed
next
  case (Suc n)
  note at = attempts_calls [where credit = False, simplified]
  from Suc.prems(1) show ?case
  proof (cases rule: ladder_cases)
    case (failed out s1)
    with at [OF failed(1)] show ?thesis by (metis append_Nil2 Suc_eq_plus1 tries_Nil)
  next
    case (reply res credit s1)
    from attempts_Finished [OF reply(1)] obtain cs where cs: "ls_calls s1 = ls_calls s @ cs"
      "tries c model prompt (Suc (retries c)) cs" "cs \<noteq> []" "call_result (last cs) = Some res" "call_err (last cs) = None" by metis
    from reminded_call [OF reply(2) cs(2-5)] obtain cs3 where
      "ls_calls s' = ls_calls s1 @ cs3" "cs3 = [] \<or> (\<exists>y. cs3 = [y] \<and> reminds env c prompt (last cs) y)" by blast
    with cs show ?thesis by (intro exI [of _ cs] exI [of _ "[]"] exI [of _ cs3] exI [of _ model]) simp
  next
    case (fallback res err credit s1 s2 nm f)
    from attempts_Finished [OF fallback(1)] obtain cs where cs: "ls_calls s1 = ls_calls s @ cs" "tries c model prompt (Suc (retries c)) cs" "cs \<noteq> []"
      "call_result (last cs) = res" "call_err (last cs) = err" "set (ls_blacklist s) \<subseteq> set (ls_blacklist s1)"
      "isModelNotFoundOrDeprecated err \<and> model \<noteq> [] \<longrightarrow> IsModelBlacklisted (ls_blacklist s1) model" by metis
    from getNextLowerModel_frame [OF fallback(5)] \<open>nm \<noteq> []\<close> have nm: "\<not> IsModelBlacklisted (ls_blacklist s1) nm" and s2: "ls_calls s2 = ls_calls s1"
      by simp_all
    from fallback Suc.prems(2) have n: "n = 0" "f = n" by simp_all
    from Suc.IH [OF fallback(7) [unfolded n(2)]] n obtain cs1 cs2 cs3 where
      ih: "ls_calls s' = ls_calls s2 @ cs1 @ cs2 @ cs3" "tries c nm prompt (retries c + 1) cs1" "cs2 = []"
        "cs3 = [] \<or> (\<exists>y. cs3 = [y] \<and> reminds env c prompt (last (cs1 @ cs2)) y)" "cs1 \<noteq> []" by (metis One_nat_def zero_neq_one zero_le)
    from cs nm have "isModelNotFoundOrDeprecated (call_err (last cs)) \<longrightarrow> nm \<noteq> model" using \<open>nm \<noteq> []\<close> by auto
    moreover from nm cs(6) have "\<not> IsModelBlacklisted (ls_blacklist s) nm" by (auto simp: IsModelBlacklisted_def)
    moreover have "ls_calls s' = ls_calls s @ cs @ cs1 @ [] @ cs3" using ih(1,3) s2 cs(1) by simp
    moreover have "\<not> succeeded (last cs)" using fallback(4) cs(4,5) by (auto simp: succeeded_def)
    moreover have "cs3 = [] \<or> (\<exists>y. cs3 = [y] \<and> reminds env c prompt (last (cs @ cs1)) y)" using ih(3,4,5) by simp
    moreover have "\<not> shouldSkipModelFallback (call_err (last cs))" using fallback(3) cs(5) by simp
    ultimately show ?thesis using cs(2,3) ih(2) n(1)
      by (intro exI [of _ cs] exI [of _ cs1] exI [of _ cs3] exI [of _ nm]) simp
  qed
qed

section \<open>The properties of a completion\<close>

text \<open>C30: A completion calls the provider with at most two models, each at most once more often than the
  retry limit, and at most once more: when the last reply was no envelope, with the model that gave it and a prompt that asks for an envelope. A model is called again only
  after a failure that may be transient: not after an unknown model, not after a deterministic
  rejection, and not after spent credit when that is to be skipped. The second model is not blacklisted,
  is another one when the first was unknown, and is tried only after a failure that a cheaper model may
  cure. An oversized prompt and a missing key lead to no call.\<close>

theorem completion_calls_bounded:
  assumes "Complete env c tailLen prompt s = (r, s')"
  shows "\<exists>cs1 cs2 cs3 m1 m2. ls_calls s' = ls_calls s @ cs1 @ cs2 @ cs3
    \<and> length (cs1 @ cs2 @ cs3) \<le> 2 * (retries c + 1) + 1
    \<and> tries c m1 (compactPrompt env c tailLen prompt) (retries c + 1) cs1
    \<and> tries c m2 (compactPrompt env c tailLen prompt) (retries c + 1) cs2
    \<and> (cs2 \<noteq> [] \<longrightarrow> \<not> succeeded (last cs1) \<and> \<not> shouldSkipModelFallback (call_err (last cs1))
         \<and> \<not> IsModelBlacklisted (ls_blacklist s) m2
         \<and> (isModelNotFoundOrDeprecated (call_err (last cs1)) \<longrightarrow> m2 \<noteq> m1))
    \<and> (cs3 = [] \<or> (\<exists>y. cs3 = [y] \<and> reminds env c (compactPrompt env c tailLen prompt) (last (cs1 @ cs2)) y))
    \<and> (checkPromptSize (compactPrompt env c tailLen prompt) (cl_MaxPromptTokens c) \<noteq> None \<longrightarrow> cs1 = [] \<and> cs2 = [] \<and> cs3 = [])"
proof -
  define p where "p = compactPrompt env c tailLen prompt"
  obtain key s1 where k: "getNextAPIKey c s = (key, s1)" by (metis surj_pair)
  obtain m s2 where m: "active_model env c (api_key_or_env env key) s1 = (m, s2)" by (metis surj_pair)
  have frame: "ls_calls s2 = ls_calls s" "ls_blacklist s2 = ls_blacklist s" "ls_calls s1 = ls_calls s"
    using getNextAPIKey_frame [OF k] active_model_frame [OF m] by simp_all
  from assms consider "ls_calls s' = ls_calls s"
    | "checkPromptSize p (cl_MaxPromptTokens c) = None" "ladder env c (api_key_or_env env key) p 1 m s2 = (r, s')"
    using frame by (auto simp: Complete_def Let_def k m p_def split: option.splits if_splits)
  then show ?thesis
  proof cases
    case 1
    then show ?thesis unfolding p_def [symmetric] by (intro exI [of _ "[]"]) simp
  next
    case 2
    from ladder_calls [OF 2(2) order_refl, unfolded frame] obtain cs1 cs2 cs3 m2 where l: "ls_calls s' = ls_calls s @ cs1 @ cs2 @ cs3"
      "tries c m p (retries c + 1) cs1" "tries c m2 p (retries c + 1) cs2"
      "cs3 = [] \<or> (\<exists>y. cs3 = [y] \<and> reminds env c p (last (cs1 @ cs2)) y)"
      "cs2 \<noteq> [] \<longrightarrow> \<not> succeeded (last cs1) \<and> \<not> shouldSkipModelFallback (call_err (last cs1))
         \<and> \<not> IsModelBlacklisted (ls_blacklist s) m2 \<and> (isModelNotFoundOrDeprecated (call_err (last cs1)) \<longrightarrow> m2 \<noteq> m)"
      by blast
    moreover from l(2-4) have "length (cs1 @ cs2 @ cs3) \<le> 2 * (retries c + 1) + 1" by (auto simp: tries_def)
    ultimately show ?thesis using 2(1) unfolding p_def [symmetric]
      by (intro exI [of _ cs1] exI [of _ cs2] exI [of _ cs3] exI [of _ m] exI [of _ m2]) simp
  qed
qed

text \<open>A client with two keys, a provider that knows two models and only serves the lower one, and a reply
  parser that takes every body for an envelope.\<close>

definition sample_client :: Client where
  "sample_client = \<lparr>cl_Provider = ''openai'', cl_Model = ''big'', cl_APIKey = [], cl_APIKeys = [''k1'', ''k2''],
     cl_MaxRetries = 2, cl_Backoff = 0, cl_CavemanCompaction = False, cl_Compaction = [], cl_SkipOnCreditExhausted = False,
     cl_MaxPromptTokens = 0, cl_JSONReminderTaskCap = 0, cl_catalogTTL = 0\<rparr>"

definition sample_reply :: "ProviderCallResult option \<times> go_error option" where
  "sample_reply = (Some \<lparr>pr_Body = ''ok'', pr_Usage = zero_usage\<rparr>, None)"

definition sample_llm_env :: "(string \<Rightarrow> string \<Rightarrow> ProviderCallResult option \<times> go_error option) \<Rightarrow> (nat, nat) llm_env" where
  "sample_llm_env answer = \<lparr>le_call = (\<lambda>w m k p. (answer m k, w + 1)), le_models = (\<lambda>w k. (Some [''big'', ''small''], w + 1)),
     le_now = int, le_wait = (\<lambda>w b. (None, w + 1)), le_getenv = (\<lambda>v. []), le_env_keys = [],
     le_reply = (\<lambda>b. Inr \<lparr>lr_Reasoning = b, lr_Actions = [], lr_Usage = zero_usage\<rparr>),
     le_parse_model = (\<lambda>n. Some \<lparr>pm_Name = n, pm_Version = 1, pm_Tier = [], pm_Rank = int (6 - length n)\<rparr>),
     le_sort = sort_stable model_before, le_json = (\<lambda>a. None), le_simple_english = id, le_caveman = id\<rparr>"

definition new_llm_state :: "nat llm_state" where
  "new_llm_state = \<lparr>ls_world = 0, ls_blacklist = [], ls_keyIndex = 0, ls_catalog = None, ls_calls = []\<rparr>"

text \<open>A provider without the model \<open>big\<close>.\<close>

definition only_small :: "string \<Rightarrow> string \<Rightarrow> ProviderCallResult option \<times> go_error option" where
  "only_small m k = (if m = ''small'' then sample_reply
     else (None, Some (ErrHTTP \<lparr>he_StatusCode = 404, he_Body = ''no such model''\<rparr>)))"


theorem completion_calls_bounded_witness:
  "map (\<lambda>x. (call_model x, call_key x)) (ls_calls (snd (Complete (sample_llm_env only_small) sample_client 0 ''hello'' new_llm_state)))
     = [(''big'', ''k1''), (''small'', ''k1'')]
   \<and> (\<exists>cs1 cs2 cs3. ls_calls (snd (Complete (sample_llm_env only_small) sample_client 0 ''hello'' new_llm_state)) = cs1 @ cs2 @ cs3
        \<and> length (cs1 @ cs2 @ cs3) \<le> 7)"
proof
  show "map (\<lambda>x. (call_model x, call_key x)) (ls_calls (snd (Complete (sample_llm_env only_small) sample_client 0 ''hello'' new_llm_state)))
     = [(''big'', ''k1''), (''small'', ''k1'')]"
    by code_simp
next
  from completion_calls_bounded [OF surjective_pairing, of "sample_llm_env only_small" sample_client 0 "''hello''" new_llm_state]
  obtain cs1 cs2 cs3 where
    "ls_calls (snd (Complete (sample_llm_env only_small) sample_client 0 ''hello'' new_llm_state)) = ls_calls new_llm_state @ cs1 @ cs2 @ cs3"
    "length (cs1 @ cs2 @ cs3) \<le> 2 * (retries sample_client + 1) + 1" by blast
  then show "\<exists>cs1 cs2 cs3. ls_calls (snd (Complete (sample_llm_env only_small) sample_client 0 ''hello'' new_llm_state)) = cs1 @ cs2 @ cs3
      \<and> length (cs1 @ cs2 @ cs3) \<le> 7"
    by (intro exI [of _ cs1] exI [of _ cs2] exI [of _ cs3]) (simp add: new_llm_state_def retries_def sample_client_def)
qed

lemma ladder_keys:
  assumes "ladder env c k prompt fallbacks model s = (r, s')"
  shows "\<exists>cs. ls_calls s' = ls_calls s @ cs
    \<and> ((\<forall>x \<in> set cs. \<not> isRateLimitOrQuota (call_err x)) \<longrightarrow> (\<forall>x \<in> set cs. call_key x = k))"
  using assms
proof (induction fallbacks arbitrary: model s rule: nat.induct)
  case zero
  from zero show ?case
  proof (cases rule: ladder_cases)
    case (failed out s1)
    with attempts_calls [OF failed(1)] show ?thesis by auto
  next
    case (reply res credit s1)
    from attempts_calls [OF reply(1)] finish_call_calls [OF reply(2)] show ?thesis
      by (metis append.assoc Un_iff set_append)
  qed simp
next
  case (Suc f)
  from Suc.prems show ?case
  proof (cases rule: ladder_cases)
    case (failed out s1)
    with attempts_calls [OF failed(1)] show ?thesis by auto
  next
    case (reply res credit s1)
    from attempts_calls [OF reply(1)] finish_call_calls [OF reply(2)] show ?thesis
      by (metis append.assoc Un_iff set_append)
  next
    case (fallback res err credit s1 s2 nm f')
    from attempts_calls [OF fallback(1)] obtain cs where cs: "ls_calls s1 = ls_calls s @ cs"
      "(\<forall>x \<in> set cs. \<not> isRateLimitOrQuota (call_err x)) \<longrightarrow> (\<forall>x \<in> set cs. call_key x = k)" by auto
    from fallback Suc.IH [of nm s2] obtain cs2 where "ls_calls s' = ls_calls s2 @ cs2"
      "(\<forall>x \<in> set cs2. \<not> isRateLimitOrQuota (call_err x)) \<longrightarrow> (\<forall>x \<in> set cs2. call_key x = k)" by auto
    with cs getNextLowerModel_frame [OF fallback(5)] show ?thesis
      by (intro exI [of _ "cs @ cs2"]) auto
  qed
qed

text \<open>Only a rate limit moves to the next key of the pool. While no failure is a rate limit, every call of a
  completion uses the key it started with, also after that key's credit is spent and spent
  credit is not to be skipped, although a comment there promises to rotate to the next key.\<close>

theorem spent_key_not_rotated:
  assumes "Complete env c tailLen prompt s = (r, s')"
    and "\<forall>x \<in> set (drop (length (ls_calls s)) (ls_calls s')). \<not> isRateLimitOrQuota (call_err x)"
  shows "\<forall>x \<in> set (drop (length (ls_calls s)) (ls_calls s')). call_key x = api_key_or_env env (fst (getNextAPIKey c s))"
proof -
  obtain key s1 where k: "getNextAPIKey c s = (key, s1)" by (metis surj_pair)
  obtain m s2 where m: "active_model env c (api_key_or_env env key) s1 = (m, s2)" by (metis surj_pair)
  have frame: "ls_calls s2 = ls_calls s" "ls_calls s1 = ls_calls s"
    using getNextAPIKey_frame [OF k] active_model_frame [OF m] by simp_all
  from assms(1) consider "ls_calls s' = ls_calls s"
    | "ladder env c (api_key_or_env env key) (compactPrompt env c tailLen prompt) 1 m s2 = (r, s')"
    using frame by (auto simp: Complete_def Let_def k m split: option.splits if_splits)
  then show ?thesis
  proof cases
    case 2
    from ladder_keys [OF 2] assms(2) show ?thesis by (auto simp: frame k)
  qed simp
qed

text \<open>A provider whose credit is spent for the first key only: the second key, which would be
  served, is never tried.\<close>

definition first_key_spent :: "string \<Rightarrow> string \<Rightarrow> ProviderCallResult option \<times> go_error option" where
  "first_key_spent m k = (if k = ''k1'' then (None, Some (ErrHTTP \<lparr>he_StatusCode = 402, he_Body = []\<rparr>)) else sample_reply)"

theorem spent_key_not_rotated_witness:
  "map call_key (ls_calls (snd (Complete (sample_llm_env first_key_spent) sample_client 0 ''hello'' new_llm_state))) = replicate 6 ''k1''
   \<and> list_all (\<lambda>x. call_key x = ''k1'') (ls_calls (snd (Complete (sample_llm_env first_key_spent) sample_client 0 ''hello'' new_llm_state)))"
proof
  show "map call_key (ls_calls (snd (Complete (sample_llm_env first_key_spent) sample_client 0 ''hello'' new_llm_state))) = replicate 6 ''k1''"
    by code_simp
next
  have "list_all (\<lambda>x. \<not> isRateLimitOrQuota (call_err x))
      (ls_calls (snd (Complete (sample_llm_env first_key_spent) sample_client 0 ''hello'' new_llm_state)))"
    by code_simp
  with spent_key_not_rotated [OF surjective_pairing, of new_llm_state "sample_llm_env first_key_spent" sample_client 0 "''hello''"]
  show "list_all (\<lambda>x. call_key x = ''k1'') (ls_calls (snd (Complete (sample_llm_env first_key_spent) sample_client 0 ''hello'' new_llm_state)))"
    by (simp add: new_llm_state_def list_all_iff getNextAPIKey_def api_key_or_env_def sample_client_def)
qed

text \<open>After the first key was limited and the second one answered, the reminder for a reply that is no
  envelope goes out with the first key again.\<close>

lemma reminder_key_example:
  "map (\<lambda>x. (call_key x, call_err x = None)) (ls_calls (snd (Complete
     ((sample_llm_env (\<lambda>m k. if k = ''k1'' then (None, Some (ErrHTTP \<lparr>he_StatusCode = 429, he_Body = []\<rparr>)) else sample_reply))
        \<lparr>le_reply := \<lambda>b. Inl (ErrText b)\<rparr>) sample_client 0 ''hello'' new_llm_state)))
   = [(''k1'', False), (''k2'', True), (''k1'', False)]"
  by code_simp

end
