(* ===== verification/Llm_Candidates.thy ===== *)
theory Llm_Candidates
  imports Llm_Errors
begin

text \<open>
  The order in which a router tries its candidates, from \<open>src/pkg/infrastructure/llm\<close>: context windows
  (\<open>context_window.go\<close>, \<open>router_adaptive.go\<close>), an explicit model (\<open>router_model_priority.go\<close>) and demotion after
  time-outs and slow answers (\<open>router_latency_tracker.go\<close>). A candidate's client is reached through the
  environment of the router. Times and durations are nanoseconds; 0 is Go's zero time.
\<close>

section \<open>Candidates and context windows\<close>

record RouterCandidate =
  cand_Name :: string
  cand_Provider :: string
  cand_Model :: string
  cand_ContextWindow :: int

definition ContextWindowGemini :: int where "ContextWindowGemini = 1048576"
definition ContextWindowClaude :: int where "ContextWindowClaude = 200000"
definition ContextWindowOpenAI :: int where "ContextWindowOpenAI = 128000"
definition ContextWindowDeepSeek :: int where "ContextWindowDeepSeek = 128000"
definition ContextWindowQwen :: int where "ContextWindowQwen = 128000"
definition ContextWindowQwenSmall :: int where "ContextWindowQwenSmall = 32768"
definition ContextWindowStandard :: int where "ContextWindowStandard = 128000"

definition GetModelContextWindow :: "string \<Rightarrow> string \<Rightarrow> int" where
  "GetModelContextWindow provider model =
     (let p = ToLower (TrimSpace provider); m = ToLower (TrimSpace model)
      in if Contains p ''gemini'' \<or> Contains m ''gemini'' then ContextWindowGemini
         else if Contains p ''claude'' \<or> Contains p ''anthropic'' \<or> Contains m ''claude'' then ContextWindowClaude
         else if Contains p ''openai'' \<or> contains_any m [''gpt'', ''o1'', ''o3'', ''luna''] then
           (if Contains m ''3.5'' \<or> Contains m ''gpt-4-0613'' then 16384 else ContextWindowOpenAI)
         else if Contains p ''deepseek'' \<or> Contains m ''deepseek'' then ContextWindowDeepSeek
         else if Contains p ''qwen'' \<or> Contains m ''qwen'' then
           (if Contains m ''coder'' \<or> Contains m ''2.5'' then ContextWindowQwen else ContextWindowQwenSmall)
         else if Contains p ''mistral'' \<or> Contains m ''mistral'' \<or> Contains m ''codestral'' then
           (if Contains m ''large'' then 128000 else 32768)
         else if contains_any p [''groq'', ''together'', ''fireworks'', ''cerebras'', ''openrouter'', ''opencode''] then
           (if Contains m ''claude'' then ContextWindowClaude
            else if Contains m ''gemini'' then ContextWindowGemini
            else if contains_any m [''llama-3.1'', ''llama-3.3'', ''glm-5'', ''qwen''] then 128000
            else ContextWindowStandard)
         else ContextWindowStandard)"

definition effective_window :: "RouterCandidate \<Rightarrow> RouterCandidate" where
  "effective_window c =
     (if cand_ContextWindow c \<le> 0
      then c\<lparr>cand_ContextWindow := GetModelContextWindow (cand_Provider c) (cand_Model c)\<rparr> else c)"

definition fits :: "int \<Rightarrow> RouterCandidate \<Rightarrow> bool" where
  "fits promptTokens c \<longleftrightarrow> \<not> (cand_ContextWindow c > 0 \<and> promptTokens + 512 > cand_ContextWindow c)"

definition window_score :: "RouterCandidate \<Rightarrow> int" where
  "window_score c =
     (if cand_ContextWindow c \<ge> ContextWindowGemini then 300
      else if cand_ContextWindow c \<ge> ContextWindowClaude then 200
      else if cand_ContextWindow c \<ge> ContextWindowOpenAI then 100 else 10)"

text \<open>The score sort with the index as second key.\<close>

definition scored_less :: "RouterCandidate \<times> int \<times> nat \<Rightarrow> RouterCandidate \<times> int \<times> nat \<Rightarrow> bool" where
  "scored_less a b \<longleftrightarrow>
     (if fst (snd a) \<noteq> fst (snd b) then fst (snd a) > fst (snd b) else snd (snd a) < snd (snd b))"

definition reorder_by_window :: "RouterCandidate list \<Rightarrow> RouterCandidate list" where
  "reorder_by_window cs =
     map fst (sort_stable scored_less (map (\<lambda>(i, c). (c, window_score c, i)) (enumerate 0 cs)))"

definition FilterAndPrioritizeCandidatesByContext :: "RouterCandidate list \<Rightarrow> int \<Rightarrow> bool \<Rightarrow> RouterCandidate list" where
  "FilterAndPrioritizeCandidatesByContext candidates promptTokens adaptive =
     (if length candidates \<le> 1 \<or> promptTokens \<le> 0 then candidates
      else let cs = map effective_window candidates; fitting = filter (fits promptTokens) cs
           in if fitting = [] then cs
              else if \<not> adaptive then fitting
              else if promptTokens > 40000 then reorder_by_window fitting
              else fitting)"

section \<open>An explicit model\<close>

definition model_matches :: "string \<Rightarrow> RouterCandidate \<Rightarrow> bool" where
  "model_matches target c =
     (let m = ToLower (TrimSpace (cand_Model c)) in m = target \<or> Contains m target \<or> Contains target m)"

definition PrioritizeCandidatesByModel :: "RouterCandidate list \<Rightarrow> string \<Rightarrow> RouterCandidate list" where
  "PrioritizeCandidatesByModel candidates targetModel =
     (let target = ToLower (TrimSpace targetModel)
      in if target = [] \<or> length candidates \<le> 1 then candidates
         else let matched = filter (model_matches target) candidates;
                  others = filter (\<lambda>c. \<not> model_matches target c) candidates
              in if matched = [] then candidates else matched @ others)"

section \<open>Latency and time-outs\<close>

record CandidateLatencyStats =
  cls_ConsecutiveTimeouts :: int
  cls_TotalTimeouts :: int
  cls_TotalSuccesses :: int
  cls_LastDuration :: int
  cls_PenaltyScore :: int
  cls_LastUpdated :: int

type_synonym LatencyTracker = "string \<rightharpoonup> CandidateLatencyStats"

definition NewLatencyTracker :: LatencyTracker where
  "NewLatencyTracker = Map.empty"

definition no_stats :: CandidateLatencyStats where
  "no_stats = \<lparr>cls_ConsecutiveTimeouts = 0, cls_TotalTimeouts = 0, cls_TotalSuccesses = 0, cls_LastDuration = 0,
     cls_PenaltyScore = 0, cls_LastUpdated = 0\<rparr>"

definition seconds :: "int \<Rightarrow> int" where
  "seconds n = n * 10 ^ 9"

text \<open>Counters wrap at 64 bits. \<open>timed_out\<close> is the test that decides the branch.\<close>

definition timed_out :: "int \<Rightarrow> go_error option \<Rightarrow> int \<Rightarrow> bool" where
  "timed_out dur err threshold \<longleftrightarrow> isTimeoutOrCanceled err \<or> (threshold > 0 \<and> dur \<ge> threshold)"

definition update_stats :: "int \<Rightarrow> int \<Rightarrow> go_error option \<Rightarrow> int \<Rightarrow> CandidateLatencyStats \<Rightarrow> CandidateLatencyStats" where
  "update_stats now dur err threshold s0 =
     (let s = s0\<lparr>cls_LastDuration := dur, cls_LastUpdated := now\<rparr>
      in if timed_out dur err threshold
         then s\<lparr>cls_ConsecutiveTimeouts := wrap64 (cls_ConsecutiveTimeouts s + 1),
                cls_TotalTimeouts := wrap64 (cls_TotalTimeouts s + 1),
                cls_PenaltyScore := (if cls_PenaltyScore s + 1 > 3 then 3 else cls_PenaltyScore s + 1)\<rparr>
         else if err = None
         then s\<lparr>cls_TotalSuccesses := wrap64 (cls_TotalSuccesses s + 1), cls_ConsecutiveTimeouts := 0,
                cls_PenaltyScore :=
                  (if dur > seconds 60 then (if cls_PenaltyScore s < 1 then 1 else cls_PenaltyScore s)
                   else if dur < seconds 25 then (if cls_PenaltyScore s > 0 then cls_PenaltyScore s - 1 else cls_PenaltyScore s)
                   else cls_PenaltyScore s)\<rparr>
         else s)"

definition RecordOutcome :: "LatencyTracker \<Rightarrow> int \<Rightarrow> string \<Rightarrow> int \<Rightarrow> go_error option \<Rightarrow> int \<Rightarrow> LatencyTracker" where
  "RecordOutcome lt now name dur err threshold =
     (if name = [] then lt
      else lt(name \<mapsto> update_stats now dur err threshold (case lt name of Some s \<Rightarrow> s | None \<Rightarrow> no_stats)))"

definition GetPenaltyScore :: "LatencyTracker \<Rightarrow> string \<Rightarrow> int" where
  "GetPenaltyScore lt name = (case lt name of Some s \<Rightarrow> cls_PenaltyScore s | None \<Rightarrow> 0)"

definition GetConsecutiveTimeouts :: "LatencyTracker \<Rightarrow> string \<Rightarrow> int" where
  "GetConsecutiveTimeouts lt name = (case lt name of Some s \<Rightarrow> cls_ConsecutiveTimeouts s | None \<Rightarrow> 0)"

text \<open>Move the element at \<open>i\<close> to \<open>target\<close>, shifting the ones between to the left.\<close>

definition shift_to :: "nat \<Rightarrow> nat \<Rightarrow> 'a list \<Rightarrow> 'a list" where
  "shift_to i target xs = take i xs @ take (target - i) (drop (Suc i) xs) @ [xs ! i] @ drop (Suc target) xs"

definition demote_at :: "LatencyTracker \<Rightarrow> nat \<Rightarrow> RouterCandidate list \<Rightarrow> RouterCandidate list" where
  "demote_at lt i result =
     (let p = GetPenaltyScore lt (cand_Name (result ! i))
      in if p \<le> 0 then result
         else let target = (if i + nat p \<ge> length result then length result - 1 else i + nat p)
              in if target > i then shift_to i target result else result)"

fun demote_loop :: "LatencyTracker \<Rightarrow> nat list \<Rightarrow> string list \<Rightarrow> RouterCandidate list \<Rightarrow> RouterCandidate list" where
  "demote_loop lt [] processed result = result"
| "demote_loop lt (i # is) processed result =
     (let name = cand_Name (result ! i)
      in if name \<in> set processed then demote_loop lt is processed result
         else demote_loop lt is (name # processed) (demote_at lt i result))"

definition ApplyDynamicDemotion :: "LatencyTracker \<Rightarrow> RouterCandidate list \<Rightarrow> RouterCandidate list" where
  "ApplyDynamicDemotion lt candidates =
     (if length candidates \<le> 1 then candidates else demote_loop lt [0..<length candidates] [] candidates)"

section \<open>Facts on the order\<close>

lemma mset_reorder_by_window: "mset (reorder_by_window cs) = mset cs"
proof -
  have "map (fst \<circ> (\<lambda>(i, c). (c, window_score c, i))) (enumerate n cs) = cs" for n
    by (induction cs arbitrary: n) auto
  then have "mset (map fst (map (\<lambda>(i, c). (c, window_score c, i)) (enumerate 0 cs))) = mset cs"
    by (simp only: map_map)
  then show ?thesis by (simp only: reorder_by_window_def mset_map mset_sort_stable)
qed

lemma shift_to_append: "shift_to (length as) (length as + length bs) (as @ x # bs @ cs) = as @ bs @ x # cs"
  by (simp add: shift_to_def)

lemma shift_decomposition:
  assumes "i < target" "target < length xs"
  obtains as x bs cs where "xs = as @ x # bs @ cs" "i = length as" "target = length as + length bs"
proof
  show "xs = take i xs @ xs ! i # take (target - i) (drop (Suc i) xs) @ drop (target - i) (drop (Suc i) xs)"
    unfolding append_take_drop_id using assms by (intro id_take_nth_drop) simp
qed (use assms in simp_all)

lemma mset_shift_to:
  assumes "i < target" "target < length xs"
  shows "mset (shift_to i target xs) = mset xs"
  using assms by (rule shift_decomposition) (simp add: shift_to_append)

lemma mset_demote_at: "i < length xs \<Longrightarrow> mset (demote_at lt i xs) = mset xs"
  by (auto simp: demote_at_def Let_def intro!: mset_shift_to)

lemma mset_demote_loop:
  "(\<forall>i \<in> set is. i < length xs) \<Longrightarrow> mset (demote_loop lt is processed xs) = mset xs"
proof (induction lt "is" processed xs rule: demote_loop.induct)
  case (2 lt i "is" processed result)
  have m: "mset (demote_at lt i result) = mset result" using 2(3) by (simp add: mset_demote_at)
  then have "length (demote_at lt i result) = length result" by (rule mset_eq_length)
  with 2 m show ?case by (simp add: Let_def)
qed simp

lemma mset_ApplyDynamicDemotion: "mset (ApplyDynamicDemotion lt cs) = mset cs"
  by (simp add: ApplyDynamicDemotion_def mset_demote_loop)

lemma mset_PrioritizeCandidatesByModel: "mset (PrioritizeCandidatesByModel cs m) = mset cs"
  by (simp add: PrioritizeCandidatesByModel_def Let_def)

text \<open>The score sort with indices is the stable sort by score.\<close>

abbreviation by_score :: "RouterCandidate \<Rightarrow> RouterCandidate \<Rightarrow> bool" where
  "by_score a b \<equiv> window_score b < window_score a"

lemma set_insert_stable: "set (insert_stable lt x ys) = insert x (set ys)"
  by (induction ys) auto

lemma insert_scored:
  "\<forall>y \<in> set ys. n < snd (snd y) \<and> fst (snd y) = window_score (fst y) \<Longrightarrow>
     map fst (insert_stable scored_less (c, window_score c, n) ys) = insert_stable by_score c (map fst ys)"
  by (induction ys) (auto simp: scored_less_def)

lemma reorder_stable: "reorder_by_window cs = sort_stable by_score cs"
proof -
  let ?tag = "\<lambda>(i, c). (c, window_score c, i)"
  have "(\<forall>y \<in> set (sort_stable scored_less (map ?tag (enumerate n cs))). n \<le> snd (snd y) \<and> fst (snd y) = window_score (fst y))
    \<and> map fst (sort_stable scored_less (map ?tag (enumerate n cs))) = sort_stable by_score cs" for n
  proof (induction cs arbitrary: n)
    case (Cons c cs)
    let ?ys = "sort_stable scored_less (map ?tag (enumerate (Suc n) cs))"
    from Cons [of "Suc n"] have ys: "\<forall>y \<in> set ?ys. n < snd (snd y) \<and> fst (snd y) = window_score (fst y)"
      "map fst ?ys = sort_stable by_score cs" by (auto simp: Suc_le_eq)
    from insert_scored [OF ys(1), of c] ys(2)
    have "map fst (insert_stable scored_less (c, window_score c, n) ?ys) = insert_stable by_score c (sort_stable by_score cs)" by simp
    moreover have "\<forall>y \<in> set (insert_stable scored_less (c, window_score c, n) ?ys). n \<le> snd (snd y) \<and> fst (snd y) = window_score (fst y)"
      using ys(1) by (auto simp: set_insert_stable)
    ultimately show ?case by simp
  qed simp
  from this [of 0] show ?thesis by (simp add: reorder_by_window_def)
qed

lemma filter_insert_stable:
  "(\<And>a. P a \<Longrightarrow> P x \<Longrightarrow> \<not> lt a x) \<Longrightarrow> filter P (insert_stable lt x ys) = (if P x then x # filter P ys else filter P ys)"
  by (induction ys) auto

lemma filter_sort_stable:
  "(\<And>a b. P a \<Longrightarrow> P b \<Longrightarrow> \<not> lt a b) \<Longrightarrow> filter P (sort_stable lt xs) = filter P xs"
  by (induction xs) (auto simp: filter_insert_stable)

lemma fitting_not_all:
  "FilterAndPrioritizeCandidatesByContext cs p adaptive =
     (if length cs \<le> 1 \<or> p \<le> 0 then cs
      else let es = map effective_window cs; fit = filter (fits p) es
           in if fit = [] then es else if adaptive \<and> p > 40000 then sort_stable by_score fit else fit)"
  by (simp add: FilterAndPrioritizeCandidatesByContext_def reorder_stable Let_def)

text \<open>The context filter never leaves the router without a candidate. Of two or more candidates it keeps exactly
  those whose window holds the prompt and a margin, or all if there is none; it keeps their
  order, except that for a large prompt in adaptive mode the wider window classes come first, each class
  in its old order.\<close>

theorem context_filter_sound:
  fixes cs p adaptive
  defines "r \<equiv> FilterAndPrioritizeCandidatesByContext cs p adaptive"
    and "fit \<equiv> filter (fits p) (map effective_window cs)"
  shows "(r = [] \<longleftrightarrow> cs = [])
    \<and> (1 < length cs \<and> 0 < p \<longrightarrow>
         mset r = mset (if fit = [] then map effective_window cs else fit)
       \<and> (\<not> (adaptive \<and> 40000 < p) \<longrightarrow> r = (if fit = [] then map effective_window cs else fit))
       \<and> (adaptive \<and> 40000 < p \<and> fit \<noteq> [] \<longrightarrow> sorted_wrt (\<lambda>a b. window_score b \<le> window_score a) r
            \<and> (\<forall>v. filter (\<lambda>c. window_score c = v) r = filter (\<lambda>c. window_score c = v) fit)))"
proof -
  have "mset (sort_stable by_score fit) = mset fit" by simp
  then have ne: "sort_stable by_score fit = [] \<longleftrightarrow> fit = []" by (metis mset_zero_iff)
  have "sorted_wrt (\<lambda>a b. \<not> by_score b a) (sort_stable by_score fit)"
    by (rule sort_stable_sorted_wrt) auto
  moreover have "filter (\<lambda>c. window_score c = v) (sort_stable by_score fit) = filter (\<lambda>c. window_score c = v) fit" for v
    by (rule filter_sort_stable) simp
  moreover have r: "r = (if length cs \<le> 1 \<or> p \<le> 0 then cs else if fit = [] then map effective_window cs
      else if adaptive \<and> p > 40000 then sort_stable by_score fit else fit)"
    unfolding r_def fit_def fitting_not_all Let_def ..
  ultimately show ?thesis using ne by (auto simp: not_less)
qed

text \<open>A prompt of 50000 tokens: the narrow candidate is dropped, the wide one comes first.\<close>

definition sample_candidates :: "RouterCandidate list" where
  "sample_candidates = [\<lparr>cand_Name = ''a'', cand_Provider = ''qwen'', cand_Model = ''q'', cand_ContextWindow = 0\<rparr>,
     \<lparr>cand_Name = ''b'', cand_Provider = ''x'', cand_Model = ''x'', cand_ContextWindow = 150000\<rparr>,
     \<lparr>cand_Name = ''c'', cand_Provider = ''x'', cand_Model = ''x'', cand_ContextWindow = 2000000\<rparr>]"

theorem context_filter_sound_witness:
  "map cand_Name (FilterAndPrioritizeCandidatesByContext sample_candidates 50000 True) = [''c'', ''b'']
   \<and> FilterAndPrioritizeCandidatesByContext sample_candidates 50000 False \<noteq> []"
proof
  show "map cand_Name (FilterAndPrioritizeCandidatesByContext sample_candidates 50000 True) = [''c'', ''b'']"
    by code_simp
  show "FilterAndPrioritizeCandidatesByContext sample_candidates 50000 False \<noteq> []"
    using context_filter_sound [of sample_candidates 50000 False] by (simp add: sample_candidates_def)
qed

section \<open>The latency tracker as a function of its history\<close>

record outcome =
  oc_now :: int
  oc_name :: string
  oc_dur :: int
  oc_err :: "go_error option"
  oc_limit :: int

definition record_outcome :: "LatencyTracker \<Rightarrow> outcome \<Rightarrow> LatencyTracker" where
  "record_outcome lt e = RecordOutcome lt (oc_now e) (oc_name e) (oc_dur e) (oc_err e) (oc_limit e)"

definition is_timeout :: "outcome \<Rightarrow> bool" where
  "is_timeout e \<longleftrightarrow> timed_out (oc_dur e) (oc_err e) (oc_limit e)"

definition is_success :: "outcome \<Rightarrow> bool" where
  "is_success e \<longleftrightarrow> \<not> is_timeout e \<and> oc_err e = None"

definition outcomes_of :: "string \<Rightarrow> outcome list \<Rightarrow> outcome list" where
  "outcomes_of name es = filter (\<lambda>e. oc_name e = name) es"

text \<open>Time-outs after the last success, other failures in between left out.\<close>

definition recent_timeouts :: "outcome list \<Rightarrow> int" where
  "recent_timeouts es = int (length (filter is_timeout (since is_success es)))"

definition stats_rel :: "outcome list \<Rightarrow> CandidateLatencyStats \<Rightarrow> bool" where
  "stats_rel os s \<longleftrightarrow> 0 \<le> cls_PenaltyScore s \<and> cls_PenaltyScore s \<le> 3
     \<and> (0 < cls_PenaltyScore s \<longrightarrow> (\<exists>e \<in> set os. is_timeout e \<or> is_success e \<and> seconds 60 < oc_dur e))
     \<and> cls_ConsecutiveTimeouts s = wrap64 (recent_timeouts os)
     \<and> cls_TotalTimeouts s = wrap64 (int (length (filter is_timeout os)))
     \<and> cls_TotalSuccesses s = wrap64 (int (length (filter is_success os)))"

definition tracker_rel :: "outcome list \<Rightarrow> LatencyTracker \<Rightarrow> bool" where
  "tracker_rel es lt \<longleftrightarrow>
     (\<forall>name. name \<noteq> [] \<longrightarrow> stats_rel (outcomes_of name es) (case lt name of None \<Rightarrow> no_stats | Some s \<Rightarrow> s)) \<and> lt [] = None"

lemma outcomes_of_simps [simp]:
  "outcomes_of name [] = []"
  "outcomes_of name (es @ [e]) = (if oc_name e = name then outcomes_of name es @ [e] else outcomes_of name es)"
  by (simp_all add: outcomes_of_def)

lemma recent_timeouts_snoc:
  "recent_timeouts (es @ [e]) = (if is_success e then 0 else recent_timeouts es + (if is_timeout e then 1 else 0))"
  by (simp add: recent_timeouts_def)

lemma stats_rel_Nil: "stats_rel [] no_stats"
  by (simp add: stats_rel_def no_stats_def recent_timeouts_def since_def)

lemma stats_rel_snoc:
  "stats_rel os s \<Longrightarrow> stats_rel (os @ [e]) (update_stats (oc_now e) (oc_dur e) (oc_err e) (oc_limit e) s)"
  by (auto simp: stats_rel_def update_stats_def Let_def recent_timeouts_snoc is_timeout_def is_success_def add.commute)

interpretation latency: traced NewLatencyTracker record_outcome tracker_rel
proof
  show "tracker_rel [] NewLatencyTracker" by (simp add: tracker_rel_def NewLatencyTracker_def stats_rel_Nil)
  fix es lt and e :: outcome assume rel: "tracker_rel es lt"
  then show "tracker_rel (es @ [e]) (record_outcome lt e)"
    by (simp add: tracker_rel_def record_outcome_def RecordOutcome_def stats_rel_snoc)
qed

text \<open>After any sequence of outcomes the penalty of a candidate is between 0 and 3 and positive only if it timed out
  or was slow before; its consecutive time-outs are those after its last success, and the totals
  count its history, all as 64-bit values.\<close>

theorem tracker_follows_history:
  "0 \<le> GetPenaltyScore (foldl record_outcome NewLatencyTracker es) name
   \<and> GetPenaltyScore (foldl record_outcome NewLatencyTracker es) name \<le> 3
   \<and> (0 < GetPenaltyScore (foldl record_outcome NewLatencyTracker es) name \<longrightarrow>
        (\<exists>e \<in> set (outcomes_of name es). is_timeout e \<or> is_success e \<and> seconds 60 < oc_dur e))
   \<and> (name \<noteq> [] \<longrightarrow> GetConsecutiveTimeouts (foldl record_outcome NewLatencyTracker es) name
        = wrap64 (recent_timeouts (outcomes_of name es)))"
proof -
  have rel: "tracker_rel es (foldl record_outcome NewLatencyTracker es)" by (rule latency.rel_run)
  show ?thesis
  proof (cases "name = []")
    case True
    with rel show ?thesis by (simp add: tracker_rel_def GetPenaltyScore_def)
  next
    case False
    with rel have "stats_rel (outcomes_of name es) (case foldl record_outcome NewLatencyTracker es name of None \<Rightarrow> no_stats | Some s \<Rightarrow> s)"
      by (simp add: tracker_rel_def)
    then show ?thesis
      by (auto simp: stats_rel_def GetPenaltyScore_def GetConsecutiveTimeouts_def no_stats_def split: option.splits)
  qed
qed

text \<open>Candidate \<open>a\<close> timed out once, \<open>b\<close> three times.\<close>

definition timeout_of :: "string \<Rightarrow> outcome" where
  "timeout_of name = \<lparr>oc_now = 1, oc_name = name, oc_dur = 5, oc_err = Some ErrDeadlineExceeded, oc_limit = 0\<rparr>"

definition slow_tracker :: LatencyTracker where
  "slow_tracker = foldl record_outcome NewLatencyTracker (map timeout_of [''a'', ''b'', ''b'', ''b''])"

theorem tracker_follows_history_witness:
  "GetConsecutiveTimeouts slow_tracker ''b'' = 3 \<and> 0 < GetPenaltyScore slow_tracker ''b'' \<and> GetPenaltyScore slow_tracker ''b'' \<le> 3"
proof -
  have "0 < GetPenaltyScore slow_tracker ''b''" by code_simp
  moreover have "wrap64 (recent_timeouts (outcomes_of ''b'' (map timeout_of [''a'', ''b'', ''b'', ''b'']))) = 3" by code_simp
  ultimately show ?thesis
    using tracker_follows_history [of "map timeout_of [''a'', ''b'', ''b'', ''b'']" "''b''"] by (simp add: slow_tracker_def)
qed

section \<open>Demotion\<close>

lemma demote_loop_unpenalised:
  "(\<forall>i \<in> set is. i < length xs \<and> (cand_Name (xs ! i) \<in> set processed \<or> GetPenaltyScore lt (cand_Name (xs ! i)) \<le> 0))
     \<Longrightarrow> demote_loop lt is processed xs = xs"
  by (induction "is" arbitrary: processed) (auto simp: Let_def demote_at_def)

text \<open>Demotion is a permutation and leaves a list without penalties as it is. A candidate right behind one
  with penalty 1 is moved to the first place and never looked at: whatever its own penalty, it is
  not demoted, because the loop goes on behind the place it was shifted to.\<close>

theorem demotion_skips_successor:
  assumes "cand_Name a \<noteq> cand_Name b" "GetPenaltyScore lt (cand_Name a) = 1"
    and "\<forall>c \<in> set rest. GetPenaltyScore lt (cand_Name c) \<le> 0"
  shows "ApplyDynamicDemotion lt (a # b # rest) = b # a # rest
    \<and> mset (ApplyDynamicDemotion lt cs) = mset cs \<and> ApplyDynamicDemotion lt rest = rest"
proof -
  have first: "demote_at lt 0 (a # b # rest) = b # a # rest"
    using assms(2) by (simp add: demote_at_def shift_to_def Let_def)
  have "[0..<length (a # b # rest)] = 0 # 1 # map Suc (map Suc [0..<length rest])"
    by (simp add: upt_conv_Cons map_Suc_upt del: upt.simps map_map)
  moreover have "demote_loop lt (1 # map Suc (map Suc [0..<length rest])) [cand_Name a] (b # a # rest) = b # a # rest"
    using assms(3) by (intro demote_loop_unpenalised) auto
  ultimately have "ApplyDynamicDemotion lt (a # b # rest) = b # a # rest"
    by (simp add: ApplyDynamicDemotion_def first Let_def del: upt_Suc map_map)
  moreover have "ApplyDynamicDemotion lt rest = rest"
    using assms(3) by (simp add: ApplyDynamicDemotion_def demote_loop_unpenalised)
  ultimately show ?thesis by (simp add: mset_ApplyDynamicDemotion)
qed

text \<open>Candidate \<open>b\<close> becomes the first choice although it timed out more often than \<open>a\<close>.\<close>

theorem demotion_skips_successor_witness:
  "GetPenaltyScore slow_tracker ''b'' = 3
   \<and> map cand_Name (ApplyDynamicDemotion slow_tracker sample_candidates) = [''b'', ''a'', ''c'']"
proof
  show "GetPenaltyScore slow_tracker ''b'' = 3" by code_simp
  have p: "GetPenaltyScore slow_tracker ''a'' = 1" "GetPenaltyScore slow_tracker ''c'' = 0" by code_simp+
  have "ApplyDynamicDemotion slow_tracker (hd sample_candidates # (sample_candidates ! 1) # [sample_candidates ! 2])
     = sample_candidates ! 1 # hd sample_candidates # [sample_candidates ! 2]"
    using demotion_skips_successor [of "hd sample_candidates" "sample_candidates ! 1" slow_tracker "[sample_candidates ! 2]"] p
    by (simp add: sample_candidates_def)
  then show "map cand_Name (ApplyDynamicDemotion slow_tracker sample_candidates) = [''b'', ''a'', ''c'']"
    by (simp add: sample_candidates_def)
qed

end
