(* ===== verification/Llm_Router.thy ===== *)
theory Llm_Router
  imports Llm_Candidates
begin

text \<open>
  The router over several providers, \<open>ResilientLLMRouter\<close> of \<open>src/pkg/infrastructure/llm\<close>: the list of
  candidates of a role and the completion (\<open>router.go\<close>), cooldown (\<open>router_ratelimit.go\<close>), eviction and
  emergency recovery (\<open>router_eviction.go\<close>), daily token limits (\<open>router_provider_overrides.go\<close>). The clock, the
  clients, the budget store of today and the waiting time that a provider states are the environment
  \<open>router_env\<close>; every reading of the clock may find it changed. The state has the router's maps and the
  log of calls and charges. A call of the log carries what the maps said about its candidate and
  the time read right before it. Request settings of the clients and messages are left out.
\<close>

section \<open>Environment, configuration and state\<close>

record 'w router_env =
  re_now :: "'w \<Rightarrow> int \<times> 'w"
  re_call :: "'w \<Rightarrow> RouterCandidate \<Rightarrow> string \<Rightarrow> completion \<times> 'w"
  re_retry_delay :: "go_error \<Rightarrow> int option"
  re_has_store :: bool
  re_usage :: "'w \<Rightarrow> string \<Rightarrow> int option \<times> 'w"
  re_add_usage :: "'w \<Rightarrow> string \<Rightarrow> int \<Rightarrow> 'w"
  re_json :: "(string \<times> gany) list \<Rightarrow> string option"

record ProviderSpec =
  ps_Name :: string
  ps_Provider :: string
  ps_Model :: string
  ps_ContextWindow :: int
  ps_MaxTimeout :: int
  ps_TokenUsageLimit :: "int option"

record ProviderRef =
  pf_Name :: string
  pf_Provider :: string
  pf_Model :: string
  pf_Models :: "string list"

record router_cfg =
  rg_namedProviders :: "string \<rightharpoonup> ProviderSpec"
  rg_globalPriority :: "string list"
  rg_roleProviders :: "string \<Rightarrow> ProviderRef list"
  rg_ensemble :: "string \<Rightarrow> RouterCandidate option"
  rg_buildable :: "ProviderSpec \<Rightarrow> string \<Rightarrow> bool"
  rg_default :: "RouterCandidate option"
  rg_removedRole :: "string \<Rightarrow> bool"
  rg_tokenUsageLimit :: int
  rg_cooldownDuration :: int
  rg_adaptive :: bool

datatype router_event =
    Called RouterCandidate "int option" "int option" int completion
  | Emergency RouterCandidate "int option" int completion
  | Charged string int

record 'w router =
  rt_world :: 'w
  rt_cooldowns :: "string \<rightharpoonup> int"
  rt_evictedUntil :: "string \<rightharpoonup> int"
  rt_evictionReasons :: "string \<rightharpoonup> string"
  rt_cache :: "string \<rightharpoonup> RouterCandidate list"
  rt_tracker :: LatencyTracker
  rt_log :: "router_event list"

definition read_clock :: "'w router_env \<Rightarrow> 'w router \<Rightarrow> int \<times> 'w router" where
  "read_clock env r = (let (t, w) = re_now env (rt_world r) in (t, r\<lparr>rt_world := w\<rparr>))"

section \<open>The candidates of a role\<close>

definition candidate_of :: "ProviderSpec \<Rightarrow> string \<Rightarrow> RouterCandidate" where
  "candidate_of spec m = \<lparr>cand_Name = ps_Name spec, cand_Provider = ps_Provider spec, cand_Model = m,
     cand_ContextWindow = (if ps_ContextWindow spec \<le> 0 then GetModelContextWindow (ps_Provider spec) m
                           else ps_ContextWindow spec)\<rparr>"

definition inline_spec :: "string \<Rightarrow> ProviderSpec" where
  "inline_spec p = \<lparr>ps_Name = p, ps_Provider = p, ps_Model = [], ps_ContextWindow = 0, ps_MaxTimeout = 0, ps_TokenUsageLimit = None\<rparr>"

definition cand_key :: "ProviderSpec \<Rightarrow> string \<Rightarrow> string" where
  "cand_key spec m = ps_Provider spec @ '':'' @ m"

text \<open>Append a candidate unless its provider and model were seen; a key is marked even if no client can be built.\<close>

definition add_candidate :: "router_cfg \<Rightarrow> ProviderSpec \<Rightarrow> string list \<times> RouterCandidate list \<Rightarrow> string
    \<Rightarrow> string list \<times> RouterCandidate list" where
  "add_candidate g spec acc m =
     (if cand_key spec m \<in> set (fst acc) then acc
      else (cand_key spec m # fst acc, if rg_buildable g spec m then snd acc @ [candidate_of spec m] else snd acc))"

definition ref_spec :: "router_cfg \<Rightarrow> ProviderRef \<Rightarrow> ProviderSpec option" where
  "ref_spec g ref =
     (if pf_Name ref \<noteq> [] then rg_namedProviders g (pf_Name ref)
      else if pf_Provider ref \<noteq> [] then Some (inline_spec (pf_Provider ref)) else None)"

definition models_to_try :: "ProviderRef \<Rightarrow> ProviderSpec \<Rightarrow> string list" where
  "models_to_try ref spec =
     (if pf_Models ref \<noteq> [] then pf_Models ref
      else if pf_Model ref \<noteq> [] then [pf_Model ref]
      else if ps_Model spec \<noteq> [] then [ps_Model spec] else [[]])"

definition add_ref :: "router_cfg \<Rightarrow> string list \<times> RouterCandidate list \<Rightarrow> ProviderRef \<Rightarrow> string list \<times> RouterCandidate list" where
  "add_ref g acc ref =
     (case ref_spec g ref of None \<Rightarrow> acc
      | Some spec \<Rightarrow> if ps_Provider spec = [] then acc else foldl (add_candidate g spec) acc (models_to_try ref spec))"

definition priority_spec :: "router_cfg \<Rightarrow> string \<Rightarrow> ProviderSpec option" where
  "priority_spec g p =
     (case rg_namedProviders g p of Some spec \<Rightarrow> Some spec
      | None \<Rightarrow> if p \<noteq> [] then Some (inline_spec p) else None)"

definition add_priority :: "router_cfg \<Rightarrow> string list \<times> RouterCandidate list \<Rightarrow> string \<Rightarrow> string list \<times> RouterCandidate list" where
  "add_priority g acc p =
     (case priority_spec g p of None \<Rightarrow> acc
      | Some spec \<Rightarrow> if ps_Provider spec = [] then acc else add_candidate g spec acc (ps_Model spec))"

definition buildCandidatesForRole :: "router_cfg \<Rightarrow> string \<Rightarrow> RouterCandidate list" where
  "buildCandidatesForRole g role =
     (let ens = (case rg_ensemble g role of None \<Rightarrow> [] | Some c \<Rightarrow> [c]);
          acc = foldl (add_ref g) ([], ens) (rg_roleProviders g role);
          cs = snd (foldl (add_priority g) acc (rg_globalPriority g))
      in if cs = [] then (case rg_default g of None \<Rightarrow> [] | Some c \<Rightarrow> [c]) else cs)"

definition ResolveCandidatesForRole :: "router_cfg \<Rightarrow> string \<Rightarrow> 'w router \<Rightarrow> RouterCandidate list \<times> 'w router" where
  "ResolveCandidatesForRole g role r =
     (if rg_removedRole g role then ([], r)
      else case rt_cache r role of
             Some cs \<Rightarrow> (cs, r)
           | None \<Rightarrow> (let cs = buildCandidatesForRole g role in (cs, r\<lparr>rt_cache := (rt_cache r)(role \<mapsto> cs)\<rparr>)))"

definition InvalidateCandidateCache :: "'w router \<Rightarrow> 'w router" where
  "InvalidateCandidateCache r = r\<lparr>rt_cache := Map.empty\<rparr>"

section \<open>Token limits\<close>

definition namedUsageKey :: "string \<Rightarrow> string" where
  "namedUsageKey name = ''named:'' @ name"

definition ResolveTokenUsageLimit :: "ProviderSpec \<Rightarrow> int" where
  "ResolveTokenUsageLimit p = (case ps_TokenUsageLimit p of Some l \<Rightarrow> if l > 0 then l else 0 | None \<Rightarrow> 0)"

definition charge :: "'w router_env \<Rightarrow> string \<Rightarrow> int \<Rightarrow> 'w router \<Rightarrow> 'w router" where
  "charge env key tokens r =
     r\<lparr>rt_world := re_add_usage env (rt_world r) key tokens, rt_log := rt_log r @ [Charged key tokens]\<rparr>"

definition incrementUsage :: "'w router_env \<Rightarrow> RouterCandidate \<Rightarrow> int \<Rightarrow> 'w router \<Rightarrow> 'w router" where
  "incrementUsage env c tokens r =
     (if \<not> re_has_store env then r
      else let r1 = charge env (cand_Provider c) tokens r;
               r2 = (if cand_Name c \<noteq> [] then charge env (namedUsageKey (cand_Name c)) tokens r1 else r1)
           in charge env ''total'' tokens r2)"

definition recordTokenUsage :: "'w router_env \<Rightarrow> string \<Rightarrow> RouterCandidate \<Rightarrow> LLMResponse option \<Rightarrow> 'w router \<Rightarrow> 'w router" where
  "recordTokenUsage env prompt c resp r =
     (if resp = None then r else incrementUsage env c (estimateUsageTokens (re_json env) prompt resp) r)"

definition recordPromptTokenUsage :: "'w router_env \<Rightarrow> string \<Rightarrow> RouterCandidate \<Rightarrow> 'w router \<Rightarrow> 'w router" where
  "recordPromptTokenUsage env prompt c r = incrementUsage env c (estimatePromptTokens prompt) r"

fun filterByProviderTokenLimit :: "'w router_env \<Rightarrow> router_cfg \<Rightarrow> RouterCandidate list \<Rightarrow> 'w router
    \<Rightarrow> RouterCandidate list \<times> 'w router" where
  "filterByProviderTokenLimit env g [] r = ([], r)"
| "filterByProviderTokenLimit env g (c # cs) r =
     (let (keep, r1) =
        (if \<not> re_has_store env then (True, r)
         else case rg_namedProviders g (cand_Name c) of None \<Rightarrow> (True, r)
           | Some spec \<Rightarrow>
               if ResolveTokenUsageLimit spec \<le> 0 then (True, r)
               else let (used, w) = re_usage env (rt_world r) (namedUsageKey (cand_Name c))
                    in ((case used of None \<Rightarrow> True | Some u \<Rightarrow> u < ResolveTokenUsageLimit spec), r\<lparr>rt_world := w\<rparr>));
          (kept, r2) = filterByProviderTokenLimit env g cs r1
      in (if keep then c # kept else kept, r2))"

section \<open>Cooldown and eviction\<close>

definition before :: "int \<Rightarrow> int option \<Rightarrow> bool" where
  "before now until = (case until of None \<Rightarrow> False | Some u \<Rightarrow> now < u)"

definition filterEligibleCandidates :: "'w router_env \<Rightarrow> RouterCandidate list \<Rightarrow> 'w router \<Rightarrow> RouterCandidate list \<times> 'w router" where
  "filterEligibleCandidates env cs r =
     (let (now, r1) = read_clock env r
      in (filter (\<lambda>c. \<not> before now (rt_evictedUntil r (cand_Name c)) \<and> \<not> before now (rt_cooldowns r (cand_Name c))) cs, r1))"

definition isCandidateEvicted :: "'w router_env \<Rightarrow> RouterCandidate \<Rightarrow> 'w router \<Rightarrow> bool \<times> 'w router" where
  "isCandidateEvicted env c r =
     (case rt_evictedUntil r (cand_Name c) of
        None \<Rightarrow> (False, r)
      | Some u \<Rightarrow> (let (now, r1) = read_clock env r in (now < u, r1)))"

definition isCandidateInCooldown :: "'w router_env \<Rightarrow> RouterCandidate \<Rightarrow> 'w router \<Rightarrow> bool \<times> 'w router" where
  "isCandidateInCooldown env c r =
     (let (now, r1) = read_clock env r in (before now (rt_cooldowns r (cand_Name c)), r1))"

definition handleRateLimitRotation :: "'w router_env \<Rightarrow> RouterCandidate \<Rightarrow> go_error \<Rightarrow> 'w router \<Rightarrow> 'w router" where
  "handleRateLimitRotation env c e r =
     (let cooldown = (case re_retry_delay env e of Some d \<Rightarrow> if d > 0 then d else seconds 60 | None \<Rightarrow> seconds 60);
          (now, r1) = read_clock env r
      in r1\<lparr>rt_cooldowns := (rt_cooldowns r1)(cand_Name c \<mapsto> now + cooldown)\<rparr>)"

text \<open>The reaction to the error of a call, in \<open>completeSequentially\<close> and \<open>recordCandidateOutcome\<close>.\<close>

definition react :: "'w router_env \<Rightarrow> router_cfg \<Rightarrow> RouterCandidate \<Rightarrow> go_error \<Rightarrow> 'w router \<Rightarrow> 'w router" where
  "react env g c e r =
     (if isEvictionError (Some e) then
        let (now, r1) = read_clock env r
        in r1\<lparr>rt_evictedUntil := (rt_evictedUntil r1)(cand_Name c \<mapsto> now + seconds (30 * 60)),
              rt_evictionReasons := (rt_evictionReasons r1)(cand_Name c \<mapsto> err_text e)\<rparr>
      else if isRateLimitOrQuota (Some e) then handleRateLimitRotation env c e r
      else if isTransientError (Some e) then
        let (now, r1) = read_clock env r
        in r1\<lparr>rt_cooldowns := (rt_cooldowns r1)(cand_Name c \<mapsto> now + rg_cooldownDuration g)\<rparr>
      else r)"

definition record_latency :: "'w router_env \<Rightarrow> router_cfg \<Rightarrow> RouterCandidate \<Rightarrow> int \<Rightarrow> go_error option \<Rightarrow> 'w router \<Rightarrow> 'w router" where
  "record_latency env g c dur err r =
     (let threshold = (case rg_namedProviders g (cand_Name c) of None \<Rightarrow> 0
                       | Some spec \<Rightarrow> if ps_MaxTimeout spec > 0 then ps_MaxTimeout spec else 0);
          (now, r1) = read_clock env r
      in r1\<lparr>rt_tracker := RecordOutcome (rt_tracker r1) now (cand_Name c) dur err threshold\<rparr>)"

text \<open>The usable candidate whose cooldown ends first; one without a cooldown counts as time 0.\<close>

fun earliest :: "('a \<Rightarrow> int) \<Rightarrow> 'a option \<Rightarrow> 'a list \<Rightarrow> 'a option" where
  "earliest until best [] = best"
| "earliest until best (c # cs) =
     (case best of
        None \<Rightarrow> earliest until (Some c) cs
      | Some b \<Rightarrow> earliest until (Some (if until c < until b then c else b)) cs)"

definition cooldown_end :: "'w router \<Rightarrow> RouterCandidate \<Rightarrow> int" where
  "cooldown_end r c = (case rt_cooldowns r (cand_Name c) of Some u \<Rightarrow> u | None \<Rightarrow> 0)"

definition selectEmergencyRecoveryCandidate :: "'w router_env \<Rightarrow> RouterCandidate list \<Rightarrow> 'w router
    \<Rightarrow> RouterCandidate option \<times> 'w router" where
  "selectEmergencyRecoveryCandidate env cs r =
     (let (now, r1) = read_clock env r
      in (earliest (cooldown_end r) None (filter (\<lambda>c. \<not> before now (rt_evictedUntil r (cand_Name c))) cs), r1))"

text \<open>\<open>GetEvictedProviders\<close>: the reason and the remaining time of every current eviction, printed by
  the caller; \<open>names\<close> is the order in which Go ranges over the map.\<close>

definition GetEvictedProviders :: "'w router_env \<Rightarrow> string list \<Rightarrow> 'w router \<Rightarrow> (string \<times> int \<times> string) list \<times> 'w router" where
  "GetEvictedProviders env names r =
     (let (now, r1) = read_clock env r
      in (List.map_filter (\<lambda>n. case rt_evictedUntil r n of
              None \<Rightarrow> None
            | Some u \<Rightarrow> if now < u then Some (n, u - now, (case rt_evictionReasons r n of Some t \<Rightarrow> t | None \<Rightarrow> [])) else None) names, r1))"

definition getShortestCooldownCandidate :: "int \<Rightarrow> 'w router \<Rightarrow> RouterCandidate list \<Rightarrow> RouterCandidate option \<times> int" where
  "getShortestCooldownCandidate now r cs =
     (case find (\<lambda>c. cooldown_end r c = 0 \<or> cooldown_end r c - now \<le> 0) cs of
        Some c \<Rightarrow> (Some c, 0)
      | None \<Rightarrow> (case earliest (cooldown_end r) None cs of
                   None \<Rightarrow> (None, -1) | Some c \<Rightarrow> (Some c, cooldown_end r c - now)))"

section \<open>Trying the candidates in order\<close>

definition quoted :: "string \<Rightarrow> string" where
  "quoted s = char_of (39 :: nat) # s @ [char_of (39 :: nat)]"

definition call_candidate :: "'w router_env \<Rightarrow> router_cfg \<Rightarrow> string \<Rightarrow> RouterCandidate \<Rightarrow> 'w router \<Rightarrow> completion \<times> 'w router" where
  "call_candidate env g prompt c r =
     (let (t0, r1) = read_clock env r;
          (res, w) = re_call env (rt_world r1) c prompt;
          r2 = r1\<lparr>rt_world := w, rt_log := rt_log r1 @
                [Called c (rt_evictedUntil r (cand_Name c)) (rt_cooldowns r (cand_Name c)) t0 res]\<rparr>;
          (t1, r3) = read_clock env r2
      in (res, record_latency env g c (t1 - t0) (snd res) r3))"

text \<open>\<open>Inr\<close> is the answer of the first candidate that succeeds, \<open>Inl\<close> the last error.\<close>

fun try_candidates :: "'w router_env \<Rightarrow> router_cfg \<Rightarrow> string \<Rightarrow> RouterCandidate list \<Rightarrow> go_error option \<Rightarrow> 'w router
    \<Rightarrow> (go_error option, LLMResponse option) result \<times> 'w router" where
  "try_candidates env g prompt [] lastErr r = (Inl lastErr, r)"
| "try_candidates env g prompt (c # cs) lastErr r =
     (let (evicted, r1) = isCandidateEvicted env c r
      in if evicted then try_candidates env g prompt cs lastErr r1
         else let (cooling, r2) = isCandidateInCooldown env c r1
              in if cooling then try_candidates env g prompt cs lastErr r2
                 else let ((resp, err), r3) = call_candidate env g prompt c r2
                      in (case err of
                            None \<Rightarrow> (Inr resp, recordTokenUsage env prompt c resp r3)
                          | Some e \<Rightarrow> try_candidates env g prompt cs (Some e) (react env g c e r3)))"

definition emergency :: "'w router_env \<Rightarrow> string \<Rightarrow> string \<Rightarrow> RouterCandidate \<Rightarrow> 'w router \<Rightarrow> completion \<times> 'w router" where
  "emergency env role prompt c r =
     (let ((resp, err), w) = re_call env (rt_world r) c prompt;
          r1 = r\<lparr>rt_world := w, rt_log := rt_log r @ [Emergency c (rt_evictedUntil r (cand_Name c)) (cooldown_end r c) (resp, err)]\<rparr>
      in (case err of
            None \<Rightarrow> ((resp, None), r1\<lparr>rt_cooldowns := (rt_cooldowns r1)(cand_Name c := None),
                                      rt_evictedUntil := (rt_evictedUntil r1)(cand_Name c := None)\<rparr>)
          | Some e \<Rightarrow>
              (let r2 = (if isEvictionError (Some e)
                         then let (now, r2) = read_clock env r1
                              in r2\<lparr>rt_evictedUntil := (rt_evictedUntil r2)(cand_Name c \<mapsto> now + seconds (10 * 60))\<rparr>
                         else r1)
               in ((None, Some (ErrWrap (''all LLM provider candidates for role '' @ quoted role
                     @ '' in cooldown/eviction (emergency recovery on '' @ quoted (cand_Name c) @ '' failed: '') e '')'')), r2))))"

definition completeSequentially :: "'w router_env \<Rightarrow> router_cfg \<Rightarrow> string \<Rightarrow> RouterCandidate list \<Rightarrow> string \<Rightarrow> 'w router
    \<Rightarrow> completion \<times> 'w router" where
  "completeSequentially env g role cs prompt r =
     (let (res, r1) = try_candidates env g prompt cs None r
      in (case res of
            Inr resp \<Rightarrow> ((resp, None), r1)
          | Inl (Some e) \<Rightarrow> ((None, Some (ErrWrap (''all LLM provider candidates for role '' @ quoted role @ '' failed: '') e [])), r1)
          | Inl None \<Rightarrow>
              (let (best, r2) = (if cs = [] then (None, r1) else selectEmergencyRecoveryCandidate env cs r1)
               in (case best of
                     Some c \<Rightarrow> emergency env role prompt c r2
                   | None \<Rightarrow> ((None, Some (ErrText (''all LLM provider candidates for role '' @ quoted role
                               @ '' are currently in cooldown or evicted''))), r2)))))"

section \<open>A completion\<close>

text \<open>\<open>hedged\<close> is the hedged completion, tried when two eligible candidates are left and the first allows hedging.\<close>

definition total_limit_reached :: "'w router_env \<Rightarrow> router_cfg \<Rightarrow> 'w router \<Rightarrow> bool \<times> 'w router" where
  "total_limit_reached env g r =
     (if re_has_store env \<and> rg_tokenUsageLimit g > 0
      then let (used, w) = re_usage env (rt_world r) ''total''
           in ((case used of None \<Rightarrow> False | Some u \<Rightarrow> u \<ge> rg_tokenUsageLimit g), r\<lparr>rt_world := w\<rparr>)
      else (False, r))"

definition route :: "'w router_env \<Rightarrow> router_cfg \<Rightarrow> string \<Rightarrow> string \<Rightarrow> RouterCandidate list \<Rightarrow> 'w router
    \<Rightarrow> RouterCandidate list \<times> 'w router" where
  "route env g modelOverride prompt candidates r =
     (let cs1 = FilterAndPrioritizeCandidatesByContext candidates (estimatePromptTokens prompt) (rg_adaptive g);
          cs2 = ApplyDynamicDemotion (rt_tracker r) cs1;
          (cs3, r1) = filterByProviderTokenLimit env g cs2 r
      in (if modelOverride \<noteq> [] then PrioritizeCandidatesByModel cs3 modelOverride else cs3, r1))"

definition router_Complete :: "'w router_env \<Rightarrow> router_cfg \<Rightarrow> (RouterCandidate list \<Rightarrow> 'w router \<Rightarrow> (completion \<times> 'w router) option)
    \<Rightarrow> string \<Rightarrow> string \<Rightarrow> string \<Rightarrow> 'w router \<Rightarrow> completion \<times> 'w router" where
  "router_Complete env g hedged role modelOverride prompt r =
     (let (full, r1) = total_limit_reached env g r
      in if full then ((None, Some (ErrWrap [] ErrBudgetExhausted '': daily token limit reached'')), r1)
         else let (candidates, r2) = ResolveCandidatesForRole g role r1
              in if candidates = [] then ((None, Some (ErrText (''no valid LLM candidates available for role '' @ quoted role))), r2)
                 else let (cs, r3) = route env g modelOverride prompt candidates r2
                      in if cs = [] then ((None, Some (ErrWrap [] ErrBudgetExhausted
                              ('': every provider for role '' @ quoted role @ '' reached its daily token limit''))), r3)
                         else if length cs \<ge> 2 then
                           (let (eligible, r4) = filterEligibleCandidates env cs r3
                            in (case (if length eligible \<ge> 2 then hedged eligible r4 else None) of
                                  Some out \<Rightarrow> out
                                | None \<Rightarrow> completeSequentially env g role cs prompt r4))
                         else completeSequentially env g role cs prompt r3)"

section \<open>Facts on the calls\<close>

record attempt =
  at_cand :: RouterCandidate
  at_evicted :: "int option"
  at_cooldown :: "int option"
  at_time :: int
  at_result :: completion

fun attempts_of :: "router_event list \<Rightarrow> attempt list" where
  "attempts_of [] = []"
| "attempts_of (Called c ev cool t res # es) =
     \<lparr>at_cand = c, at_evicted = ev, at_cooldown = cool, at_time = t, at_result = res\<rparr> # attempts_of es"
| "attempts_of (_ # es) = attempts_of es"

fun emergencies_of :: "router_event list \<Rightarrow> (RouterCandidate \<times> completion) list" where
  "emergencies_of [] = []"
| "emergencies_of (Emergency c ev cool res # es) = (c, res) # emergencies_of es"
| "emergencies_of (_ # es) = emergencies_of es"

lemma attempts_of_append [simp]: "attempts_of (es @ fs) = attempts_of es @ attempts_of fs"
  by (induction es rule: attempts_of.induct) simp_all

lemma emergencies_of_append [simp]: "emergencies_of (es @ fs) = emergencies_of es @ emergencies_of fs"
  by (induction es rule: emergencies_of.induct) simp_all

definition allowed :: "attempt \<Rightarrow> bool" where
  "allowed a \<longleftrightarrow> \<not> before (at_time a) (at_evicted a) \<and> \<not> before (at_time a) (at_cooldown a)"

text \<open>A clock that never goes back between two readings in a row.\<close>

definition clock_forward :: "'w router_env \<Rightarrow> bool" where
  "clock_forward env \<longleftrightarrow> (\<forall>w. fst (re_now env w) \<le> fst (re_now env (snd (re_now env w))))"

lemma read_clock_eq:
  "read_clock env r = (fst (re_now env (rt_world r)), r\<lparr>rt_world := snd (re_now env (rt_world r))\<rparr>)"
  by (simp add: read_clock_def split: prod.splits)

text \<open>What the bookkeeping operations leave alone.\<close>

lemma record_latency_log [simp]: "rt_log (record_latency env g c d e r) = rt_log r"
  by (simp add: record_latency_def read_clock_eq)

lemma react_log [simp]: "rt_log (react env g c e r) = rt_log r"
  by (simp add: react_def handleRateLimitRotation_def read_clock_eq)

lemma charge_log [simp]: "rt_log (charge env k n r) = rt_log r @ [Charged k n]"
  by (simp add: charge_def)

lemma recordTokenUsage_log:
  "\<exists>fs. rt_log (recordTokenUsage env p c resp r) = rt_log r @ fs \<and> attempts_of fs = [] \<and> emergencies_of fs = []"
  by (auto simp: recordTokenUsage_def incrementUsage_def Let_def)

lemma call_candidate_log:
  assumes "call_candidate env g prompt c r = (res, r')"
  shows "rt_log r' = rt_log r @ [Called c (rt_evictedUntil r (cand_Name c)) (rt_cooldowns r (cand_Name c)) (fst (re_now env (rt_world r))) res]"
  using assms by (auto simp: call_candidate_def read_clock_eq split: prod.splits)

lemma check_then_call_allowed:
  assumes "clock_forward env"
    and "isCandidateEvicted env c r = (False, r1)" "isCandidateInCooldown env c r1 = (False, r2)"
    and "call_candidate env g prompt c r2 = (res, r3)"
  shows "\<exists>a. attempts_of [Called c (rt_evictedUntil r2 (cand_Name c)) (rt_cooldowns r2 (cand_Name c)) (fst (re_now env (rt_world r2))) res] = [a]
    \<and> at_cand a = c \<and> at_result a = res \<and> allowed a
    \<and> rt_log r3 = rt_log r @ [Called c (rt_evictedUntil r2 (cand_Name c)) (rt_cooldowns r2 (cand_Name c)) (fst (re_now env (rt_world r2))) res]"
proof -
  let ?w1 = "rt_world r1" and ?n = "cand_Name c"
  from assms(3) have r2: "r2 = r1\<lparr>rt_world := snd (re_now env ?w1)\<rparr>" "\<not> before (fst (re_now env ?w1)) (rt_cooldowns r1 ?n)"
    by (auto simp: isCandidateInCooldown_def read_clock_eq)
  from assms(1) have mono: "fst (re_now env w) \<le> fst (re_now env (snd (re_now env w)))" for w by (simp add: clock_forward_def)
  have ev: "rt_evictedUntil r1 = rt_evictedUntil r" "rt_log r1 = rt_log r" "\<not> before (fst (re_now env ?w1)) (rt_evictedUntil r ?n)"
    using assms(2) mono [of "rt_world r"]
    by (auto simp: isCandidateEvicted_def before_def read_clock_eq split: option.splits)
  have later: "\<not> before (fst (re_now env (snd (re_now env ?w1)))) u" if "\<not> before (fst (re_now env ?w1)) u" for u
    using that mono [of ?w1] by (auto simp: before_def split: option.splits)
  from later [OF r2(2)] later [OF ev(3)] call_candidate_log [OF assms(4)] ev(1,2) show ?thesis
    by (simp add: r2(1) allowed_def)
qed

definition unblocked :: "'w router \<Rightarrow> RouterCandidate \<Rightarrow> bool" where
  "unblocked r c \<longleftrightarrow> rt_evictedUntil r (cand_Name c) = None \<and> rt_cooldowns r (cand_Name c) = None"

lemma check_frame:
  assumes "isCandidateEvicted env c r = (b, r1)"
  shows "rt_log r1 = rt_log r" "unblocked r1 = unblocked r" "b \<longrightarrow> \<not> unblocked r c"
  using assms by (auto simp: isCandidateEvicted_def read_clock_eq unblocked_def fun_eq_iff split: option.splits)

lemma check_frame2:
  assumes "isCandidateInCooldown env c r = (b, r1)"
  shows "rt_log r1 = rt_log r" "unblocked r1 = unblocked r" "b \<longrightarrow> \<not> unblocked r c"
  using assms by (auto simp: isCandidateInCooldown_def read_clock_eq unblocked_def fun_eq_iff before_def split: option.splits)

lemma call_candidate_unblocked: "call_candidate env g prompt c r = (res, r') \<Longrightarrow> unblocked r' = unblocked r"
  by (auto simp: call_candidate_def record_latency_def read_clock_eq unblocked_def fun_eq_iff split: prod.splits)

lemma react_unblocked: "cand_Name c \<noteq> cand_Name d \<Longrightarrow> unblocked (react env g c e r) d = unblocked r d"
  by (simp add: react_def handleRateLimitRotation_def read_clock_eq unblocked_def)

text \<open>The calls \<open>as\<close> of one pass over the candidates and the result of the pass.\<close>

definition pass_ok :: "RouterCandidate list \<Rightarrow> (RouterCandidate \<Rightarrow> bool) \<Rightarrow> go_error option \<Rightarrow> attempt list
    \<Rightarrow> (go_error option, LLMResponse option) result \<Rightarrow> bool" where
  "pass_ok cs free lastErr as res \<longleftrightarrow> subseq (map at_cand as) cs \<and> (\<forall>a \<in> set as. allowed a)
     \<and> (\<forall>a \<in> set (butlast as). snd (at_result a) \<noteq> None)
     \<and> (case res of
          Inr resp \<Rightarrow> as \<noteq> [] \<and> at_result (last as) = (resp, None)
        | Inl e \<Rightarrow> e = (if as = [] then lastErr else snd (at_result (last as))) \<and> (as \<noteq> [] \<longrightarrow> e \<noteq> None)
            \<and> (\<forall>c \<in> set cs. free c \<longrightarrow> cand_Name c \<in> (cand_Name \<circ> at_cand) ` set as))"

lemma pass_ok_skip: "pass_ok cs free lastErr as res \<Longrightarrow> \<not> free c \<Longrightarrow> pass_ok (c # cs) free lastErr as res"
  by (auto simp: pass_ok_def split: sum.splits)

lemma pass_ok_success:
  "at_cand a = c \<Longrightarrow> allowed a \<Longrightarrow> at_result a = (resp, None) \<Longrightarrow> pass_ok (c # cs) free lastErr [a] (Inr resp)"
  by (simp add: pass_ok_def)

lemma pass_ok_failure:
  assumes "pass_ok cs free' (Some e) as res" "at_cand a = c" "allowed a" "snd (at_result a) = Some e"
    and "\<And>d. cand_Name d \<noteq> cand_Name c \<Longrightarrow> free' d = free d"
  shows "pass_ok (c # cs) free lastErr (a # as) res"
  using assms by (cases "as = []") (fastforce simp: pass_ok_def split: sum.splits)+

lemma try_candidates_pass:
  assumes "clock_forward env" "try_candidates env g prompt cs lastErr r = (res, r')"
  shows "\<exists>es. rt_log r' = rt_log r @ es \<and> emergencies_of es = [] \<and> pass_ok cs (unblocked r) lastErr (attempts_of es) res"
  using assms(2)
proof (induction cs arbitrary: lastErr r)
  case Nil
  then show ?case by (intro exI [of _ "[]"]) (auto simp: pass_ok_def)
next
  case (Cons c cs)
  obtain b r1 where ev: "isCandidateEvicted env c r = (b, r1)" by (metis surj_pair)
  obtain b2 r2 where cool: "isCandidateInCooldown env c r1 = (b2, r2)" by (metis surj_pair)
  obtain resp err r3 where call: "call_candidate env g prompt c r2 = ((resp, err), r3)" by (metis surj_pair)
  note f1 = check_frame [OF ev] and f2 = check_frame2 [OF cool]
  note eq = Cons.prems [unfolded try_candidates.simps ev cool call Let_def prod.case]
  consider (skip1) "b" | (skip2) "\<not> b" "b2" | (called) "\<not> b" "\<not> b2" by blast
  then show ?case
  proof cases
    case skip1
    with eq have "try_candidates env g prompt cs lastErr r1 = (res, r')" by simp
    from Cons.IH [OF this] f1 skip1 show ?thesis by (auto intro: pass_ok_skip)
  next
    case skip2
    with eq have "try_candidates env g prompt cs lastErr r2 = (res, r')" by simp
    from Cons.IH [OF this] f1 f2 skip2 show ?thesis by (auto intro: pass_ok_skip)
  next
    case called
    with check_then_call_allowed [OF assms(1) _ _ call] ev cool obtain x a where
      a: "rt_log r3 = rt_log r @ [x]" "attempts_of [x] = [a]" "emergencies_of [x] = []" "at_cand a = c" "at_result a = (resp, err)" "allowed a"
      by (metis emergencies_of.simps(1,3))
    have x: "attempts_of (x # fs) = a # attempts_of fs" "emergencies_of (x # fs) = emergencies_of fs" for fs
      using attempts_of_append [of "[x]" fs] emergencies_of_append [of "[x]" fs] a by simp_all
    show ?thesis
    proof (cases err)
      case None
      with eq called have "res = Inr resp" "r' = recordTokenUsage env prompt c resp r3" by simp_all
      with recordTokenUsage_log [of env prompt c resp r3] a None show ?thesis
        by (auto simp: x intro!: pass_ok_success)
    next
      case (Some e)
      with eq called have "try_candidates env g prompt cs (Some e) (react env g c e r3) = (res, r')" by simp
      from Cons.IH [OF this] obtain es where es: "rt_log r' = rt_log r3 @ es" "emergencies_of es = []"
        "pass_ok cs (unblocked (react env g c e r3)) (Some e) (attempts_of es) res" by auto
      have "pass_ok (c # cs) (unblocked r) lastErr (a # attempts_of es) res"
        by (rule pass_ok_failure [OF es(3)])
          (simp_all add: a Some react_unblocked call_candidate_unblocked [OF call] f1 f2)
      with es a show ?thesis by (intro exI [of _ "x # es"]) (simp add: x)
    qed
  qed
qed

lemma earliest_mem: "earliest until best cs = Some c \<Longrightarrow> c \<in> set cs \<or> best = Some c"
  by (induction until best cs rule: earliest.induct) (auto split: option.splits if_splits)

lemma earliest_None: "earliest until best cs = None \<longleftrightarrow> best = None \<and> cs = []"
  by (induction until best cs rule: earliest.induct) (auto split: option.splits)

lemma earliest_least:
  "earliest until best cs = Some c \<Longrightarrow> (\<forall>x \<in> set cs. until c \<le> until x) \<and> (case best of Some b \<Rightarrow> until c \<le> until b | None \<Rightarrow> True)"
  by (induction until best cs rule: earliest.induct) (fastforce split: option.splits if_splits)+

lemma emergency_choice:
  assumes "selectEmergencyRecoveryCandidate env cs r = (Some c, r')"
  shows "c \<in> set cs \<and> \<not> before (fst (re_now env (rt_world r))) (rt_evictedUntil r (cand_Name c))
    \<and> (\<forall>d \<in> set cs. \<not> before (fst (re_now env (rt_world r))) (rt_evictedUntil r (cand_Name d)) \<longrightarrow> cooldown_end r c \<le> cooldown_end r d)"
  using assms earliest_mem [of "cooldown_end r" None _ c] earliest_least [of "cooldown_end r" None _ c]
  by (fastforce simp: selectEmergencyRecoveryCandidate_def read_clock_eq)

text \<open>C28: One completion goes through the candidates in the given order and calls each at most once; it never calls
  one that is evicted or cooling down at the time of the call, stops at the first success and returns
  it. It gives up only after it called every candidate that was free at the start (or one of the same
  name). If it called none, it makes at most one emergency call, to a listed candidate
  (\<open>emergency_choice\<close> says which).\<close>

theorem completion_tries_in_order:
  assumes "clock_forward env" and "completeSequentially env g role cs prompt r = ((resp, err), r')"
  shows "\<exists>es. rt_log r' = rt_log r @ es
    \<and> subseq (map at_cand (attempts_of es)) cs \<and> (\<forall>a \<in> set (attempts_of es). allowed a)
    \<and> (\<forall>a \<in> set (butlast (attempts_of es)). snd (at_result a) \<noteq> None)
    \<and> (err = None \<longrightarrow> attempts_of es \<noteq> [] \<and> at_result (last (attempts_of es)) = (resp, None)
         \<or> attempts_of es = [] \<and> (\<exists>c \<in> set cs. emergencies_of es = [(c, (resp, None))]))
    \<and> (err \<noteq> None \<longrightarrow> (\<forall>c \<in> set cs. unblocked r c \<longrightarrow> cand_Name c \<in> (cand_Name \<circ> at_cand) ` set (attempts_of es)))
    \<and> length (emergencies_of es) \<le> 1 \<and> (emergencies_of es \<noteq> [] \<longrightarrow> attempts_of es = [])
    \<and> (\<forall>(c, _) \<in> set (emergencies_of es). c \<in> set cs)"
proof -
  obtain res r1 where pass: "try_candidates env g prompt cs None r = (res, r1)" by (metis surj_pair)
  from try_candidates_pass [OF assms(1) pass] obtain es where es: "rt_log r1 = rt_log r @ es" "emergencies_of es = []"
    "pass_ok cs (unblocked r) None (attempts_of es) res" by blast
  note eq = assms(2) [unfolded completeSequentially_def pass Let_def prod.case]
  show ?thesis
  proof (cases res)
    case (Inr x)
    with eq es show ?thesis by (intro exI [of _ es]) (auto simp: pass_ok_def)
  next
    case (Inl e)
    show ?thesis
    proof (cases e)
      case (Some e')
      with eq es Inl show ?thesis by (intro exI [of _ es]) (auto simp: pass_ok_def)
    next
      case None
      with es(3) Inl have none: "attempts_of es = []" "\<forall>c \<in> set cs. \<not> unblocked r c" by (auto simp: pass_ok_def)
      obtain best r2 where best: "(if cs = [] then (None, r1) else selectEmergencyRecoveryCandidate env cs r1) = (best, r2)"
        by (metis surj_pair)
      then have log2: "rt_log r2 = rt_log r1" and mem: "\<forall>c. best = Some c \<longrightarrow> c \<in> set cs"
        by (auto simp: selectEmergencyRecoveryCandidate_def read_clock_eq split: if_splits dest!: earliest_mem)
      note eq = eq [unfolded Inl None best, simplified]
      show ?thesis
      proof (cases best)
        case None
        with eq es none log2 show ?thesis by (intro exI [of _ es]) auto
      next
        case (Some c)
        obtain resp' err' w where call: "re_call env (rt_world r2) c prompt = ((resp', err'), w)" by (metis surj_pair)
        have "rt_log r' = rt_log r2 @ [Emergency c (rt_evictedUntil r2 (cand_Name c)) (cooldown_end r2 c) (resp', err')]"
          and "err = None \<longleftrightarrow> err' = None" "err = None \<longrightarrow> resp = resp'"
          using eq Some by (auto simp: emergency_def call read_clock_eq Let_def split: option.splits if_splits)
        with es none log2 mem Some show ?thesis
          by (intro exI [of _ "es @ [Emergency c (rt_evictedUntil r2 (cand_Name c)) (cooldown_end r2 c) (resp', err')]"]) auto
      qed
    qed
  qed
qed

text \<open>A world that counts the clock readings: candidate \<open>a\<close> is rate limited, the others answer.\<close>

definition sample_answer :: LLMResponse where
  "sample_answer = \<lparr>lr_Reasoning = ''done'', lr_Actions = [], lr_Usage = zero_usage\<rparr>"

definition sample_router_env :: "int router_env" where
  "sample_router_env = \<lparr>re_now = (\<lambda>w. (w, w + 1)),
     re_call = (\<lambda>w c p. ((if cand_Name c = ''a'' then (None, Some (ErrHTTP \<lparr>he_StatusCode = 429, he_Body = []\<rparr>))
                          else (Some sample_answer, None)), w + 1)),
     re_retry_delay = (\<lambda>e. None), re_has_store = True, re_usage = (\<lambda>w k. (Some 0, w)), re_add_usage = (\<lambda>w k n. w), re_json = (\<lambda>a. None)\<rparr>"

definition sample_router_cfg :: router_cfg where
  "sample_router_cfg = \<lparr>rg_namedProviders = Map.empty, rg_globalPriority = [], rg_roleProviders = (\<lambda>r. []), rg_ensemble = (\<lambda>r. None),
     rg_buildable = (\<lambda>s m. True), rg_default = None, rg_removedRole = (\<lambda>r. False), rg_tokenUsageLimit = 0,
     rg_cooldownDuration = seconds 300, rg_adaptive = False\<rparr>"

definition new_router :: "int router" where
  "new_router = \<lparr>rt_world = 1, rt_cooldowns = Map.empty, rt_evictedUntil = Map.empty, rt_evictionReasons = Map.empty,
     rt_cache = Map.empty, rt_tracker = NewLatencyTracker, rt_log = []\<rparr>"

lemma sample_clock: "clock_forward sample_router_env"
  by (simp add: clock_forward_def sample_router_env_def)

theorem completion_tries_in_order_witness:
  "map (cand_Name \<circ> at_cand) (attempts_of (rt_log (snd (completeSequentially sample_router_env sample_router_cfg ''coder'' sample_candidates ''hi'' new_router))))
     = [''a'', ''b'']
   \<and> list_all allowed (attempts_of (rt_log (snd (completeSequentially sample_router_env sample_router_cfg ''coder'' sample_candidates ''hi'' new_router))))"
proof
  show "map (cand_Name \<circ> at_cand) (attempts_of (rt_log (snd (completeSequentially sample_router_env sample_router_cfg ''coder'' sample_candidates ''hi'' new_router))))
     = [''a'', ''b'']"
    by code_simp
  from completion_tries_in_order [OF sample_clock, of sample_router_cfg "''coder''" sample_candidates "''hi''" new_router]
  show "list_all allowed (attempts_of (rt_log (snd (completeSequentially sample_router_env sample_router_cfg ''coder'' sample_candidates ''hi'' new_router))))"
    unfolding list_all_iff by (metis (no_types, lifting) append_Nil new_router_def prod.collapse router.select_convs(7))
qed

section \<open>Facts on charges\<close>

fun charges_of :: "router_event list \<Rightarrow> (string \<times> int) list" where
  "charges_of [] = []"
| "charges_of (Charged k n # es) = (k, n) # charges_of es"
| "charges_of (_ # es) = charges_of es"

lemma charges_of_append [simp]: "charges_of (es @ fs) = charges_of es @ charges_of fs"
  by (induction es rule: charges_of.induct) simp_all

definition charges_for :: "'w router_env \<Rightarrow> string \<Rightarrow> RouterCandidate \<Rightarrow> LLMResponse option \<Rightarrow> (string \<times> int) list" where
  "charges_for env prompt c resp =
     (if resp = None \<or> \<not> re_has_store env then []
      else let n = estimateUsageTokens (re_json env) prompt resp
           in [(cand_Provider c, n)] @ (if cand_Name c = [] then [] else [(namedUsageKey (cand_Name c), n)]) @ [(''total'', n)])"

lemma recordTokenUsage_charges:
  "charges_of (rt_log (recordTokenUsage env p c resp r)) = charges_of (rt_log r) @ charges_for env p c resp"
  by (simp add: recordTokenUsage_def incrementUsage_def charges_for_def Let_def)

lemma check_logs:
  "rt_log (snd (isCandidateEvicted env c r)) = rt_log r" "rt_log (snd (isCandidateInCooldown env c r)) = rt_log r"
  by (simp_all add: isCandidateEvicted_def isCandidateInCooldown_def read_clock_eq split: option.split)

lemma try_candidates_charges:
  "try_candidates env g prompt cs lastErr r = (res, r') \<Longrightarrow>
     case res of
       Inl e \<Rightarrow> charges_of (rt_log r') = charges_of (rt_log r)
         \<and> (e = None \<longrightarrow> lastErr = None \<and> attempts_of (rt_log r') = attempts_of (rt_log r))
     | Inr resp \<Rightarrow> \<exists>c \<in> set cs. charges_of (rt_log r') = charges_of (rt_log r) @ charges_for env prompt c resp
         \<and> attempts_of (rt_log r') \<noteq> [] \<and> at_cand (last (attempts_of (rt_log r'))) = c"
proof (induction cs arbitrary: lastErr r)
  case Nil
  then show ?case by auto
next
  case (Cons c cs)
  obtain b r1 where ev: "isCandidateEvicted env c r = (b, r1)" by (metis surj_pair)
  obtain b2 r2 where cool: "isCandidateInCooldown env c r1 = (b2, r2)" by (metis surj_pair)
  obtain resp err r3 where call: "call_candidate env g prompt c r2 = ((resp, err), r3)" by (metis surj_pair)
  note eq = Cons.prems [unfolded try_candidates.simps ev cool call Let_def prod.case]
  have logs: "rt_log r1 = rt_log r" "rt_log r2 = rt_log r"
    using check_logs(1) [of env c r] check_logs(2) [of env c r1] by (simp_all add: ev cool)
  from call_candidate_log [OF call] logs have r3: "charges_of (rt_log r3) = charges_of (rt_log r)"
    "attempts_of (rt_log r3) \<noteq> []" "at_cand (last (attempts_of (rt_log r3))) = c" by simp_all
  show ?case
  proof (cases "b \<or> b2 \<or> err \<noteq> None")
    case True
    with eq consider "try_candidates env g prompt cs lastErr r1 = (res, r')"
      | "try_candidates env g prompt cs lastErr r2 = (res, r')"
      | e where "try_candidates env g prompt cs (Some e) (react env g c e r3) = (res, r')" by (auto split: if_splits option.splits)
    then show ?thesis
      by cases (use Cons.IH logs r3 in \<open>fastforce split: sum.splits\<close>)+
  next
    case False
    with eq have "res = Inr resp" "r' = recordTokenUsage env prompt c resp r3" by simp_all
    with r3 recordTokenUsage_log [of env prompt c resp r3] show ?thesis
      by (auto simp: recordTokenUsage_charges)
  qed
qed

lemma try_candidates_no_emergency:
  "try_candidates env g prompt cs lastErr r = (res, r') \<Longrightarrow> emergencies_of (rt_log r') = emergencies_of (rt_log r)"
proof (induction cs arbitrary: lastErr r)
  case (Cons c cs)
  obtain b r1 where ev: "isCandidateEvicted env c r = (b, r1)" by (metis surj_pair)
  obtain b2 r2 where cool: "isCandidateInCooldown env c r1 = (b2, r2)" by (metis surj_pair)
  obtain resp err r3 where call: "call_candidate env g prompt c r2 = ((resp, err), r3)" by (metis surj_pair)
  have logs: "rt_log r1 = rt_log r" "rt_log r2 = rt_log r"
    using check_logs(1) [of env c r] check_logs(2) [of env c r1] by (simp_all add: ev cool)
  from call_candidate_log [OF call] logs have "emergencies_of (rt_log r3) = emergencies_of (rt_log r)" by simp
  with logs Cons.prems [unfolded try_candidates.simps ev cool call Let_def prod.case] Cons.IH
    recordTokenUsage_log [of env prompt c resp r3] show ?case
    by (fastforce split: if_splits option.splits)
qed simp

text \<open>C29: An answered sequential completion (\<open>completeSequentially\<close>, the path without hedging) charges the estimate of its prompt and
  answer exactly once to the provider, the named entry and the total of the candidate that answered, and a failed one charges nothing. An answer to
  an emergency call is returned without any charge, so it does not count for the daily limits.\<close>

theorem completion_charges:
  assumes "completeSequentially env g role cs prompt r = ((resp, err), r')" and "rt_log r = []"
  shows "charges_of (rt_log r') = (if err \<noteq> None \<or> emergencies_of (rt_log r') \<noteq> [] then []
      else charges_for env prompt (at_cand (last (attempts_of (rt_log r')))) resp)
    \<and> (err = None \<longrightarrow> emergencies_of (rt_log r') \<noteq> [] \<or> attempts_of (rt_log r') \<noteq> [])"
proof -
  obtain res r1 where pass: "try_candidates env g prompt cs None r = (res, r1)" by (metis surj_pair)
  note charges = try_candidates_charges [OF pass]
  have noem: "emergencies_of (rt_log r1) = []" using pass assms(2) by (metis emergencies_of.simps(1) try_candidates_no_emergency)
  note eq = assms(1) [unfolded completeSequentially_def pass Let_def prod.case]
  show ?thesis
  proof (cases res)
    case (Inr x)
    with eq charges noem assms(2) show ?thesis by auto
  next
    case (Inl e)
    show ?thesis
    proof (cases e)
      case (Some e')
      with eq charges noem assms(2) Inl show ?thesis by auto
    next
      case None
      obtain best r2 where best: "(if cs = [] then (None, r1) else selectEmergencyRecoveryCandidate env cs r1) = (best, r2)"
        by (metis surj_pair)
      then have log2: "rt_log r2 = rt_log r1"
        by (auto simp: selectEmergencyRecoveryCandidate_def read_clock_eq split: if_splits)
      note eq = eq [unfolded Inl None best, simplified]
      from eq log2 charges noem assms(2) Inl None show ?thesis
        by (cases best) (auto simp: emergency_def read_clock_eq Let_def split: option.splits if_splits prod.splits)
    qed
  qed
qed

text \<open>All candidates on cooldown: the answer of the emergency call is not charged; without cooldowns it is.\<close>

definition cooling_router :: "int router" where
  "cooling_router = new_router\<lparr>rt_cooldowns := (\<lambda>n. Some 1000)\<rparr>"

theorem completion_charges_witness:
  "charges_of (rt_log (snd (completeSequentially sample_router_env sample_router_cfg ''coder'' (tl sample_candidates) ''prompt''
       cooling_router))) = []
   \<and> map fst (charges_of (rt_log (snd (completeSequentially sample_router_env sample_router_cfg ''coder'' (tl sample_candidates) ''prompt'' new_router))))
       = [''x'', ''named:b'', ''total'']"
proof
  have em: "emergencies_of (rt_log (snd (completeSequentially sample_router_env sample_router_cfg ''coder'' (tl sample_candidates) ''prompt''
       cooling_router))) \<noteq> []" by code_simp
  obtain resp err r' where run: "completeSequentially sample_router_env sample_router_cfg ''coder'' (tl sample_candidates) ''prompt''
       cooling_router = ((resp, err), r')" by (metis surj_pair)
  have "rt_log cooling_router = []" by (simp add: cooling_router_def new_router_def)
  from completion_charges [OF run this] em show "charges_of (rt_log (snd (completeSequentially sample_router_env sample_router_cfg ''coder''
      (tl sample_candidates) ''prompt'' cooling_router))) = []"
    by (simp add: run)
  show "map fst (charges_of (rt_log (snd (completeSequentially sample_router_env sample_router_cfg ''coder'' (tl sample_candidates) ''prompt'' new_router))))
       = [''x'', ''named:b'', ''total'']"
    by code_simp
qed

end
