(* ===== verification/Llm_Hedging.thy ===== *)
theory Llm_Hedging
  imports Llm_Router
begin

text \<open>
  Speculative hedging, \<open>completeWithHedging\<close> of \<open>src/pkg/infrastructure/llm/router_hedging.go\<close>, with the
  delays of \<open>router_provider_overrides.go\<close> and \<open>hedging_types.go\<close> in \<open>src/pkg/infrastructure/config\<close>. The first
  candidate is asked at once, the second when the delay is over or the first has failed; the first success
  wins. The \<open>select\<close> over the timer, the results and the context is a step per event; which event comes
  next is open, except that only a request under way can deliver a result. \<open>hd_pending1\<close> and
  \<open>hd_pending2\<close> say which requests are under way.
\<close>

section \<open>Delays\<close>

record HedgingConfig =
  hc_Enabled :: "bool option"
  hc_Delay :: int
  hc_HeavyDelay :: int

definition IsEnabled :: "HedgingConfig \<Rightarrow> bool" where
  "IsEnabled h = (case hc_Enabled h of None \<Rightarrow> True | Some b \<Rightarrow> b)"

definition GetDelay :: "HedgingConfig \<Rightarrow> int" where
  "GetDelay h = (if hc_Delay h > 0 then hc_Delay h else seconds 25)"

definition GetHeavyDelay :: "HedgingConfig \<Rightarrow> int" where
  "GetHeavyDelay h = (if hc_HeavyDelay h > 0 then hc_HeavyDelay h else seconds 90)"

definition DefaultHedgeDelay :: int where
  "DefaultHedgeDelay = seconds 25"

text \<open>The delay of a new router: negative disables hedging.\<close>

definition router_hedge_delay :: "HedgingConfig \<Rightarrow> int" where
  "router_hedge_delay global = (if \<not> IsEnabled global then -1 else GetDelay global)"

text \<open>\<open>own\<close> is the hedging block of the named provider, if it has one.\<close>

definition hedgeDelayFor :: "HedgingConfig \<Rightarrow> int \<Rightarrow> HedgingConfig option \<Rightarrow> int" where
  "hedgeDelayFor global base own =
     (case own of None \<Rightarrow> base
      | Some h \<Rightarrow>
          if hc_Enabled h = Some False then -1
          else if hc_Delay h > 0 then hc_Delay h
          else if base < 0 \<and> hc_Enabled h = Some True then GetDelay global
          else base)"

definition heavyHedgeDelayFor :: "HedgingConfig \<Rightarrow> HedgingConfig option \<Rightarrow> int" where
  "heavyHedgeDelayFor global own =
     (case own of Some h \<Rightarrow> if hc_HeavyDelay h > 0 then hc_HeavyDelay h else GetHeavyDelay global
      | None \<Rightarrow> GetHeavyDelay global)"

definition isHeavyBatchRole :: "string \<Rightarrow> bool" where
  "isHeavyBatchRole role \<longleftrightarrow>
     ToLower (TrimSpace role) \<in> {''product_manager'', ''fallback'', ''sovereign_rescue'', ''qa'', ''spec''}"

definition prompt_delay :: "int \<Rightarrow> int" where
  "prompt_delay promptTokens =
     (if promptTokens > 4000
      then (let extra = seconds ((promptTokens - 4000) div 2000) in if extra > seconds 60 then seconds 60 else extra)
      else 0)"

definition adapted_delay :: "int \<Rightarrow> int \<Rightarrow> int \<Rightarrow> int" where
  "adapted_delay penalty timeouts d =
     (if penalty > 0 \<or> timeouts > 0 then
        let target = (if penalty \<ge> 3 \<or> timeouts \<ge> 3 then seconds 1
                      else if penalty \<ge> 2 \<or> timeouts \<ge> 2 then seconds 3 else seconds 10);
            factor = (if penalty * 2 < 2 then 2 else penalty * 2);
            target' = (if d \<le> target then (if d div factor < 10 ^ 6 then 10 ^ 6 else d div factor) else target)
        in if target' < d then target' else d
      else d)"

definition hedge_delay :: "string \<Rightarrow> int \<Rightarrow> int \<Rightarrow> int \<Rightarrow> int \<Rightarrow> int \<Rightarrow> int" where
  "hedge_delay role heavyDelay promptTokens penalty timeouts delay0 =
     (let d1 = (if delay0 = 0 then DefaultHedgeDelay else delay0);
          d2 = (if isHeavyBatchRole role \<and> d1 < heavyDelay then heavyDelay else d1)
      in adapted_delay penalty timeouts (d2 + prompt_delay promptTokens))"

section \<open>The loop over events\<close>

datatype hedge_event = TimerFired bool | PrimaryDone completion int | SecondaryDone completion int | CtxDone go_error

record 'w hedge =
  hd_router :: "'w router"
  hd_secondaryLaunched :: bool
  hd_failures :: nat
  hd_pending1 :: bool
  hd_pending2 :: bool

definition recordCandidateOutcome :: "'w router_env \<Rightarrow> router_cfg \<Rightarrow> RouterCandidate \<Rightarrow> int \<Rightarrow> go_error option \<Rightarrow> 'w router \<Rightarrow> 'w router" where
  "recordCandidateOutcome env g c dur err r =
     (let r1 = record_latency env g c dur err r
      in (case err of None \<Rightarrow> r1 | Some e \<Rightarrow> react env g c e r1))"

definition hedge_start :: "'w router \<Rightarrow> 'w hedge" where
  "hedge_start r = \<lparr>hd_router = r, hd_secondaryLaunched = False, hd_failures = 0, hd_pending1 = True, hd_pending2 = False\<rparr>"

definition launch_secondary :: "'w hedge \<Rightarrow> 'w hedge" where
  "launch_secondary h = (if hd_secondaryLaunched h then h else h\<lparr>hd_secondaryLaunched := True, hd_pending2 := True\<rparr>)"

text \<open>A result of candidate \<open>c\<close>; \<open>Some\<close> is the return of the function.\<close>

definition handle_result :: "'w router_env \<Rightarrow> router_cfg \<Rightarrow> string \<Rightarrow> string \<Rightarrow> RouterCandidate list \<Rightarrow> RouterCandidate
    \<Rightarrow> completion \<Rightarrow> int \<Rightarrow> 'w hedge \<Rightarrow> 'w hedge \<times> completion option" where
  "handle_result env g role prompt cs c res dur h =
     (let primary = cs ! 0; secondary = cs ! 1;
          r1 = recordCandidateOutcome env g c dur (snd res) (hd_router h)
      in if snd res = None \<and> fst res \<noteq> None then
           (let r2 = recordTokenUsage env prompt c (fst res) r1;
                other = (if cand_Name c = cand_Name secondary then primary else secondary);
                r3 = (if hd_secondaryLaunched h then recordPromptTokenUsage env prompt other r2 else r2)
            in (h\<lparr>hd_router := r3\<rparr>, Some (fst res, None)))
         else
           (let h1 = h\<lparr>hd_router := r1, hd_failures := hd_failures h + 1\<rparr>;
                h2 = (if cand_Name c = cand_Name primary then launch_secondary h1 else h1)
            in if hd_failures h2 \<ge> 2 \<or> (\<not> hd_secondaryLaunched h2 \<and> hd_failures h2 \<ge> 1) then
                 (if length cs > 2
                  then let (out, r2) = completeSequentially env g role (drop 2 cs) prompt r1 in (h2\<lparr>hd_router := r2\<rparr>, Some out)
                  else (h2, Some (None, Some (ErrText (''both primary '' @ quoted (cand_Name primary) @ '' and secondary ''
                          @ quoted (cand_Name secondary) @ '' failed in speculative hedge'')))))
               else (h2, None)))"

definition on_event :: "'w router_env \<Rightarrow> router_cfg \<Rightarrow> string \<Rightarrow> string \<Rightarrow> RouterCandidate list \<Rightarrow> 'w hedge \<Rightarrow> hedge_event
    \<Rightarrow> 'w hedge \<times> completion option" where
  "on_event env g role prompt cs h ev =
     (case ev of
        TimerFired active \<Rightarrow> (if active then h else launch_secondary h, None)
      | PrimaryDone res dur \<Rightarrow> handle_result env g role prompt cs (cs ! 0) res dur (h\<lparr>hd_pending1 := False\<rparr>)
      | SecondaryDone res dur \<Rightarrow> handle_result env g role prompt cs (cs ! 1) res dur (h\<lparr>hd_pending2 := False\<rparr>)
      | CtxDone e \<Rightarrow> (h, Some (None, Some e)))"

fun can_happen :: "'w hedge \<Rightarrow> hedge_event \<Rightarrow> bool" where
  "can_happen h (PrimaryDone res dur) = hd_pending1 h"
| "can_happen h (SecondaryDone res dur) = hd_pending2 h"
| "can_happen h _ = True"

text \<open>The states in which the loop waits for the next event.\<close>

inductive waiting :: "'w router_env \<Rightarrow> router_cfg \<Rightarrow> string \<Rightarrow> string \<Rightarrow> RouterCandidate list \<Rightarrow> 'w router \<Rightarrow> 'w hedge \<Rightarrow> bool"
  for env :: "'w router_env" and g role prompt cs r where
  waiting_start: "waiting env g role prompt cs r (hedge_start r)"
| waiting_step: "waiting env g role prompt cs r h \<Longrightarrow> can_happen h ev \<Longrightarrow> on_event env g role prompt cs h ev = (h', None)
    \<Longrightarrow> waiting env g role prompt cs r h'"

text \<open>The whole function on a sequence of events, for the entry in \<open>router_Complete\<close>: \<open>None\<close> while it waits.\<close>

fun hedge_run :: "'w router_env \<Rightarrow> router_cfg \<Rightarrow> string \<Rightarrow> string \<Rightarrow> RouterCandidate list \<Rightarrow> hedge_event list \<Rightarrow> 'w hedge
    \<Rightarrow> (completion \<times> 'w router) option" where
  "hedge_run env g role prompt cs [] h = None"
| "hedge_run env g role prompt cs (ev # evs) h =
     (case on_event env g role prompt cs h ev of
        (h', Some out) \<Rightarrow> Some (out, hd_router h')
      | (h', None) \<Rightarrow> hedge_run env g role prompt cs evs h')"

definition completeWithHedging :: "'w router_env \<Rightarrow> router_cfg \<Rightarrow> int \<Rightarrow> string \<Rightarrow> RouterCandidate list \<Rightarrow> string
    \<Rightarrow> hedge_event list \<Rightarrow> 'w router \<Rightarrow> (completion \<times> 'w router) option" where
  "completeWithHedging env g delay role cs prompt evs r =
     (if length cs < 2 \<or> delay < 0 then Some (completeSequentially env g role cs prompt r)
      else hedge_run env g role prompt cs evs (hedge_start r))"

section \<open>Facts on delays\<close>

lemma prompt_delay_bounds: "0 \<le> prompt_delay n \<and> prompt_delay n \<le> seconds 60"
  by (auto simp: prompt_delay_def seconds_def Let_def)

lemma adapted_delay_bounds:
  assumes "0 < d"
  shows "0 < adapted_delay p t d \<and> adapted_delay p t d \<le> d \<and> (0 < p \<or> 0 < t \<longrightarrow> adapted_delay p t d \<le> seconds 10)"
proof -
  have "d div 2 \<le> d" "1 \<le> p \<longrightarrow> d div (p * 2) \<le> d" using assms zdiv_mono2 [of d 1 2] zdiv_mono2 [of d 1 "p * 2"] by auto
  with assms show ?thesis by (auto simp: adapted_delay_def Let_def seconds_def)
qed

lemma adapted_delay_0: "adapted_delay 0 0 d = d"
  by (simp add: adapted_delay_def)

text \<open>The hedge delay is positive, so a timer always runs; memory of time-outs only shortens it,
  to ten seconds at most, and the size of the prompt adds at most a minute.\<close>

theorem hedge_delay_bounds:
  assumes "0 \<le> d" "0 \<le> heavy"
  shows "0 < hedge_delay role heavy n p t d \<and> hedge_delay role heavy n p t d \<le> hedge_delay role heavy n 0 0 d
    \<and> (0 < p \<or> 0 < t \<longrightarrow> hedge_delay role heavy n p t d \<le> seconds 10)
    \<and> hedge_delay role heavy n 0 0 d \<le> max heavy (if d = 0 then DefaultHedgeDelay else d) + seconds 60"
proof -
  define d1 where "d1 = (if d = 0 then DefaultHedgeDelay else d)"
  define d2 where "d2 = (if isHeavyBatchRole role \<and> d1 < heavy then heavy else d1)"
  have "0 < d1" using assms by (simp add: d1_def DefaultHedgeDelay_def seconds_def)
  then have d2: "0 < d2 + prompt_delay n" "d2 + prompt_delay n \<le> max heavy d1 + seconds 60"
    using prompt_delay_bounds [of n] by (auto simp: d2_def)
  have eq: "hedge_delay role heavy n p t d = adapted_delay p t (d2 + prompt_delay n)" for p t
    by (simp only: hedge_delay_def d1_def d2_def Let_def)
  show ?thesis unfolding eq adapted_delay_0 d1_def [symmetric] using adapted_delay_bounds [OF d2(1), of p t] d2(2) by blast
qed

theorem hedge_delay_bounds_witness:
  "hedge_delay ''coder'' (seconds 90) 1000 1 1 0 = seconds 10 \<and> 0 < hedge_delay ''coder'' (seconds 90) 1000 1 1 0"
proof
  show "hedge_delay ''coder'' (seconds 90) 1000 1 1 0 = seconds 10" by code_simp
  show "0 < hedge_delay ''coder'' (seconds 90) 1000 1 1 0"
    using hedge_delay_bounds [of 0 "seconds 90" "''coder''" 1000 1 1] by (simp add: seconds_def)
qed

section \<open>Facts on the loop\<close>

inductive_cases waitingE: "waiting env g role prompt cs r h"

lemma handle_result_waits:
  assumes "handle_result env g role prompt cs c res dur h = (h', None)"
  shows "hd_failures h' = Suc (hd_failures h) \<and> hd_failures h' \<le> 1 \<and> hd_secondaryLaunched h'
    \<and> hd_pending1 h' = hd_pending1 h
    \<and> hd_pending2 h' = (if hd_secondaryLaunched h then hd_pending2 h else True)"
  using assms by (simp add: handle_result_def launch_secondary_def Let_def case_prod_beta split: if_splits) auto

text \<open>Requests started so far and not failed are under way.\<close>

definition hedge_inv :: "'w hedge \<Rightarrow> bool" where
  "hedge_inv h \<longleftrightarrow> hd_failures h \<le> 1
     \<and> hd_failures h = (if hd_pending1 h then 0 else 1) + (if hd_secondaryLaunched h \<and> \<not> hd_pending2 h then 1 else 0)
     \<and> (hd_pending2 h \<longrightarrow> hd_secondaryLaunched h) \<and> (\<not> hd_pending1 h \<longrightarrow> hd_secondaryLaunched h)"

lemma hedge_inv_launch: "hedge_inv h \<Longrightarrow> hedge_inv (launch_secondary h)"
  by (auto simp: hedge_inv_def launch_secondary_def split: if_splits)

lemma waiting_inv: "waiting env g role prompt cs r h \<Longrightarrow> hedge_inv h"
proof (induction rule: waiting.induct)
  case waiting_start
  then show ?case by (simp add: hedge_inv_def hedge_start_def)
next
  case (waiting_step h ev h')
  show ?case
  proof (cases ev)
    case (TimerFired active)
    with waiting_step(3) have "h' = (if active then h else launch_secondary h)" by (simp add: on_event_def)
    with waiting_step(4) show ?thesis by (simp add: hedge_inv_launch)
  next
    case (PrimaryDone res dur)
    with waiting_step(3) have "handle_result env g role prompt cs (cs ! 0) res dur (h\<lparr>hd_pending1 := False\<rparr>) = (h', None)"
      by (simp add: on_event_def)
    from handle_result_waits [OF this] waiting_step PrimaryDone show ?thesis
      by (auto simp: hedge_inv_def split: if_splits)
  next
    case (SecondaryDone res dur)
    with waiting_step(3) have "handle_result env g role prompt cs (cs ! 1) res dur (h\<lparr>hd_pending2 := False\<rparr>) = (h', None)"
      by (simp add: on_event_def)
    from handle_result_waits [OF this] waiting_step SecondaryDone show ?thesis
      by (auto simp: hedge_inv_def split: if_splits)
  next
    case (CtxDone e)
    with waiting_step show ?thesis by (simp add: on_event_def)
  qed
qed

text \<open>C31: The hedging loop never waits for nothing: whenever it goes on, a request is under way whose
  result it will take. At most two requests are made, the second request is under way or done
  only if it was launched, and after at most one failure the second result ends the loop, so three
  results cannot be needed.\<close>

theorem hedge_never_waits_for_nothing:
  assumes "waiting env g role prompt cs r h"
  shows "(hd_pending1 h \<or> hd_pending2 h) \<and> hd_failures h \<le> 1 \<and> (hd_pending2 h \<longrightarrow> hd_secondaryLaunched h)
    \<and> (hd_failures h = 1 \<longrightarrow>
        (\<forall>res dur. hd_pending1 h \<longrightarrow> snd (on_event env g role prompt cs h (PrimaryDone res dur)) \<noteq> None)
      \<and> (\<forall>res dur. hd_pending2 h \<longrightarrow> snd (on_event env g role prompt cs h (SecondaryDone res dur)) \<noteq> None))"
proof -
  from waiting_inv [OF assms] have inv: "hedge_inv h" .
  have ends: "snd (handle_result env g role prompt cs c res dur k) \<noteq> None" if "hd_failures k = 1" for c res dur k
  proof
    assume "snd (handle_result env g role prompt cs c res dur k) = None"
    then have "handle_result env g role prompt cs c res dur k = (fst (handle_result env g role prompt cs c res dur k), None)"
      by (simp add: prod_eq_iff)
    from handle_result_waits [OF this] have "hd_failures (fst (handle_result env g role prompt cs c res dur k)) = Suc (hd_failures k)"
      "hd_failures (fst (handle_result env g role prompt cs c res dur k)) \<le> 1" by blast+
    with that show False by simp
  qed
  have "snd (on_event env g role prompt cs h (PrimaryDone res dur)) \<noteq> None"
    "snd (on_event env g role prompt cs h (SecondaryDone res dur)) \<noteq> None" if "hd_failures h = 1" for res dur
    using ends [of "h\<lparr>hd_pending1 := False\<rparr>"] ends [of "h\<lparr>hd_pending2 := False\<rparr>"] that
    by (simp_all add: on_event_def del: not_None_eq)
  moreover from inv have "(hd_pending1 h \<or> hd_pending2 h) \<and> hd_failures h \<le> 1 \<and> (hd_pending2 h \<longrightarrow> hd_secondaryLaunched h)"
    by (auto simp: hedge_inv_def split: if_splits)
  ultimately show ?thesis by blast
qed

lemma first_failure_goes_on:
  "hd_secondaryLaunched h \<Longrightarrow> hd_failures h = 0 \<Longrightarrow>
     handle_result env g role prompt cs c (None, Some e) dur h
       = (h\<lparr>hd_router := recordCandidateOutcome env g c dur (Some e) (hd_router h), hd_failures := 1\<rparr>, None)"
  by (simp add: handle_result_def launch_secondary_def Let_def)

text \<open>The delay is over, the second candidate fails first, and the answer of the first one is taken.\<close>

definition failed_reply :: completion where
  "failed_reply = (None, Some (ErrText ''no''))"

definition hedged_state :: "int hedge" where
  "hedged_state = fst (on_event sample_router_env sample_router_cfg ''coder'' ''hi'' (tl sample_candidates)
     (launch_secondary (hedge_start new_router)) (SecondaryDone failed_reply 5))"

theorem hedge_never_waits_for_nothing_witness:
  "hd_pending1 hedged_state \<and> hd_failures hedged_state = 1
   \<and> snd (on_event sample_router_env sample_router_cfg ''coder'' ''hi'' (tl sample_candidates) hedged_state
        (PrimaryDone (Some sample_answer, None) 7)) \<noteq> None"
proof -
  let ?cs = "tl sample_candidates"
  have "waiting sample_router_env sample_router_cfg ''coder'' ''hi'' ?cs new_router (launch_secondary (hedge_start new_router))"
    by (rule waiting_step [OF waiting_start, where ev = "TimerFired False"]) (simp_all add: on_event_def)
  moreover have "hd_pending2 (launch_secondary (hedge_start new_router))" by (simp add: launch_secondary_def hedge_start_def)
  moreover have step: "on_event sample_router_env sample_router_cfg ''coder'' ''hi'' ?cs (launch_secondary (hedge_start new_router))
      (SecondaryDone failed_reply 5) = (hedged_state, None)"
    and "hd_pending1 hedged_state" "hd_failures hedged_state = 1"
    by (simp_all add: hedged_state_def on_event_def failed_reply_def launch_secondary_def hedge_start_def first_failure_goes_on)
  ultimately have w: "waiting sample_router_env sample_router_cfg ''coder'' ''hi'' ?cs new_router hedged_state"
    by (elim waiting_step) simp_all
  with hedge_never_waits_for_nothing [OF w] \<open>hd_pending1 hedged_state\<close> \<open>hd_failures hedged_state = 1\<close> show ?thesis by blast
qed

end
