(* ===== verification/Llm_Failover.thy ===== *)
theory Llm_Failover
  imports Llm_Errors
begin

text \<open>
  The client that switches between backends, \<open>FailoverClient\<close> of
  \<open>src/pkg/infrastructure/llm/failover_client.go\<close>, and the budget store it counts tokens in,
  \<open>sqlite_budget.go\<close> of \<open>src/pkg/infrastructure/storage\<close>. The client sees the store through the locale
  \<open>budget_store\<close>; the SQLite store is its interpretation. The backends and the clock are the environment over a
  world \<open>'w\<close>, the store has a state \<open>'b\<close> of its own. Every call of a backend is logged with what the store
  said before it. Messages and trace spans are left out; the database keeps integers below \<open>2 ^ 63\<close>.
\<close>

section \<open>The budget store\<close>

text \<open>\<open>usage\<close> is the content: tokens per day and key. A faulty read gives no number, a faulty write changes nothing.\<close>

locale budget_store =
  fixes get :: "'b \<Rightarrow> string \<Rightarrow> string \<Rightarrow> int option \<times> 'b"
    and inc :: "'b \<Rightarrow> string \<Rightarrow> string \<Rightarrow> int \<Rightarrow> bool \<times> 'b"
    and usage :: "'b \<Rightarrow> string \<Rightarrow> string \<Rightarrow> int"
  assumes get_content: "usage (snd (get b d k)) = usage b"
    and get_value: "fst (get b d k) = Some u \<Longrightarrow> u = usage b d k"
    and inc_content: "usage (snd (inc b d k n)) d' k' = (if fst (inc b d k n) \<and> d' = d \<and> k' = k then usage b d k + n else usage b d' k')"

text \<open>The SQLite table \<open>budget_usage\<close> with its primary key; \<open>bd_faults\<close> says which of the coming
  statements fail.\<close>

record budget_db =
  bd_rows :: "string \<times> string \<rightharpoonup> int"
  bd_faults :: "bool list"

definition statement_ok :: "budget_db \<Rightarrow> bool \<times> budget_db" where
  "statement_ok b = (case bd_faults b of [] \<Rightarrow> (True, b) | f # fs \<Rightarrow> (\<not> f, b\<lparr>bd_faults := fs\<rparr>))"

definition GetDailyUsage :: "budget_db \<Rightarrow> string \<Rightarrow> string \<Rightarrow> int option \<times> budget_db" where
  "GetDailyUsage b date provider =
     (let (ok, b1) = statement_ok b
      in (if ok then Some (case bd_rows b (date, provider) of None \<Rightarrow> 0 | Some n \<Rightarrow> n) else None, b1))"

definition IncrementUsage :: "budget_db \<Rightarrow> string \<Rightarrow> string \<Rightarrow> int \<Rightarrow> bool \<times> budget_db" where
  "IncrementUsage b date provider tokens =
     (let (ok, b1) = statement_ok b
      in if ok
         then (True, b1\<lparr>bd_rows := (bd_rows b1)((date, provider) \<mapsto>
                 (case bd_rows b1 (date, provider) of None \<Rightarrow> tokens | Some n \<Rightarrow> n + tokens))\<rparr>)
         else (False, b1))"

definition stored_usage :: "budget_db \<Rightarrow> string \<Rightarrow> string \<Rightarrow> int" where
  "stored_usage b date provider = (case bd_rows b (date, provider) of None \<Rightarrow> 0 | Some n \<Rightarrow> n)"

interpretation sqlite_budget: budget_store GetDailyUsage IncrementUsage stored_usage
proof
  have rows: "bd_rows (snd (statement_ok b)) = bd_rows b" for b by (simp add: statement_ok_def split: list.split)
  show "stored_usage (snd (GetDailyUsage b d k)) = stored_usage b" for b d k
    using rows [of b] by (simp add: GetDailyUsage_def stored_usage_def fun_eq_iff case_prod_beta)
  show "u = stored_usage b d k" if "fst (GetDailyUsage b d k) = Some u" for b d k u
    using that by (simp add: GetDailyUsage_def stored_usage_def case_prod_beta split: if_splits)
  show "stored_usage (snd (IncrementUsage b d k n)) d' k'
      = (if fst (IncrementUsage b d k n) \<and> d' = d \<and> k' = k then stored_usage b d k + n else stored_usage b d' k')" for b d k n d' k'
    using rows [of b] by (simp add: IncrementUsage_def stored_usage_def case_prod_beta split: option.split)
qed

text \<open>A store that has no faults as long as it is healthy.\<close>

locale reliable_store = budget_store get inc usage
  for get :: "'b \<Rightarrow> string \<Rightarrow> string \<Rightarrow> int option \<times> 'b" and inc and usage +
  fixes healthy :: "'b \<Rightarrow> bool"
  assumes get_healthy: "healthy b \<Longrightarrow> healthy (snd (get b d k))"
    and inc_healthy: "healthy b \<Longrightarrow> fst (inc b d k n) \<and> healthy (snd (inc b d k n))"

interpretation sqlite_reliable: reliable_store GetDailyUsage IncrementUsage stored_usage "\<lambda>b. bd_faults b = []"
  by unfold_locales (simp_all add: GetDailyUsage_def IncrementUsage_def statement_ok_def)

section \<open>The failover client\<close>

record NamedClient =
  nc_Name :: string
  nc_Model :: string

record ('w, 'b) failover_env =
  fe_now :: "'w \<Rightarrow> int \<times> 'w"
  fe_today :: "'w \<Rightarrow> string \<times> 'w"
  fe_call :: "'w \<Rightarrow> NamedClient \<Rightarrow> string \<Rightarrow> completion \<times> 'w"
  fe_has_store :: bool
  fe_get :: "'b \<Rightarrow> string \<Rightarrow> string \<Rightarrow> int option \<times> 'b"
  fe_inc :: "'b \<Rightarrow> string \<Rightarrow> string \<Rightarrow> int \<Rightarrow> bool \<times> 'b"
  fe_json :: "(string \<times> gany) list \<Rightarrow> string option"

text \<open>A backend call: backend, prompt, day, the store at that time, the end of a cooldown and the
  time it was compared with, the result.\<close>

record 'b backend_call =
  bc_backend :: NamedClient
  bc_prompt :: string
  bc_day :: string
  bc_store :: 'b
  bc_cool :: "int option"
  bc_now :: int
  bc_result :: completion

record ('w, 'b) FailoverClient =
  fc_backends :: "NamedClient list"
  fc_cooldowns :: "string \<rightharpoonup> int"
  fc_duration :: int
  fc_maxCallBudget :: int
  fc_callCount :: int
  fc_tokenLimit :: int
  fc_world :: 'w
  fc_store :: 'b
  fc_log :: "'b backend_call list"

definition NewFailoverClient :: "NamedClient list \<Rightarrow> int \<Rightarrow> int \<Rightarrow> int \<Rightarrow> 'w \<Rightarrow> 'b \<Rightarrow> ('w, 'b) FailoverClient" where
  "NewFailoverClient backends cooldownDuration maxCalls tokenLimit w b =
     \<lparr>fc_backends = backends, fc_cooldowns = Map.empty,
      fc_duration = (if cooldownDuration \<le> 0 then 300 * 10 ^ 9 else cooldownDuration),
      fc_maxCallBudget = maxCalls, fc_callCount = 0, fc_tokenLimit = tokenLimit, fc_world = w, fc_store = b, fc_log = []\<rparr>"

definition checkBudget :: "('w, 'b) failover_env \<Rightarrow> string \<Rightarrow> string \<Rightarrow> int \<Rightarrow> ('w, 'b) FailoverClient
    \<Rightarrow> go_error option \<times> ('w, 'b) FailoverClient" where
  "checkBudget env date model pending f =
     (if \<not> fe_has_store env \<or> fc_tokenLimit f \<le> 0 then (None, f)
      else let (used, b) = fe_get env (fc_store f) date model; f1 = f\<lparr>fc_store := b\<rparr>
           in (case used of
                 None \<Rightarrow> (Some (ErrText ''token usage check''), f1)
               | Some u \<Rightarrow>
                   (if wrap64 (u + pending) > fc_tokenLimit f
                    then (Some (ErrWrap [] ErrBudgetExhausted ('': daily token limit '' @ fmt_d (fc_tokenLimit f)
                            @ '' exhausted for '' @ model)), f1)
                    else (None, f1))))"

definition recordUsage :: "('w, 'b) failover_env \<Rightarrow> string \<Rightarrow> string \<Rightarrow> string \<Rightarrow> LLMResponse option \<Rightarrow> ('w, 'b) FailoverClient
    \<Rightarrow> go_error option \<times> ('w, 'b) FailoverClient" where
  "recordUsage env date model prompt resp f =
     (let total = estimateUsageTokens (fe_json env) prompt resp
      in if \<not> fe_has_store env \<or> total \<le> 0 then (None, f)
         else let (ok, b) = fe_inc env (fc_store f) date model total
              in (if ok then None else Some (ErrText ''failed to record token usage''), f\<lparr>fc_store := b\<rparr>))"

text \<open>The test of the cooldown reads the clock only if there is one.\<close>

definition on_cooldown :: "('w, 'b) failover_env \<Rightarrow> NamedClient \<Rightarrow> ('w, 'b) FailoverClient \<Rightarrow> bool \<times> int \<times> ('w, 'b) FailoverClient" where
  "on_cooldown env nc f =
     (case fc_cooldowns f (nc_Name nc) of
        None \<Rightarrow> (False, 0, f)
      | Some u \<Rightarrow> (let (now, w) = fe_now env (fc_world f) in (now < u, now, f\<lparr>fc_world := w\<rparr>)))"

fun try_backends :: "('w, 'b) failover_env \<Rightarrow> string \<Rightarrow> string \<Rightarrow> NamedClient list \<Rightarrow> go_error option \<Rightarrow> ('w, 'b) FailoverClient
    \<Rightarrow> completion \<times> ('w, 'b) FailoverClient" where
  "try_backends env date prompt [] lastErr f =
     ((None, Some (case lastErr of
                     Some e \<Rightarrow> ErrWrap ''all LLM backends failed. Last error: '' e []
                   | None \<Rightarrow> ErrText ''no LLM backends available'')), f)"
| "try_backends env date prompt (nc # ncs) lastErr f =
     (let (cooling, now, f1) = on_cooldown env nc f
      in if cooling then try_backends env date prompt ncs lastErr f1
         else let (err, f2) = checkBudget env date (nc_Model nc) (estimatePromptTokens prompt) f1
              in (case err of
                    Some e \<Rightarrow> try_backends env date prompt ncs (Some e) f2
                  | None \<Rightarrow>
                      (let (res, w) = fe_call env (fc_world f2) nc prompt;
                           f3 = f2\<lparr>fc_world := w, fc_log := fc_log f2 @
                             [\<lparr>bc_backend = nc, bc_prompt = prompt, bc_day = date, bc_store = fc_store f1,
                               bc_cool = fc_cooldowns f1 (nc_Name nc), bc_now = now, bc_result = res\<rparr>]\<rparr>
                       in (case snd res of
                             None \<Rightarrow>
                               (let (err, f4) = recordUsage env date (nc_Model nc) prompt (fst res) f3
                                in (case err of None \<Rightarrow> ((fst res, None), f4) | Some e \<Rightarrow> ((None, Some e), f4)))
                           | Some e \<Rightarrow>
                               (let f4 = (if isTransientError (Some e)
                                          then let (t, w) = fe_now env (fc_world f3)
                                               in f3\<lparr>fc_world := w, fc_cooldowns := (fc_cooldowns f3)(nc_Name nc \<mapsto> t + fc_duration f3)\<rparr>
                                          else f3)
                                in try_backends env date prompt ncs (Some e) f4)))))"

definition failover_Complete :: "('w, 'b) failover_env \<Rightarrow> string \<Rightarrow> ('w, 'b) FailoverClient \<Rightarrow> completion \<times> ('w, 'b) FailoverClient" where
  "failover_Complete env prompt f =
     (if fc_maxCallBudget f > 0 \<and> fc_callCount f \<ge> fc_maxCallBudget f
      then ((None, Some (ErrWrap [] ErrBudgetExhausted ('': reached limit of '' @ fmt_d (fc_maxCallBudget f) @ '' calls''))), f)
      else let f1 = (if fc_maxCallBudget f > 0 then f\<lparr>fc_callCount := fc_callCount f + 1\<rparr> else f);
               (date, w) = fe_today env (fc_world f1)
           in try_backends env date prompt (fc_backends f1) None (f1\<lparr>fc_world := w\<rparr>))"

text \<open>A sequence of completions.\<close>

definition failover_run :: "('w, 'b) failover_env \<Rightarrow> string list \<Rightarrow> ('w, 'b) FailoverClient \<Rightarrow> ('w, 'b) FailoverClient" where
  "failover_run env prompts f = foldl (\<lambda>f p. snd (failover_Complete env p f)) f prompts"

section \<open>Facts for every store\<close>

definition cooled :: "'b backend_call \<Rightarrow> bool" where
  "cooled c \<longleftrightarrow> (case bc_cool c of None \<Rightarrow> True | Some u \<Rightarrow> u \<le> bc_now c)"

text \<open>The estimate that an answered call adds to the usage of a day and a model.\<close>

definition spent_by :: "('w, 'b) failover_env \<Rightarrow> string \<Rightarrow> string \<Rightarrow> 'b backend_call \<Rightarrow> int" where
  "spent_by env d k c =
     (if snd (bc_result c) = None \<and> bc_day c = d \<and> nc_Model (bc_backend c) = k
      then estimateUsageTokens (fe_json env) (bc_prompt c) (fst (bc_result c)) else 0)"

lemma estimate_nonneg: "0 \<le> estimateUsageTokens j p r"
  by (simp add: estimateUsageTokens_def estimatePromptTokens_def estimateCompletionTokens_def Let_def split: option.split)

definition same_settings :: "('w, 'b) FailoverClient \<Rightarrow> ('w, 'b) FailoverClient \<Rightarrow> bool" where
  "same_settings f f' \<longleftrightarrow> fc_backends f' = fc_backends f \<and> fc_tokenLimit f' = fc_tokenLimit f
     \<and> fc_maxCallBudget f' = fc_maxCallBudget f"

lemma on_cooldown_frame:
  "on_cooldown env nc f = (b, now, f1) \<Longrightarrow> f1 = f\<lparr>fc_world := fc_world f1\<rparr>
     \<and> (\<not> b \<longrightarrow> (case fc_cooldowns f (nc_Name nc) of None \<Rightarrow> True | Some u \<Rightarrow> u \<le> now))"
  by (auto simp: on_cooldown_def split: option.splits prod.splits)

definition within_limit :: "('b \<Rightarrow> string \<Rightarrow> string \<Rightarrow> int) \<Rightarrow> ('w, 'b) failover_env \<Rightarrow> int \<Rightarrow> 'b backend_call \<Rightarrow> bool" where
  "within_limit usage env limit c \<longleftrightarrow> (fe_has_store env \<and> 0 < limit \<longrightarrow>
     wrap64 (usage (bc_store c) (bc_day c) (nc_Model (bc_backend c)) + estimatePromptTokens (bc_prompt c)) \<le> limit)"

context budget_store
begin

text \<open>The operations of the client on the store.\<close>

lemma checkBudget_frame:
  assumes "fe_get env = get" "checkBudget env d k n f = (e, f1)"
  shows "f1 = f\<lparr>fc_store := fc_store f1\<rparr> \<and> usage (fc_store f1) = usage (fc_store f)
    \<and> (e = None \<and> fe_has_store env \<and> 0 < fc_tokenLimit f \<longrightarrow> wrap64 (usage (fc_store f) d k + n) \<le> fc_tokenLimit f)"
  using assms get_content [of "fc_store f" d k] get_value [of "fc_store f" d k]
  by (auto simp: checkBudget_def Let_def split: if_splits prod.splits option.splits)

lemma recordUsage_frame:
  assumes "fe_inc env = inc" "recordUsage env d k p r f = (e, f1)"
  shows "f1 = f\<lparr>fc_store := fc_store f1\<rparr>"
  using assms by (auto simp: recordUsage_def Let_def split: if_splits prod.splits)

text \<open>One backend: skipped without a call, called in vain, or called with an answer.\<close>

lemma try_backends_cases:
  assumes env: "fe_get env = get" "fe_inc env = inc"
    and run: "try_backends env d p (nc # ncs) le f = (res, f')"
  obtains (skip) f1 le1 where "try_backends env d p ncs le1 f1 = (res, f')" "fc_log f1 = fc_log f"
      "usage (fc_store f1) = usage (fc_store f)" "same_settings f f1" "fc_callCount f1 = fc_callCount f"
      "fc_store f1 = fc_store f \<or> fc_store f1 = snd (get (fc_store f) d (nc_Model nc))"
  | (vain) f1 c e where "try_backends env d p ncs (Some e) f1 = (res, f')" "fc_log f1 = fc_log f @ [c]"
      "bc_backend c = nc" "bc_prompt c = p" "bc_day c = d" "cooled c" "within_limit usage env (fc_tokenLimit f) c"
      "snd (bc_result c) \<noteq> None" "usage (fc_store f1) = usage (fc_store f)" "same_settings f f1" "fc_callCount f1 = fc_callCount f"
      "fc_store f1 = fc_store f \<or> fc_store f1 = snd (get (fc_store f) d (nc_Model nc))"
  | (answered) f1 c e where "fc_log f' = fc_log f @ [c]" "bc_backend c = nc" "bc_prompt c = p" "bc_day c = d"
      "cooled c" "within_limit usage env (fc_tokenLimit f) c" "snd (bc_result c) = None"
      "recordUsage env d (nc_Model nc) p (fst (bc_result c)) f1 = (e, f')" "same_settings f f'" "fc_callCount f' = fc_callCount f"
      "usage (fc_store f1) = usage (fc_store f)"
      "fc_store f1 = fc_store f \<or> fc_store f1 = snd (get (fc_store f) d (nc_Model nc))"
proof -
  obtain b now f1 where cool: "on_cooldown env nc f = (b, now, f1)" by (metis prod_cases3)
  obtain e1 f2 where chk: "checkBudget env d (nc_Model nc) (estimatePromptTokens p) f1 = (e1, f2)" by (metis surj_pair)
  obtain r w where call: "fe_call env (fc_world f2) nc p = (r, w)" by (metis surj_pair)
  define c where "c = \<lparr>bc_backend = nc, bc_prompt = p, bc_day = d, bc_store = fc_store f1,
     bc_cool = fc_cooldowns f1 (nc_Name nc), bc_now = now, bc_result = r\<rparr>"
  define f3 where "f3 = f2\<lparr>fc_world := w, fc_log := fc_log f2 @ [c]\<rparr>"
  note eq = run [unfolded try_backends.simps cool chk call Let_def prod.case, folded c_def f3_def]
  note cf = on_cooldown_frame [OF cool] and kf = checkBudget_frame [OF env(1) chk]
  from cf have f1: "fc_log f1 = fc_log f" "fc_store f1 = fc_store f" "same_settings f f1" "fc_callCount f1 = fc_callCount f"
    "fc_cooldowns f1 = fc_cooldowns f" "fc_tokenLimit f1 = fc_tokenLimit f"
    by (cases f; cases f1; simp add: same_settings_def)+
  from kf have f2: "fc_log f2 = fc_log f1" "same_settings f f2" "fc_callCount f2 = fc_callCount f1" "usage (fc_store f2) = usage (fc_store f)"
    using f1 by (cases f1; cases f2; simp add: same_settings_def)+
  have st: "fc_store f2 = fc_store f \<or> fc_store f2 = snd (get (fc_store f) d (nc_Model nc))"
    using chk f1(2) env(1) by (auto simp: checkBudget_def Let_def split: if_splits prod.splits option.splits)
  show ?thesis
  proof (cases "b \<or> e1 \<noteq> None")
    case True
    with eq consider "try_backends env d p ncs le f1 = (res, f')" | le1 where "try_backends env d p ncs le1 f2 = (res, f')"
      by (auto split: if_splits option.splits)
    then show ?thesis using skip f1 f2 st by cases (metis, metis)
  next
    case False
    have c: "cooled c" "within_limit usage env (fc_tokenLimit f) c"
      using False cf kf f1 by (auto simp: cooled_def within_limit_def c_def split: option.splits)
    have f3: "fc_log f3 = fc_log f @ [c]" "fc_store f3 = fc_store f2" "same_settings f f3" "fc_callCount f3 = fc_callCount f"
      using f1 f2 by (simp_all add: f3_def same_settings_def)
    show ?thesis
    proof (cases "snd r")
      case None
      obtain e f4 where rec: "recordUsage env d (nc_Model nc) p (fst r) f3 = (e, f4)" by (metis surj_pair)
      from recordUsage_frame [OF env(2) rec] f3 have f4: "fc_log f4 = fc_log f @ [c]" "same_settings f f4" "fc_callCount f4 = fc_callCount f"
        by (cases f3; cases f4; simp add: same_settings_def)+
      from eq False None rec have "f' = f4" by (auto split: option.splits)
      then show ?thesis using c f3 f4 rec None f2(4) st
        by (intro answered [of c f3 e]) (simp_all add: c_def)
    next
      case (Some e)
      obtain t w' where t: "fe_now env (fc_world f3) = (t, w')" by (metis surj_pair)
      define f4 where "f4 = (if isTransientError (Some e)
         then f3\<lparr>fc_world := w', fc_cooldowns := (fc_cooldowns f3)(nc_Name nc \<mapsto> t + fc_duration f3)\<rparr> else f3)"
      have f4: "fc_log f4 = fc_log f @ [c]" "fc_store f4 = fc_store f2" "same_settings f f4" "fc_callCount f4 = fc_callCount f"
        using f3 by (simp_all add: f4_def same_settings_def)
      from eq False Some t have "try_backends env d p ncs (Some e) f4 = (res, f')" by (auto simp: f4_def)
      then show ?thesis using c f4 Some f2(4) st
        by (intro vain [of e f4 c]) (simp_all add: c_def)
    qed
  qed
qed

lemma try_backends_calls:
  assumes "fe_get env = get" "fe_inc env = inc" "try_backends env d p ncs le f = (res, f')"
  shows "\<exists>cs. fc_log f' = fc_log f @ cs \<and> subseq (map bc_backend cs) ncs \<and> same_settings f f' \<and> fc_callCount f' = fc_callCount f
    \<and> (\<forall>c \<in> set cs. bc_prompt c = p \<and> bc_day c = d \<and> cooled c \<and> within_limit usage env (fc_tokenLimit f) c)"
  using assms(3)
proof (induction ncs arbitrary: le f)
  case Nil
  then show ?case by (intro exI [of _ "[]"]) (auto simp: same_settings_def)
next
  case (Cons nc ncs)
  from assms(1,2) Cons.prems show ?case
  proof (cases rule: try_backends_cases)
    case (skip f1 le1)
    from Cons.IH [OF skip(1)] obtain cs where "fc_log f' = fc_log f1 @ cs \<and> subseq (map bc_backend cs) ncs \<and> same_settings f1 f'
      \<and> fc_callCount f' = fc_callCount f1
      \<and> (\<forall>c \<in> set cs. bc_prompt c = p \<and> bc_day c = d \<and> cooled c \<and> within_limit usage env (fc_tokenLimit f1) c)" by blast
    with skip show ?thesis by (intro exI [of _ cs]) (auto simp: same_settings_def)
  next
    case (vain f1 c e)
    from Cons.IH [OF vain(1)] obtain cs where "fc_log f' = fc_log f1 @ cs \<and> subseq (map bc_backend cs) ncs \<and> same_settings f1 f'
      \<and> fc_callCount f' = fc_callCount f1
      \<and> (\<forall>c \<in> set cs. bc_prompt c = p \<and> bc_day c = d \<and> cooled c \<and> within_limit usage env (fc_tokenLimit f1) c)" by blast
    with vain show ?thesis by (intro exI [of _ "c # cs"]) (auto simp: same_settings_def)
  next
    case (answered f1 c e)
    then show ?thesis by (intro exI [of _ "[c]"]) (auto simp: same_settings_def)
  qed
qed

text \<open>A run of completions: every call is allowed, and a positive call budget bounds the completions that try backends.\<close>

lemma failover_Complete_calls:
  assumes "fe_get env = get" "fe_inc env = inc" "failover_Complete env p f = (res, f')"
  shows "\<exists>cs. fc_log f' = fc_log f @ cs \<and> set (map bc_backend cs) \<subseteq> set (fc_backends f) \<and> same_settings f f'
    \<and> length cs \<le> length (fc_backends f)
    \<and> (0 < fc_maxCallBudget f \<longrightarrow> (if fc_callCount f \<ge> fc_maxCallBudget f then cs = [] \<and> fc_callCount f' = fc_callCount f
         else fc_callCount f' = fc_callCount f + 1))
    \<and> (\<forall>c \<in> set cs. cooled c \<and> within_limit usage env (fc_tokenLimit f) c)"
proof (cases "fc_maxCallBudget f > 0 \<and> fc_callCount f \<ge> fc_maxCallBudget f")
  case True
  with assms(3) show ?thesis by (intro exI [of _ "[]"]) (auto simp: failover_Complete_def same_settings_def)
next
  case False
  define f1 where "f1 = (if fc_maxCallBudget f > 0 then f\<lparr>fc_callCount := fc_callCount f + 1\<rparr> else f)"
  obtain d w where d: "fe_today env (fc_world f1) = (d, w)" by (metis surj_pair)
  have f1: "fc_log f1 = fc_log f" "same_settings f f1" "fc_tokenLimit f1 = fc_tokenLimit f"
    "0 < fc_maxCallBudget f \<longrightarrow> fc_callCount f1 = fc_callCount f + 1" "fc_backends f1 = fc_backends f" by (simp_all add: f1_def same_settings_def)
  from assms(3) False have "try_backends env d p (fc_backends f1) None (f1\<lparr>fc_world := w\<rparr>) = (res, f')"
    unfolding failover_Complete_def if_not_P [OF False] f1_def [symmetric] Let_def d by simp
  from try_backends_calls [OF assms(1,2) this] obtain cs where cs: "fc_log f' = fc_log f @ cs" "subseq (map bc_backend cs) (fc_backends f)"
    "same_settings f1 f'" "fc_callCount f' = fc_callCount f1" "\<forall>c \<in> set cs. cooled c \<and> within_limit usage env (fc_tokenLimit f) c"
    using f1 by (auto simp: same_settings_def)
  have "length cs \<le> length (fc_backends f)" using list_emb_length [OF cs(2)] by simp
  moreover have "set (map bc_backend cs) \<subseteq> set (fc_backends f)"
  proof
    fix x assume "x \<in> set (map bc_backend cs)"
    with cs(2) show "x \<in> set (fc_backends f)" by (rule list_emb_set) simp
  qed
  ultimately show ?thesis using cs f1 False by (intro exI [of _ cs]) (auto simp: same_settings_def)
qed

lemma failover_run_allowed:
  assumes "fe_get env = get" "fe_inc env = inc"
  shows "\<exists>cs. fc_log (failover_run env ps f) = fc_log f @ cs \<and> same_settings f (failover_run env ps f)
    \<and> length cs \<le> length ps * length (fc_backends f)
    \<and> (\<forall>c \<in> set cs. bc_backend c \<in> set (fc_backends f) \<and> cooled c \<and> within_limit usage env (fc_tokenLimit f) c)"
proof (induction ps arbitrary: f)
  case Nil
  then show ?case by (intro exI [of _ "[]"]) (simp add: failover_run_def same_settings_def)
next
  case (Cons p ps)
  obtain res f1 where step: "failover_Complete env p f = (res, f1)" by (metis surj_pair)
  have run: "failover_run env (p # ps) f = failover_run env ps f1" by (simp add: failover_run_def step)
  from failover_Complete_calls [OF assms step] obtain cs where cs: "fc_log f1 = fc_log f @ cs"
    "set (map bc_backend cs) \<subseteq> set (fc_backends f)" "same_settings f f1" "length cs \<le> length (fc_backends f)"
    "\<forall>c \<in> set cs. cooled c \<and> within_limit usage env (fc_tokenLimit f) c" by blast
  from Cons.IH [of f1] obtain ds where "fc_log (failover_run env ps f1) = fc_log f1 @ ds" "same_settings f1 (failover_run env ps f1)"
    "length ds \<le> length ps * length (fc_backends f1)"
    "\<forall>c \<in> set ds. bc_backend c \<in> set (fc_backends f1) \<and> cooled c \<and> within_limit usage env (fc_tokenLimit f1) c" by blast
  with cs show ?case unfolding run by (intro exI [of _ "cs @ ds"]) (auto simp: same_settings_def)
qed

lemma failover_run_calls:
  assumes "fe_get env = get" "fe_inc env = inc" "0 < fc_maxCallBudget f" "0 \<le> fc_callCount f" "fc_callCount f \<le> fc_maxCallBudget f"
  shows "\<exists>cs. fc_log (failover_run env ps f) = fc_log f @ cs \<and> same_settings f (failover_run env ps f)
    \<and> fc_callCount (failover_run env ps f) \<le> fc_maxCallBudget f
    \<and> int (length cs) \<le> (fc_callCount (failover_run env ps f) - fc_callCount f) * int (length (fc_backends f))
    \<and> (\<forall>c \<in> set cs. bc_backend c \<in> set (fc_backends f) \<and> cooled c \<and> within_limit usage env (fc_tokenLimit f) c)"
  using assms(3-5)
proof (induction ps arbitrary: f)
  case Nil
  then show ?case by (intro exI [of _ "[]"]) (simp add: failover_run_def same_settings_def)
next
  case (Cons p ps)
  obtain res f1 where step: "failover_Complete env p f = (res, f1)" by (metis surj_pair)
  have run: "failover_run env (p # ps) f = failover_run env ps f1" by (simp add: failover_run_def step)
  from failover_Complete_calls [OF assms(1,2) step] obtain cs where cs: "fc_log f1 = fc_log f @ cs"
    "set (map bc_backend cs) \<subseteq> set (fc_backends f)" "same_settings f f1" "length cs \<le> length (fc_backends f)"
    "if fc_callCount f \<ge> fc_maxCallBudget f then cs = [] \<and> fc_callCount f1 = fc_callCount f else fc_callCount f1 = fc_callCount f + 1"
    "\<forall>c \<in> set cs. cooled c \<and> within_limit usage env (fc_tokenLimit f) c" using Cons.prems by blast
  with Cons.prems have "0 < fc_maxCallBudget f1" "0 \<le> fc_callCount f1" "fc_callCount f1 \<le> fc_maxCallBudget f1"
    by (auto simp: same_settings_def split: if_splits)
  from Cons.IH [OF this] obtain ds where ds: "fc_log (failover_run env ps f1) = fc_log f1 @ ds" "same_settings f1 (failover_run env ps f1)"
    "fc_callCount (failover_run env ps f1) \<le> fc_maxCallBudget f1"
    "int (length ds) \<le> (fc_callCount (failover_run env ps f1) - fc_callCount f1) * int (length (fc_backends f1))"
    "\<forall>c \<in> set ds. bc_backend c \<in> set (fc_backends f1) \<and> cooled c \<and> within_limit usage env (fc_tokenLimit f1) c" by blast
  have "int (length cs) \<le> (fc_callCount f1 - fc_callCount f) * int (length (fc_backends f))"
    using cs(4,5) by (auto split: if_splits)
  with ds(4) cs(3) have "int (length (cs @ ds)) \<le> (fc_callCount (failover_run env ps f1) - fc_callCount f) * int (length (fc_backends f))"
    by (simp add: same_settings_def left_diff_distrib)
  with cs ds show ?case unfolding run by (intro exI [of _ "cs @ ds"]) (auto simp: same_settings_def)
qed

end

context reliable_store
begin

text \<open>With a healthy store the usage is the sum over the answered calls.\<close>

lemma try_backends_usage:
  assumes "fe_get env = get" "fe_inc env = inc" "fe_has_store env" "try_backends env d p ncs le f = (res, f')" "healthy (fc_store f)"
  shows "healthy (fc_store f') \<and> (\<exists>cs. fc_log f' = fc_log f @ cs
    \<and> (\<forall>d' k'. usage (fc_store f') d' k' = usage (fc_store f) d' k' + sum_list (map (spent_by env d' k') cs)))"
  using assms(4,5)
proof (induction ncs arbitrary: le f)
  case Nil
  then show ?case by (auto intro: exI [of _ "[]"])
next
  case (Cons nc ncs)
  from assms(1,2) Cons.prems(1) show ?case
  proof (cases rule: try_backends_cases)
    case (skip f1 le1)
    with Cons.prems(2) have "healthy (fc_store f1)" by (auto simp: get_healthy)
    from Cons.IH [OF skip(1) this] skip show ?thesis by auto
  next
    case (vain f1 c e)
    with Cons.prems(2) have "healthy (fc_store f1)" by (auto simp: get_healthy)
    moreover from vain have "spent_by env d' k' c = 0" for d' k' by (auto simp: spent_by_def)
    moreover obtain cs where "healthy (fc_store f')" "fc_log f' = fc_log f1 @ cs"
      "\<forall>d' k'. usage (fc_store f') d' k' = usage (fc_store f1) d' k' + sum_list (map (spent_by env d' k') cs)"
      using Cons.IH [OF vain(1)] calculation by blast
    ultimately show ?thesis using vain by (intro conjI exI [of _ "c # cs"]) simp_all
  next
    case (answered f1 c e)
    with Cons.prems(2) have h: "healthy (fc_store f1)" by (auto simp: get_healthy)
    let ?n = "estimateUsageTokens (fe_json env) p (fst (bc_result c))"
    from answered(8) assms(2,3) h have "healthy (fc_store f')"
      "usage (fc_store f') d' k' = usage (fc_store f1) d' k' + (if d' = d \<and> k' = nc_Model nc then ?n else 0)" for d' k'
      using inc_healthy [of "fc_store f1" d "nc_Model nc" ?n] inc_content [of "fc_store f1" d "nc_Model nc" ?n d' k']
        estimate_nonneg [of "fe_json env" p "fst (bc_result c)"]
      by (auto simp: recordUsage_def Let_def split: if_splits prod.splits)
    with answered show ?thesis by (intro conjI exI [of _ "[c]"]) (auto simp: spent_by_def)
  qed
qed

lemma failover_run_usage:
  assumes "fe_get env = get" "fe_inc env = inc" "fe_has_store env" "healthy (fc_store f)"
  shows "\<exists>cs. fc_log (failover_run env ps f) = fc_log f @ cs
    \<and> (\<forall>d k. usage (fc_store (failover_run env ps f)) d k = usage (fc_store f) d k + sum_list (map (spent_by env d k) cs))"
  using assms(4)
proof (induction ps arbitrary: f)
  case Nil
  then show ?case by (intro exI [of _ "[]"]) (simp add: failover_run_def)
next
  case (Cons p ps)
  obtain res f1 where step: "failover_Complete env p f = (res, f1)" by (metis surj_pair)
  have run: "failover_run env (p # ps) f = failover_run env ps f1" by (simp add: failover_run_def step)
  define f0 where "f0 = (if fc_maxCallBudget f > 0 then f\<lparr>fc_callCount := fc_callCount f + 1\<rparr> else f)"
  obtain d w where d: "fe_today env (fc_world f0) = (d, w)" by (metis surj_pair)
  have f0: "fc_log f0 = fc_log f" "fc_store f0 = fc_store f" by (simp_all add: f0_def)
  from step consider "f1 = f" | "try_backends env d p (fc_backends f0) None (f0\<lparr>fc_world := w\<rparr>) = (res, f1)"
    unfolding failover_Complete_def f0_def [symmetric] Let_def d by (auto split: if_splits)
  then have "healthy (fc_store f1) \<and> (\<exists>cs. fc_log f1 = fc_log f @ cs
    \<and> (\<forall>d k. usage (fc_store f1) d k = usage (fc_store f) d k + sum_list (map (spent_by env d k) cs)))"
  proof cases
    case 1
    with Cons.prems show ?thesis by (auto intro: exI [of _ "[]"])
  next
    case 2
    with try_backends_usage [OF assms(1-3) 2] Cons.prems f0 show ?thesis by simp
  qed
  then obtain cs where cs: "healthy (fc_store f1)" "fc_log f1 = fc_log f @ cs"
    "\<forall>d k. usage (fc_store f1) d k = usage (fc_store f) d k + sum_list (map (spent_by env d k) cs)" by blast
  from Cons.IH [OF cs(1)] obtain ds where "fc_log (failover_run env ps f1) = fc_log f1 @ ds"
    "\<forall>d k. usage (fc_store (failover_run env ps f1)) d k = usage (fc_store f1) d k + sum_list (map (spent_by env d k) ds)" by blast
  with cs show ?case unfolding run by (intro exI [of _ "cs @ ds"]) simp
qed

end

section \<open>The properties of the failover client on the SQLite store\<close>


definition sample_failover_env :: "(int, budget_db) failover_env" where
  "sample_failover_env = \<lparr>fe_now = (\<lambda>w. (w, w + 1)), fe_today = (\<lambda>w. (''2026-01-01'', w)),
     fe_call = (\<lambda>w nc p. ((if nc_Name nc = ''a'' then (None, Some (ErrText ''down'')) else (Some \<lparr>lr_Reasoning = ''12345678'', lr_Actions = [],
        lr_Usage = zero_usage\<rparr>, None)), w + 1)),
     fe_has_store = True, fe_get = GetDailyUsage, fe_inc = IncrementUsage, fe_json = (\<lambda>a. None)\<rparr>"

definition sample_failover :: "(int, budget_db) FailoverClient" where
  "sample_failover = NewFailoverClient [\<lparr>nc_Name = ''a'', nc_Model = ''m''\<rparr>, \<lparr>nc_Name = ''b'', nc_Model = ''n''\<rparr>] 0 1 100 0
     \<lparr>bd_rows = Map.empty, bd_faults = []\<rparr>"


text \<open>While the database has no faults, the stored usage of every day and model is its initial value
  plus the estimates of exactly the answered calls made for it.\<close>

theorem failover_ledger_exact:
  assumes "fe_get env = GetDailyUsage" "fe_inc env = IncrementUsage" "fe_has_store env" "bd_faults b = []"
  shows "let f = failover_run env prompts (NewFailoverClient backends cooldown maxCalls limit w b)
    in stored_usage (fc_store f) d k = stored_usage b d k + sum_list (map (spent_by env d k) (fc_log f))"
proof -
  let ?f = "NewFailoverClient backends cooldown maxCalls limit w b"
  have "bd_faults (fc_store ?f) = []" using assms(4) by (simp add: NewFailoverClient_def)
  from sqlite_reliable.failover_run_usage [OF assms(1-3) this, of prompts]
  show ?thesis by (auto simp: NewFailoverClient_def Let_def)
qed

theorem failover_ledger_exact_witness:
  "stored_usage (fc_store (failover_run sample_failover_env [''12345678'', ''again''] sample_failover)) ''2026-01-01'' ''n'' = 4
   \<and> stored_usage (fc_store (failover_run sample_failover_env [''12345678'', ''again''] sample_failover)) ''2026-01-01'' ''m'' = 0"
proof -
  have "map (spent_by sample_failover_env ''2026-01-01'' ''n'') (fc_log (failover_run sample_failover_env [''12345678'', ''again''] sample_failover)) = [0, 4]"
    "map (spent_by sample_failover_env ''2026-01-01'' ''m'') (fc_log (failover_run sample_failover_env [''12345678'', ''again''] sample_failover)) = [0, 0]"
    by code_simp+
  then show ?thesis
    using failover_ledger_exact [of sample_failover_env "\<lparr>bd_rows = Map.empty, bd_faults = []\<rparr>" "[''12345678'', ''again'']"
        "[\<lparr>nc_Name = ''a'', nc_Model = ''m''\<rparr>, \<lparr>nc_Name = ''b'', nc_Model = ''n''\<rparr>]" 0 1 100 0 "''2026-01-01''" "''n''"]
      failover_ledger_exact [of sample_failover_env "\<lparr>bd_rows = Map.empty, bd_faults = []\<rparr>" "[''12345678'', ''again'']"
        "[\<lparr>nc_Name = ''a'', nc_Model = ''m''\<rparr>, \<lparr>nc_Name = ''b'', nc_Model = ''n''\<rparr>]" 0 1 100 0 "''2026-01-01''" "''m''"]
    unfolding sample_failover_def [symmetric] Let_def
    by (simp add: stored_usage_def sample_failover_env_def)
qed

end
