(* ===== verification/Llm_Ensemble.thy ===== *)
theory Llm_Ensemble
  imports Llm_Errors
begin

text \<open>
  The strategies that combine several models, \<open>src/pkg/infrastructure/llm/ensemble\<close>: the checks and scores of
  generated code (\<open>validation.go\<close>), escalation over tiers (\<open>cascade_client.go\<close>), refinement in stages
  (\<open>serial_client.go\<close>), selection by score (\<open>scored_client.go\<close>), voting (\<open>consensus_client.go\<close>), generation by
  specialists (\<open>decomposed_client.go\<close>) and routing by the prompt (\<open>adaptive_client.go\<close>).
  Models are called through an environment over a world \<open>'w\<close>. Where the code calls them in parallel
  and waits for all, the strategy is a function of their results in the order of the models. The
  parser of Go files and the texts of follow-up prompts are parameters, and error texts leave out positions.
\<close>

section \<open>Checks of generated code\<close>

definition any_suffix :: "(string \<Rightarrow> bool) \<Rightarrow> string \<Rightarrow> bool" where
  "any_suffix P s = list_ex (\<lambda>i. P (drop i s)) [0..<Suc (length s)]"

text \<open>\<open>(?i)\b(TODO|FIXME|XXX|unimplemented)\b\<close>.\<close>

definition starts_word :: "string \<Rightarrow> string \<Rightarrow> bool" where
  "starts_word kw s \<longleftrightarrow> prefix kw s \<and> (case drop (length kw) s of [] \<Rightarrow> True | c # _ \<Rightarrow> \<not> word_char c)"

fun has_word :: "string list \<Rightarrow> bool \<Rightarrow> string \<Rightarrow> bool" where
  "has_word kws in_word [] = False"
| "has_word kws in_word (c # s) =
     ((\<not> in_word \<and> list_ex (\<lambda>kw. starts_word kw (c # s)) kws) \<or> has_word kws (word_char c) s)"

definition stub_words :: "string \<Rightarrow> bool" where
  "stub_words s = has_word [''todo'', ''fixme'', ''xxx'', ''unimplemented''] False (ToLower s)"

text \<open>\<open>panic\s*\(\s*["'](not implemented|unimplemented|TODO)["']\s*\)\<close>.\<close>

definition re_quote :: "string \<Rightarrow> string option" where
  "re_quote s = (case s of [] \<Rightarrow> None | c # t \<Rightarrow> if char_code c = 34 \<or> char_code c = 39 then Some t else None)"

definition re_alt :: "string list \<Rightarrow> string \<Rightarrow> string option" where
  "re_alt ps s = (case find (\<lambda>p. prefix p s) ps of None \<Rightarrow> None | Some p \<Rightarrow> Some (drop (length p) s))"

definition stub_panic :: "string \<Rightarrow> bool" where
  "stub_panic s = any_suffix (\<lambda>t. re_seq [re_lit ''panic'', re_star re_space, re_lit ''('', re_star re_space, re_quote,
     re_alt [''not implemented'', ''unimplemented'', ''TODO''], re_quote, re_star re_space, re_lit '')''] t \<noteq> None) s"

text \<open>\<open>(?m)^\s*pass\s*$\<close>: a line that is \<open>pass\<close> up to white space.\<close>

definition strip_re_space :: "string \<Rightarrow> string" where
  "strip_re_space l = rev (dropWhile re_space (rev (dropWhile re_space l)))"

definition stub_pass :: "string \<Rightarrow> bool" where
  "stub_pass s = list_ex (\<lambda>l. strip_re_space l = ''pass'') (Split s newline)"

text \<open>\<open>(?m)^\s*//\s*\.\.\.\s*(rest of (code|implementation|file)|remaining code)\s*(\.\.\.)?\s*$\<close>: the white space may
  contain line breaks; the end of a line is reached over blanks, or over blanks, dots and blanks.\<close>

definition at_line_end :: "string \<Rightarrow> bool" where
  "at_line_end s = (case dropWhile (\<lambda>c. re_space c \<and> c \<noteq> newline) s of [] \<Rightarrow> True | c # _ \<Rightarrow> c = newline)"

definition rest_tail :: "string \<Rightarrow> bool" where
  "rest_tail s \<longleftrightarrow> at_line_end s \<or> (case re_lit ''...'' (dropWhile re_space s) of None \<Rightarrow> False | Some t \<Rightarrow> at_line_end t)"

definition rest_line :: "string \<Rightarrow> bool" where
  "rest_line s = (case re_seq [re_star re_space, re_lit ''//'', re_star re_space, re_lit ''...'', re_star re_space,
       re_alt [''rest of code'', ''rest of implementation'', ''rest of file'', ''remaining code'']] s of
     None \<Rightarrow> False | Some t \<Rightarrow> rest_tail t)"

definition stub_rest :: "string \<Rightarrow> bool" where
  "stub_rest s = list_ex (\<lambda>i. (i = 0 \<or> s ! (i - 1) = newline) \<and> rest_line (drop i s)) [0..<Suc (length s)]"

definition stubRegexes :: "(string \<Rightarrow> bool) list" where
  "stubRegexes = [stub_words, stub_panic, stub_pass, stub_rest]"

definition arg_string :: "LLMAction \<Rightarrow> string \<Rightarrow> string" where
  "arg_string a key = (case map_of (la_Args a) key of Some (GStr s) \<Rightarrow> s | _ \<Rightarrow> [])"

definition file_tool :: "LLMAction \<Rightarrow> bool" where
  "file_tool a \<longleftrightarrow> la_Tool a \<in> {''write_file'', ''create_story'', ''create_file''}"

definition action_path :: "LLMAction \<Rightarrow> string" where
  "action_path a = (if arg_string a ''path'' = [] then arg_string a ''filename'' else arg_string a ''path'')"

text \<open>\<open>go_ok path content\<close>: the Go parser accepts the file.\<close>

definition valid_action :: "(string \<Rightarrow> string \<Rightarrow> bool) \<Rightarrow> LLMAction \<Rightarrow> bool" where
  "valid_action go_ok a =
     (if file_tool a then
        let path = action_path a; content = arg_string a ''content''
        in if TrimSpace content = [] then False
           else if length (Split content newline) > 500 then False
           else if list_ex (\<lambda>re. re content) stubRegexes then False
           else if HasSuffix path ''.go'' then go_ok path content
           else True
      else True)"

definition ValidateCodeResponse :: "(string \<Rightarrow> string \<Rightarrow> bool) \<Rightarrow> LLMResponse option \<Rightarrow> bool" where
  "ValidateCodeResponse go_ok resp =
     (case resp of None \<Rightarrow> False | Some r \<Rightarrow> lr_Actions r \<noteq> [] \<and> list_all (valid_action go_ok) (lr_Actions r))"

definition score_action :: "(string \<Rightarrow> string \<Rightarrow> bool) \<Rightarrow> LLMAction \<Rightarrow> int" where
  "score_action go_ok a =
     (if file_tool a then
        let path = action_path a; content = arg_string a ''content''
        in if TrimSpace content = [] then -200
           else (if length (Split content newline) > 500 then -100 else 20)
              - 50 * int (length (filter (\<lambda>re. re content) stubRegexes))
              + (if HasSuffix path ''.go'' then (if go_ok path content then 50 else -150) else 0)
              + (if Contains path ''test'' \<or> Contains path ''spec''
                 then 5 * int (Count content ''assert'' + Count content ''require'' + Count content ''t.Error'' + Count content ''t.Fatal'')
                 else 0)
      else 0)"

definition ScoreCodeResponse :: "(string \<Rightarrow> string \<Rightarrow> bool) \<Rightarrow> LLMResponse option \<Rightarrow> int" where
  "ScoreCodeResponse go_ok resp =
     (case resp of None \<Rightarrow> -1000
      | Some r \<Rightarrow> if lr_Actions r = [] then -1000 else 100 + sum_list (map (score_action go_ok) (lr_Actions r)))"

definition CombineUsage :: "TokenUsage list \<Rightarrow> TokenUsage" where
  "CombineUsage usages = foldl add_usage zero_usage usages"

definition action_key :: "LLMAction \<Rightarrow> string" where
  "action_key a = la_Tool a @
     (if arg_string a ''path'' \<noteq> [] then '':'' @ arg_string a ''path''
      else if arg_string a ''filename'' \<noteq> [] then '':'' @ arg_string a ''filename'' else [])"

fun merge_acc :: "string list \<Rightarrow> LLMAction list \<Rightarrow> LLMAction list" where
  "merge_acc seen [] = []"
| "merge_acc seen (a # as) =
     (if action_key a \<in> set seen then merge_acc seen as else a # merge_acc (action_key a # seen) as)"

definition MergeActions :: "LLMAction list list \<Rightarrow> LLMAction list" where
  "MergeActions actionsLists = merge_acc [] (concat actionsLists)"

section \<open>Strategies\<close>

record 'w ens_env =
  ee_call :: "'w \<Rightarrow> string \<Rightarrow> string \<Rightarrow> completion \<times> 'w"
  ee_ctx_done :: "'w \<Rightarrow> bool"
  ee_go_ok :: "string \<Rightarrow> string \<Rightarrow> bool"
  ee_stage_prompt :: "string \<Rightarrow> string \<Rightarrow> LLMResponse \<Rightarrow> string"

text \<open>The state of a sequential strategy: the world and the calls so far with their results.\<close>

record 'w ens_state =
  es_world :: 'w
  es_calls :: "(string \<times> completion) list"

definition ask :: "'w ens_env \<Rightarrow> string \<Rightarrow> string \<Rightarrow> 'w ens_state \<Rightarrow> completion \<times> 'w ens_state" where
  "ask env name prompt s =
     (let (res, w) = ee_call env (es_world s) name prompt
      in (res, \<lparr>es_world = w, es_calls = es_calls s @ [(name, res)]\<rparr>))"

definition usage_of :: "completion \<Rightarrow> TokenUsage list" where
  "usage_of res = (case fst res of None \<Rightarrow> [] | Some r \<Rightarrow> [lr_Usage r])"

definition with_usage :: "TokenUsage list \<Rightarrow> LLMResponse \<Rightarrow> completion" where
  "with_usage usages r = (Some (r\<lparr>lr_Usage := CombineUsage usages\<rparr>), None)"

text \<open>Tiers from fast to strong.\<close>

fun cascade_loop :: "'w ens_env \<Rightarrow> string \<Rightarrow> string list \<Rightarrow> TokenUsage list \<Rightarrow> go_error option \<Rightarrow> LLMResponse option
    \<Rightarrow> 'w ens_state \<Rightarrow> completion \<times> 'w ens_state" where
  "cascade_loop env prompt [] usages lastErr lastResp s =
     ((case lastResp of
         Some r \<Rightarrow> with_usage usages r
       | None \<Rightarrow> (None, Some (case lastErr of
             Some e \<Rightarrow> ErrWrap ''cascade strategy failed: '' e []
           | None \<Rightarrow> ErrText ''all cascade tiers failed''))), s)"
| "cascade_loop env prompt (t # ts) usages lastErr lastResp s =
     (if ee_ctx_done env (es_world s) then cascade_loop env prompt [] usages lastErr lastResp s
      else let ((resp, err), s1) = ask env t prompt s;
               usages' = usages @ usage_of (resp, err);
               lastResp' = (if resp = None then lastResp else resp)
           in (case err of
                 Some e \<Rightarrow> cascade_loop env prompt ts usages' (Some (ErrWrap (''tier '' @ t @ '' failed: '') e [])) lastResp' s1
               | None \<Rightarrow>
                   (case resp of
                      None \<Rightarrow> cascade_loop env prompt ts usages' lastErr lastResp' s1
                    | Some r \<Rightarrow>
                        if ValidateCodeResponse (ee_go_ok env) (Some r) then (with_usage usages' r, s1)
                        else cascade_loop env prompt ts usages' (Some (ErrText (''tier '' @ t @ '' output failed code validation; escalating to next tier'')))
                               lastResp' s1)))"

definition cascade_Complete :: "'w ens_env \<Rightarrow> string list \<Rightarrow> string \<Rightarrow> 'w ens_state \<Rightarrow> completion \<times> 'w ens_state" where
  "cascade_Complete env tiers prompt s =
     (if tiers = [] then ((None, Some (ErrText ''cascade ensemble has no tiers configured'')), s)
      else cascade_loop env prompt tiers [] None None s)"

text \<open>Stages that refine the answer of the stage before; a stage is its name and its template.\<close>

record SerialClient =
  sr_stages :: "(string \<times> string) list"
  sr_earlyExitOnPass :: bool
  sr_fallbackOnStageFailure :: bool

definition serial_end :: "TokenUsage list \<Rightarrow> LLMResponse option \<Rightarrow> go_error option \<Rightarrow> completion" where
  "serial_end usages current lastErr =
     (case current of
        Some r \<Rightarrow> with_usage usages r
      | None \<Rightarrow> (None, Some (case lastErr of
            Some e \<Rightarrow> ErrWrap ''serial refinement pipeline failed: '' e []
          | None \<Rightarrow> ErrText ''serial refinement pipeline failed: %!w(<nil>)'')))"

fun serial_loop :: "'w ens_env \<Rightarrow> SerialClient \<Rightarrow> string \<Rightarrow> (string \<times> string) list \<Rightarrow> TokenUsage list \<Rightarrow> LLMResponse option
    \<Rightarrow> go_error option \<Rightarrow> 'w ens_state \<Rightarrow> completion \<times> 'w ens_state" where
  "serial_loop env c prompt [] usages current lastErr s = (serial_end usages current lastErr, s)"
| "serial_loop env c prompt (st # sts) usages current lastErr s =
     (if ee_ctx_done env (es_world s) then (serial_end usages current lastErr, s)
      else let stagePrompt = (case current of None \<Rightarrow> prompt | Some r \<Rightarrow> ee_stage_prompt env (snd st) prompt r);
               ((resp, err), s1) = ask env (fst st) stagePrompt s
           in (case err of
                 Some e \<Rightarrow>
                   (let lastErr' = ErrWrap (''stage '' @ fst st @ '' failed: '') e []
                    in if \<not> sr_fallbackOnStageFailure c then ((None, Some lastErr'), s1)
                       else serial_loop env c prompt sts usages current (Some lastErr') s1)
               | None \<Rightarrow>
                   (case resp of
                      None \<Rightarrow> serial_loop env c prompt sts usages current lastErr s1
                    | Some r \<Rightarrow>
                        (let usages' = usages @ [lr_Usage r]
                         in if sr_earlyExitOnPass c \<and> sts \<noteq> [] \<and> ValidateCodeResponse (ee_go_ok env) (Some r)
                            then (with_usage usages' r, s1)
                            else serial_loop env c prompt sts usages' (Some r) lastErr s1))))"

definition serial_Complete :: "'w ens_env \<Rightarrow> SerialClient \<Rightarrow> string \<Rightarrow> 'w ens_state \<Rightarrow> completion \<times> 'w ens_state" where
  "serial_Complete env c prompt s =
     (if sr_stages c = [] then ((None, Some (ErrText ''serial ensemble has no stages configured'')), s)
      else serial_loop env c prompt (sr_stages c) [] None None s)"

text \<open>Selection by score over the results of all models.\<close>

fun best_scored :: "(LLMResponse \<Rightarrow> int) \<Rightarrow> LLMResponse option \<Rightarrow> int \<Rightarrow> LLMResponse list \<Rightarrow> LLMResponse option" where
  "best_scored score best bestScore [] = best"
| "best_scored score best bestScore (r # rs) =
     (if score r > bestScore \<or> best = None then best_scored score (Some r) (score r) rs
      else best_scored score best bestScore rs)"

definition usable :: "completion \<Rightarrow> LLMResponse option" where
  "usable res = (case res of (Some r, None) \<Rightarrow> if lr_Actions r = [] then None else Some r | _ \<Rightarrow> None)"

definition last_error :: "completion list \<Rightarrow> go_error option" where
  "last_error results = (case List.map_filter snd results of [] \<Rightarrow> None | es \<Rightarrow> Some (last es))"

definition scored_Complete :: "(string \<Rightarrow> string \<Rightarrow> bool) \<Rightarrow> completion list \<Rightarrow> completion" where
  "scored_Complete go_ok results =
     (if results = [] then (None, Some (ErrText ''best_of_n_scored ensemble has no models configured''))
      else (case best_scored (\<lambda>r. ScoreCodeResponse go_ok (Some r)) None (-999999) (List.map_filter usable results) of
              None \<Rightarrow> (None, Some (case last_error results of
                  Some e \<Rightarrow> ErrWrap ''best_of_n_scored strategy failed: '' e []
                | None \<Rightarrow> ErrText ''no model produced valid actions in best_of_n_scored strategy''))
            | Some r \<Rightarrow> with_usage (concat (map usage_of results)) r))"

text \<open>Voting. The verdict of an answer is the first boolean \<open>passed\<close> of a submitted audit; the tie-breaker is asked
  with the original prompt (\<open>None\<close>) or with the valid answers.\<close>

definition audit_flag :: "LLMAction \<Rightarrow> bool option" where
  "audit_flag a =
     (if la_Tool a \<in> {''submit_story_qa_audit'', ''submit_acceptance_audit'', ''submit_audit''}
      then (case map_of (la_Args a) ''passed'' of Some (GBool b) \<Rightarrow> Some b | _ \<Rightarrow> None) else None)"

definition extractPassedFlag :: "LLMResponse \<Rightarrow> bool option" where
  "extractPassedFlag r = (case List.map_filter audit_flag (lr_Actions r) of [] \<Rightarrow> None | b # _ \<Rightarrow> Some b)"

definition isUnanimous :: "LLMResponse list \<Rightarrow> bool" where
  "isUnanimous rs =
     (if length rs \<le> 1 then True
      else (case extractPassedFlag (rs ! 0) of
              None \<Rightarrow> length (lr_Actions (rs ! 0)) = length (lr_Actions (rs ! 1))
            | Some b \<Rightarrow> list_all (\<lambda>r. extractPassedFlag r = Some b) (tl rs)))"

definition answered_ok :: "completion \<Rightarrow> LLMResponse option" where
  "answered_ok res = (case res of (Some r, None) \<Rightarrow> Some r | _ \<Rightarrow> None)"

definition consensus_Complete :: "(LLMResponse list option \<Rightarrow> completion) option \<Rightarrow> completion list \<Rightarrow> completion" where
  "consensus_Complete tieBreaker results =
     (let valid = List.map_filter answered_ok results; usages = concat (map usage_of results)
      in if results = [] then
           (case tieBreaker of Some tb \<Rightarrow> tb None
            | None \<Rightarrow> (None, Some (ErrText ''consensus ensemble has no voters or tie-breaker configured'')))
         else if valid = [] then
           (case tieBreaker of Some tb \<Rightarrow> tb None | None \<Rightarrow> (None, Some (ErrText ''all consensus voters failed'')))
         else if length valid = 1 \<or> isUnanimous valid then with_usage usages (hd valid)
         else (case tieBreaker of
                 None \<Rightarrow> with_usage usages (hd valid)
               | Some tb \<Rightarrow> (case answered_ok (tb (Some valid)) of
                     None \<Rightarrow> with_usage usages (hd valid)
                   | Some r \<Rightarrow> with_usage (usages @ [lr_Usage r]) r)))"

text \<open>Specialists: the actions of all answers are merged.\<close>

definition decomposed_Complete :: "(string \<times> completion) list \<Rightarrow> completion" where
  "decomposed_Complete results =
     (if results = [] then (None, Some (ErrText ''decomposed ensemble has no targets configured''))
      else let resps = List.map_filter (\<lambda>(n, res). map_option (Pair n) (fst res)) results;
               merged = MergeActions (filter (\<lambda>l. l \<noteq> []) (map (\<lambda>(n, r). lr_Actions r) resps));
               reasonings = map (\<lambda>(n, r). ''['' @ n @ '']: '' @ lr_Reasoning r) (filter (\<lambda>(n, r). lr_Reasoning r \<noteq> []) resps);
               errs = List.map_filter (\<lambda>(n, res). map_option (\<lambda>e. n @ '': '' @ err_text e) (snd res)) results
           in if merged = []
              then (None, Some (ErrText (''decomposed generation produced no valid actions (errors: '' @ Join errs ''; '' @ '')'')))
              else (Some \<lparr>lr_Reasoning = Join reasonings [newline, newline], lr_Actions = merged,
                      lr_Usage = CombineUsage (map (\<lambda>(n, r). lr_Usage r) resps)\<rparr>, None))"

text \<open>Routing by keywords of the prompt. Clients are names, \<open>None\<close> where none is configured.\<close>

record AdaptiveClient =
  ad_Fast :: "string option"
  ad_Standard :: "string option"
  ad_Heavy :: "string option"

definition heavyKeywords :: "string list" where
  "heavyKeywords = [''concurren'', ''asyncio'', ''goroutine'', ''mutex'', ''lock'', ''atomic'', ''syscall'', ''assembly'',
     ''aarch64'', ''register'', ''stack alignment'', ''wire protocol'', ''resp'', ''btree'', ''transaction'', ''deadlock'',
     ''segmentation fault'', ''panic'', ''fatal'', ''test failed'', ''remediation'', ''compile error'', ''build failed'', ''rfc'']"

definition fastKeywords :: "string list" where
  "fastKeywords = [''typo'', ''comment'', ''docstring'', ''readme'', ''format'', ''spelling'', ''version bump'', ''changelog'',
     ''rename'', ''license'']"

definition classifyAndSelect :: "AdaptiveClient \<Rightarrow> string \<Rightarrow> string \<times> string option" where
  "classifyAndSelect a prompt =
     (let lower = ToLower prompt
      in if contains_any lower heavyKeywords \<and> ad_Heavy a \<noteq> None then (''heavy'', ad_Heavy a)
         else if contains_any lower fastKeywords \<and> ad_Fast a \<noteq> None then (''fast'', ad_Fast a)
         else if ad_Standard a \<noteq> None then (''standard'', ad_Standard a)
         else if ad_Heavy a \<noteq> None then (''heavy'', ad_Heavy a)
         else (''fast'', ad_Fast a))"

definition fallbackClient :: "AdaptiveClient \<Rightarrow> string option" where
  "fallbackClient a = (if ad_Standard a \<noteq> None then ad_Standard a else if ad_Heavy a \<noteq> None then ad_Heavy a else ad_Fast a)"

definition adaptive_Complete :: "'w ens_env \<Rightarrow> AdaptiveClient \<Rightarrow> string \<Rightarrow> 'w ens_state \<Rightarrow> completion \<times> 'w ens_state" where
  "adaptive_Complete env a prompt s =
     (let (tier, sel) = classifyAndSelect a prompt;
          target = (if sel = None then fallbackClient a else sel)
      in (case target of
            None \<Rightarrow> ((None, Some (ErrText ''no clients available in adaptive ensemble'')), s)
          | Some t \<Rightarrow>
              (let ((resp, err), s1) = ask env t prompt s
               in (case err of
                     None \<Rightarrow> ((resp, None), s1)
                   | Some e \<Rightarrow>
                       (case fallbackClient a of
                          Some fb \<Rightarrow> if fb \<noteq> t then ask env fb prompt s1
                                     else ((None, Some (ErrWrap (''adaptive ensemble error ('' @ tier @ '' tier): '') e [])), s1)
                        | None \<Rightarrow> ((None, Some (ErrWrap (''adaptive ensemble error ('' @ tier @ '' tier): '') e [])), s1))))))"

section \<open>Facts on merged actions\<close>

lemma merge_acc_facts:
  "distinct (map action_key (merge_acc seen as)) \<and> subseq (merge_acc seen as) as
    \<and> action_key ` set (merge_acc seen as) = action_key ` set as - set seen
    \<and> (\<forall>k. k \<notin> set seen \<longrightarrow> find (\<lambda>a. action_key a = k) (merge_acc seen as) = find (\<lambda>a. action_key a = k) as)"
proof (induction seen as rule: merge_acc.induct)
  case (2 seen a as)
  show ?case
  proof (cases "action_key a \<in> set seen")
    case True
    with 2(1) show ?thesis by (auto simp: image_iff)
  next
    case False
    from 2(2) [OF False] have ih: "distinct (map action_key (merge_acc (action_key a # seen) as))"
      "subseq (merge_acc (action_key a # seen) as) as"
      "action_key ` set (merge_acc (action_key a # seen) as) = action_key ` set as - set (action_key a # seen)"
      "\<forall>k. k \<notin> set (action_key a # seen) \<longrightarrow>
         find (\<lambda>a. action_key a = k) (merge_acc (action_key a # seen) as) = find (\<lambda>a. action_key a = k) as" by simp_all
    have "action_key a \<notin> set (map action_key (merge_acc (action_key a # seen) as))" using ih(3) by auto
    with ih False show ?thesis by auto
  qed
qed simp

text \<open>A merge keeps, for every tool and target that occurs in the lists, exactly the first action, in the order of
  the lists.\<close>

theorem merged_actions_first_wins:
  "distinct (map action_key (MergeActions als)) \<and> subseq (MergeActions als) (concat als)
   \<and> (\<forall>k. find (\<lambda>a. action_key a = k) (MergeActions als) = find (\<lambda>a. action_key a = k) (concat als))"
  using merge_acc_facts [of "[]" "concat als"] by (simp add: MergeActions_def)

section \<open>Facts on the strategies\<close>

lemma best_scored_mem:
  "best_scored score best n rs = Some r \<Longrightarrow> r \<in> set rs \<or> best = Some r"
  by (induction score best n rs rule: best_scored.induct) (auto split: if_splits)

lemma best_scored_max:
  assumes "best_scored score best n rs = Some r" "\<forall>b. best = Some b \<longrightarrow> n = score b"
  shows "(\<forall>x \<in> set rs. score x \<le> score r) \<and> (\<forall>b. best = Some b \<longrightarrow> score b \<le> score r)"
  using assms by (induction score best n rs rule: best_scored.induct) (fastforce split: if_splits)+

lemma best_scored_None: "best_scored score best n rs = None \<longleftrightarrow> best = None \<and> rs = []"
  by (induction score best n rs rule: best_scored.induct) (auto split: if_splits)

lemma map_filter_Nil_iff: "List.map_filter f xs = [] \<longleftrightarrow> (\<forall>x \<in> set xs. f x = None)"
  by (auto simp: List.map_filter_def filter_empty_conv)

lemma set_map_filter: "set (List.map_filter f xs) = {y. \<exists>x \<in> set xs. f x = Some y}"
  by (force simp: List.map_filter_def)

lemma usable_iff: "usable res = Some r \<longleftrightarrow> res = (Some r, None) \<and> lr_Actions r \<noteq> []"
  by (cases res) (auto simp: usable_def split: option.splits)

lemma with_usage_simps [simp]:
  "fst (with_usage us r) = Some (r\<lparr>lr_Usage := CombineUsage us\<rparr>)" "snd (with_usage us r) = None"
  by (simp_all add: with_usage_def)

text \<open>Selection by score answers iff some model answered without error and with actions; it returns such an answer
  with the highest score and the summed usage of all answers, also of those that were rejected.\<close>

theorem scored_selects_best:
  "case scored_Complete go_ok results of
     (Some r, err) \<Rightarrow> err = None \<and> lr_Usage r = CombineUsage (concat (map usage_of results))
       \<and> (\<exists>r0. (Some r0, None) \<in> set results \<and> lr_Actions r0 \<noteq> [] \<and> lr_Actions r = lr_Actions r0 \<and> lr_Reasoning r = lr_Reasoning r0
            \<and> (\<forall>r1. (Some r1, None) \<in> set results \<and> lr_Actions r1 \<noteq> [] \<longrightarrow>
                 ScoreCodeResponse go_ok (Some r1) \<le> ScoreCodeResponse go_ok (Some r0)))
   | (None, err) \<Rightarrow> err \<noteq> None \<and> (\<forall>r1. (Some r1, None) \<in> set results \<longrightarrow> lr_Actions r1 = [])"
proof -
  let ?score = "\<lambda>r. ScoreCodeResponse go_ok (Some r)" and ?rs = "List.map_filter usable results"
  have rs: "r \<in> set ?rs \<longleftrightarrow> (Some r, None) \<in> set results \<and> lr_Actions r \<noteq> []" for r
    by (auto simp: set_map_filter usable_iff)
  show ?thesis
  proof (cases "best_scored ?score None (-999999) ?rs")
    case None
    then have "?rs = []" by (simp add: best_scored_None)
    then have "\<forall>r1. (Some r1, None) \<in> set results \<longrightarrow> lr_Actions r1 = []" using rs by fastforce
    with None show ?thesis by (simp add: scored_Complete_def)
  next
    case (Some r0)
    from best_scored_mem [OF Some] rs have r0: "(Some r0, None) \<in> set results" "lr_Actions r0 \<noteq> []" by simp_all
    from best_scored_max [OF Some] rs have "\<forall>r1. (Some r1, None) \<in> set results \<and> lr_Actions r1 \<noteq> [] \<longrightarrow> ?score r1 \<le> ?score r0"
      by simp
    moreover have "scored_Complete go_ok results = with_usage (concat (map usage_of results)) r0"
      using r0 Some by (auto simp: scored_Complete_def)
    ultimately show ?thesis using r0 by (auto simp: with_usage_def)
  qed
qed

text \<open>What a cascade accepts.\<close>

definition accepted :: "'w ens_env \<Rightarrow> completion \<Rightarrow> bool" where
  "accepted env res \<longleftrightarrow> snd res = None \<and> ValidateCodeResponse (ee_go_ok env) (fst res)"

definition last_response :: "LLMResponse option \<Rightarrow> completion list \<Rightarrow> LLMResponse option" where
  "last_response r0 results = foldl (\<lambda>r res. if fst res = None then r else fst res) r0 results"

lemma cascade_loop_run:
  assumes "cascade_loop env prompt ts usages le lr s = (res, s')"
  shows "\<exists>cs n. es_calls s' = es_calls s @ cs \<and> map fst cs = take n ts
    \<and> (\<forall>c \<in> set (butlast cs). \<not> accepted env (snd c))
    \<and> (let us = usages @ concat (map (usage_of \<circ> snd) cs) in
       if cs \<noteq> [] \<and> accepted env (snd (last cs)) then (\<exists>r. fst (snd (last cs)) = Some r \<and> res = with_usage us r)
       else (n \<ge> length ts \<or> ee_ctx_done env (es_world s'))
         \<and> (case last_response lr (map snd cs) of Some r \<Rightarrow> res = with_usage us r | None \<Rightarrow> fst res = None \<and> snd res \<noteq> None))"
  using assms
proof (induction ts arbitrary: usages le lr s)
  case Nil
  then show ?case
    by (intro exI [of _ "[]"] exI [of _ 0]) (auto simp: last_response_def split: option.splits)
next
  case (Cons t ts)
  show ?case
  proof (cases "ee_ctx_done env (es_world s)")
    case True
    with Cons.prems show ?thesis
      by (intro exI [of _ "[]"] exI [of _ 0]) (auto simp: last_response_def split: option.splits)
  next
    case False
    obtain resp err s1 where a: "ask env t prompt s = ((resp, err), s1)" by (metis surj_pair)
    then have s1: "es_calls s1 = es_calls s @ [(t, (resp, err))]" by (auto simp: ask_def split: prod.splits)
    define lr2 where "lr2 = (if resp = None then lr else resp)"
    define us2 where "us2 = usages @ usage_of (resp, err)"
    note eq = Cons.prems [unfolded cascade_loop.simps if_not_P [OF False] a Let_def prod.case, folded lr2_def us2_def]
    show ?thesis
    proof (cases "accepted env (resp, err)")
      case True
      then obtain r where r: "err = None" "resp = Some r" "ValidateCodeResponse (ee_go_ok env) (Some r)"
        by (cases resp) (auto simp: accepted_def ValidateCodeResponse_def)
      with eq s1 True show ?thesis
        by (intro exI [of _ "[(t, (resp, err))]"] exI [of _ 1]) (auto simp: us2_def)
    next
      case rejected: False
      with eq obtain le' where next_tier: "cascade_loop env prompt ts us2 le' lr2 s1 = (res, s')"
        by (auto simp: accepted_def split: option.splits if_splits)
      from Cons.IH [OF this] obtain cs n where ih: "es_calls s' = es_calls s1 @ cs" "map fst cs = take n ts"
        "\<forall>c \<in> set (butlast cs). \<not> accepted env (snd c)"
        "let us = us2 @ concat (map (usage_of \<circ> snd) cs) in
         if cs \<noteq> [] \<and> accepted env (snd (last cs)) then (\<exists>r. fst (snd (last cs)) = Some r \<and> res = with_usage us r)
         else (n \<ge> length ts \<or> ee_ctx_done env (es_world s'))
           \<and> (case last_response lr2 (map snd cs) of
                Some r \<Rightarrow> res = with_usage us r | None \<Rightarrow> fst res = None \<and> snd res \<noteq> None)" by blast
      have "last_response lr (map snd ((t, (resp, err)) # cs)) = last_response lr2 (map snd cs)"
        by (simp add: last_response_def lr2_def)
      moreover have "usages @ concat (map (usage_of \<circ> snd) ((t, (resp, err)) # cs)) = us2 @ concat (map (usage_of \<circ> snd) cs)"
        by (simp add: us2_def)
      moreover from ih rejected have "\<forall>c \<in> set (butlast ((t, (resp, err)) # cs)). \<not> accepted env (snd c)" by simp
      moreover from rejected ih(4) have "let us = us2 @ concat (map (usage_of \<circ> snd) cs) in
         if accepted env (snd (last ((t, (resp, err)) # cs)))
         then (\<exists>r. fst (snd (last ((t, (resp, err)) # cs))) = Some r \<and> res = with_usage us r)
         else (n \<ge> length ts \<or> ee_ctx_done env (es_world s'))
           \<and> (case last_response lr2 (map snd cs) of Some r \<Rightarrow> res = with_usage us r | None \<Rightarrow> fst res = None \<and> snd res \<noteq> None)"
        unfolding Let_def by (cases "cs = []") simp_all
      ultimately show ?thesis using ih(1,2) s1
        by (intro exI [of _ "(t, (resp, err)) # cs"] exI [of _ "Suc n"])
          (simp only: append.assoc append.simps list.map take_Suc_Cons fst_conv list.size Suc_le_mono simp_thms list.distinct
             add_Suc_right add_0_right One_nat_def)
    qed
  qed
qed

text \<open>A cascade asks its tiers in order, one at a time, and stops at the first answer that has actions and
  passes the checks. Without one it goes on to the last tier (or until the context ends) and returns the last answer it got,
  even an invalid one; it fails only if no tier answered. The usage is the sum over all answers received.\<close>

theorem cascade_escalates:
  assumes "cascade_Complete env tiers prompt s = (res, s')" "es_calls s = []"
  shows "\<exists>n. map fst (es_calls s') = take n tiers
    \<and> (\<forall>c \<in> set (butlast (es_calls s')). \<not> accepted env (snd c))
    \<and> (let us = concat (map (usage_of \<circ> snd) (es_calls s')) in
       if es_calls s' \<noteq> [] \<and> accepted env (snd (last (es_calls s')))
       then (\<exists>r. fst (snd (last (es_calls s'))) = Some r \<and> res = with_usage us r)
       else (n \<ge> length tiers \<or> ee_ctx_done env (es_world s'))
         \<and> (case last_response None (map snd (es_calls s')) of
              Some r \<Rightarrow> res = with_usage us r | None \<Rightarrow> fst res = None \<and> snd res \<noteq> None))"
proof (cases "tiers = []")
  case True
  with assms show ?thesis by (auto simp: cascade_Complete_def last_response_def)
next
  case False
  with assms have "cascade_loop env prompt tiers [] None None s = (res, s')" by (simp add: cascade_Complete_def)
  from cascade_loop_run [OF this] assms(2) show ?thesis by auto
qed


text \<open>One model fails, one answers with a stub, one with a whole file.\<close>

definition file_answer :: "string \<Rightarrow> LLMResponse" where
  "file_answer content = \<lparr>lr_Reasoning = [], lr_Actions = [\<lparr>la_Tool = ''write_file'',
     la_Args = [(''path'', GStr ''a.txt''), (''content'', GStr content)]\<rparr>],
     lr_Usage = \<lparr>tu_InputTokens = 3, tu_OutputTokens = 2, tu_ReasoningTokens = 0, tu_CachedTokens = 0, tu_TotalTokens = 5\<rparr>\<rparr>"

definition three_answers :: "completion list" where
  "three_answers = [(None, Some ErrCanceled), (Some (file_answer ''TODO''), None), (Some (file_answer ''done''), None)]"

theorem scored_selects_best_witness:
  "\<exists>r. scored_Complete (\<lambda>p c. True) three_answers = (Some r, None) \<and> lr_Actions r = lr_Actions (file_answer ''done'')"
proof -
  have sc: "ScoreCodeResponse (\<lambda>p c. True) (Some (file_answer ''TODO'')) = 70"
    "ScoreCodeResponse (\<lambda>p c. True) (Some (file_answer ''done'')) = 120" by code_simp+
  have acts: "lr_Actions (file_answer c) \<noteq> []" for c by (simp add: file_answer_def)
  obtain out err where out: "scored_Complete (\<lambda>p c. True) three_answers = (out, err)" by (metis surj_pair)
  note best = scored_selects_best [of three_answers "\<lambda>p c. True", unfolded out prod.case]
  show ?thesis
  proof (cases out)
    case None
    with best acts show ?thesis by (auto simp: three_answers_def)
  next
    case (Some r)
    with best obtain r0 where r0: "err = None" "(Some r0, None) \<in> set three_answers" "lr_Actions r = lr_Actions r0"
      "ScoreCodeResponse (\<lambda>p c. True) (Some (file_answer ''done'')) \<le> ScoreCodeResponse (\<lambda>p c. True) (Some r0)"
      using acts by (auto simp: three_answers_def)
    with sc have "r0 = file_answer ''done''" by (auto simp: three_answers_def)
    with out Some r0 show ?thesis by simp
  qed
qed

text \<open>Two tiers: the answer of the first is a stub, so the second is asked.\<close>

definition two_tiers :: "nat ens_env" where
  "two_tiers = \<lparr>ee_call = \<lambda>w name prompt. ((Some (file_answer (if name = ''fast'' then ''TODO'' else ''done'')), None), Suc w),
     ee_ctx_done = \<lambda>w. False, ee_go_ok = \<lambda>p c. True, ee_stage_prompt = \<lambda>t p r. p\<rparr>"

theorem cascade_escalates_witness:
  "let (res, s) = cascade_Complete two_tiers [''fast'', ''strong''] ''p'' \<lparr>es_world = 0, es_calls = []\<rparr>
   in map fst (es_calls s) = [''fast'', ''strong'']
      \<and> \<not> accepted two_tiers (snd (hd (es_calls s))) \<and> map_option lr_Actions (fst res) = Some (lr_Actions (file_answer ''done''))"
proof -
  obtain res s where run: "cascade_Complete two_tiers [''fast'', ''strong''] ''p'' \<lparr>es_world = 0, es_calls = []\<rparr> = (res, s)"
    by (metis surj_pair)
  have v: "ValidateCodeResponse (\<lambda>p c. True) (Some (file_answer ''TODO'')) = False"
    "ValidateCodeResponse (\<lambda>p c. True) (Some (file_answer ''done''))" by code_simp+
  from run v have calls: "map fst (es_calls s) = [''fast'', ''strong'']" "length (es_calls s) = 2"
    "map_option lr_Actions (fst res) = Some (lr_Actions (file_answer ''done''))"
    by (auto simp: cascade_Complete_def two_tiers_def ask_def Let_def with_usage_def)
  from cascade_escalates [OF run] have "\<forall>c \<in> set (butlast (es_calls s)). \<not> accepted two_tiers (snd c)" by auto
  with calls(2) have "\<not> accepted two_tiers (snd (hd (es_calls s)))" by (cases "es_calls s"; cases "tl (es_calls s)") auto
  with calls run show ?thesis by simp
qed

end
