(* ===== verification/Spec2Isabelle.thy ===== *)
theory Spec2Isabelle
  imports Prelude Go_Strings Domain Story_Ids File_Locks Task_Dag Task_Scheduler Story_Dag Circuit_Breaker Turn_Guards Task_Normalizer Task_Planning File_Edits
    Conflict_Merge Rebase_Queue Token_Accounting Spec_Session Task_Escalation State_Store
    State_Updates Command_Mailbox Fallback_Agent Deadlock_Rescue Task_Dispatch Run_Cycle Llm_Errors Llm_Client Llm_Candidates Llm_Router Llm_Hedging Llm_Failover Llm_Ensemble
begin

text \<open>
  noctifab turns a specification into software: a planner writes stories and tasks, a scheduler hands
  tasks to agents that work in git worktrees, guards and breakers stop unproductive agents, a queue
  merges finished branches, and a repository keeps the state across all of this. This library models the
  parts of the Go sources under \<open>src/pkg\<close> that carry that logic, and the story loop of the server (\<open>src/cmd/noctifab/cli/serve.go\<close>). Each theory follows one or a few source
  files; a definition has the name of the function, method or type it models, and the functions it is
  composed of have names of their own where the source has a loop body or a closure.

  \<^bold>\<open>Foundations.\<close>
  \<^item> \<open>Prelude\<close>: results as sums, 64-bit wrap-around (\<open>wrap64\<close>), deduplicating loops, the contract \<open>traced\<close>
    of an object that changes by one operation per event.
  \<^item> \<open>Go_Strings\<close>: the string, path and sorting functions of the Go library that the code calls.
  \<^item> \<open>Domain\<close>: the records and enumerations of \<open>src/pkg/domain\<close>, the bounded action log, state summaries.
  \<^item> \<open>Story_Ids\<close>: the expressions that find story and task numbers.

  \<^bold>\<open>Planning.\<close> \<open>Task_Normalizer\<close> (\<open>task_normalizer.go\<close>) renames proposed tasks; \<open>Task_Planning\<close>
  (\<open>task_dependencies.go\<close>, \<open>task_cohesion.go\<close>, \<open>worktree_symbol_sync.go\<close>) cleans and checks a plan;
  \<open>Task_Dag\<close> (\<open>dag.go\<close>) sorts it. Proved: identifiers are unique and dependencies follow the renaming,
  an accepted plan has justified dependencies and an order, and the sort succeeds exactly on acyclic plans.

  \<^bold>\<open>Scheduling.\<close> \<open>File_Locks\<close> and \<open>Task_Scheduler\<close> (\<open>scheduler.go\<close>) pick the tasks that may start;
  \<open>Story_Dag\<close> (\<open>story_dag_scheduler.go\<close>) runs stories concurrently as a step relation. The scheduler uses
  the locks through the locale \<open>lock_table\<close>. Proved: soundness, exclusiveness, slot bound and progress of
  the selection; safety, termination, no stuck state and justified deadlocks of the story loop.

  \<^bold>\<open>Working on a task.\<close> \<open>Task_Escalation\<close> (\<open>task_escalator.go\<close>) decides on stronger models and splits;
  \<open>File_Edits\<close> (\<open>edit_file_helper.go\<close>) applies an agent's edits; \<open>Circuit_Breaker\<close> and \<open>Turn_Guards\<close>
  (\<open>circuit_breaker.go\<close>, \<open>oscillation_circuit_breaker.go\<close>, the guard files) watch the turns. Their
  properties relate the state of a guard to the history of its calls by interpretations of \<open>traced\<close>.

  \<^bold>\<open>Integrating.\<close> \<open>Conflict_Merge\<close> (\<open>orchestrator_execute_workspace.go\<close>, \<open>rebase_conflict_resolver.go\<close>)
  resolves conflict markers in a text; \<open>Rebase_Queue\<close> (\<open>rebase_queue.go\<close>) is one integration job with its
  five tiers over an arbitrary git, file system and resolver. Proved: what clean-up and unions keep, that
  a merge commit follows an inspection of the staged files in which none had a marker (or git failed to list them), that the stash is restored, and that an outcome is what was done.

  \<^bold>\<open>Keeping state.\<close> \<open>State_Store\<close> (\<open>src/pkg/infrastructure/storage\<close>) is the SQLite repository on tables
  as row lists, with its versions, dirty groups, loads, summaries and pruning; clients see it through the
  locale \<open>versioned_store\<close>. \<open>Token_Accounting\<close> (\<open>token_accounting.go\<close>) is the token ledger;
  \<open>Spec_Session\<close> (\<open>spec_session.go\<close>) the review session of a specification. Proved: no lost update, what exactly a
  load returns after a full save (creation times, tasks left in place and actions included), agreement of the two summaries, exactness of
  the ledger, type safety and round trips of sessions. This theory adds what follows for the scheduler
  and the escalator from what the repository does not store.

  \<^bold>\<open>Updating the state.\<close> \<open>State_Updates\<close> (\<open>orchestrator.go\<close>, \<open>command_channel_helpers.go\<close>) is every load, change and save
  with its retries, over the locale \<open>loading_store\<close>, which extends \<open>versioned_store\<close> and is interpreted on the SQLite
  repository; \<open>Command_Mailbox\<close> (\<open>command_channel.go\<close>, \<open>command_channel_steer.go\<close>) is the queue of commands as a step
  relation. Proved: a successful update commits one changed form of a state that nobody else saved in between and a failed one nothing, except
  for a sender that gave up on its queued command (\<open>sync_end\<close>); the mailbox
  serves in order and answers everyone who waits; a directive of a task or an order is never loaded.

  \<^bold>\<open>Running a story.\<close> \<open>Task_Dispatch\<close> (\<open>orchestrator_execute.go\<close>, the loop of \<open>orchestrator_dispatch.go\<close>) executes tasks with
  their locks and outcomes; \<open>Fallback_Agent\<close> (\<open>orchestrator_fallback.go\<close>, \<open>fallback_hypotheses.go\<close>) is the repair agent
  of last resort; \<open>Deadlock_Rescue\<close> (\<open>orchestrator_dispatch_deadlock.go\<close>, \<open>deadlock_unblocker.go\<close>) handles a plan in which
  nothing is ready; \<open>Run_Cycle\<close> (\<open>RunOnce\<close> of \<open>orchestrator_dispatch.go\<close>, \<open>serve.go\<close>) composes them under the ceilings on
  time, tokens and actions. Proved: running tasks never share a file and stay within the limit, the fallback agent ends and
  succeeds only on verified work, unblocking is confined to independent tasks, and when a story is judged successful; and where
  the code fails its purpose: locks that outlive an early return, commits lost by a rollback, retries without end, a skipped
  task that fails its story, ceilings that end with their own abort, failed stories saved as successes.

  \<^bold>\<open>Calling models.\<close> Under \<open>src/pkg/infrastructure/llm\<close>: \<open>Llm_Errors\<close> (\<open>http_error.go\<close>, \<open>token_estimate.go\<close>) classifies errors and
  estimates tokens; \<open>Llm_Client\<close> (\<open>client.go\<close>, \<open>fallback.go\<close>, \<open>client_catalog.go\<close>) is one completion with its retries, keys and
  fallback model; \<open>Llm_Candidates\<close> (\<open>context_window.go\<close>, \<open>router_adaptive.go\<close>, \<open>router_latency_tracker.go\<close>) orders the providers;
  \<open>Llm_Router\<close> (\<open>router.go\<close> and the files on eviction, rate limits and overrides) tries them; \<open>Llm_Hedging\<close>
  (\<open>router_hedging.go\<close>) runs two requests against each other as a step relation; \<open>Llm_Failover\<close> (\<open>failover_client.go\<close>,
  \<open>storage/sqlite_budget.go\<close>) keeps daily budgets; \<open>Llm_Ensemble\<close> (\<open>ensemble\<close>) combines several clients. Proved: bounds on
  calls, order and cooldowns, what is charged, budgets, liveness of the hedged wait, and what each ensemble returns.

  \<^bold>\<open>Fuel and bounds.\<close> The depth-first search of \<open>Task_Dag\<close> has the number of tasks as fuel and the search
  for a free identifier in \<open>Task_Normalizer\<close> one try more than there are identifiers; \<open>dfs_spec\<close> and
  \<open>disambiguate_total\<close> prove that this is enough, so running out of fuel is no outcome. Everything else
  terminates structurally or by a measure (the turns of the fallback agent by a lexicographic one, in which a
  round without a change uses up a strike); the story loop, which runs as long as stories do, is a
  relation with a termination proof, and the dispatch loop, the mailbox and the hedged wait are relations with invariants. The lost-update property counts fewer than \<open>2 ^ 64 - 1\<close> saves, because
  the version column wraps.

  \<^bold>\<open>Parameters.\<close> Code outside the sources is an argument: the YAML decoder, SHA-256 and the error
  fingerprint, the file tests and globs of planning, the count of enumerated commands, git, the file
  system, the conflict resolver and JSON re-encoding of the rebase queue, fresh identifiers and the
  health of the database, the order in which Go ranges over a map; the calls of providers, the clock, retry delays,
  the parsers of replies, model names and Go code; of the sources themselves the work of an agent on a task (between its
  start and its outcome), test runs and gates, tools, prompts, the phases after the last task, and the loading of quality reviews.
  Hypotheses on them are stated in the theorems (\<open>git_history\<close>), with an instance in the witness.

  \<^bold>\<open>Idealisations.\<close> Text is ASCII where the code maps case or trims; paths are Unix paths; times are
  natural numbers with 0 as Go's zero time, and stored times compare chronologically. Messages, logs,
  telemetry and the free-text reasons of decisions are left out; an error is its constructor. An
  operation that holds a mutex is one step; goroutines interleave only at such steps.

  \<^bold>\<open>Not modelled.\<close> The command line and its wiring, configuration files, hosting, notification, web and reporting (input and
  output); the HTTP routes of the daemon, its watchers and timers; provider protocols, streaming, prompt templates and the
  racing ensembles; the PostgreSQL variant and migrations; the conversations of the agents with their worktrees; validators that
  run regular expressions and external tools over a workspace; sandboxes, probes and test runners (external processes);
  generation of specifications and roadmaps (model conversations); telemetry.
\<close>

section \<open>Properties that span components\<close>

text \<open>C26: The repository does not store the task that a clarification is about, and the scheduler takes a
  clarification without a task as a global one: after one save and load, a state with an open question
  about a single task dispatches no task at all.\<close>

theorem reloaded_clarification_blocks_all:
  assumes "Save env r s = (r', Inr s')" "repo_cache r (st_ID s) = None"
    and "list_ex (\<lambda>c. \<not> clar_Resolved c) (st_Clarifications s)"
  shows "\<exists>l. LoadByID (\<lambda>d x. x) (repo_db r') (st_ID s) = Inr l \<and> GetReadyTasks l limit locks = ([], locks)"
proof -
  from loaded_clarifications [OF assms(1,2)] obtain l where l: "LoadByID (\<lambda>d x. x) (repo_db r') (st_ID s) = Inr l"
    "st_Clarifications l = map (\<lambda>c. c\<lparr>clar_ID := [], clar_TaskID := []\<rparr>) (st_Clarifications s)" by blast
  have "initial_blocked idx (st_Clarifications l) {} = None" for idx
    using assms(3) by (auto simp: initial_blocked_None_iff l(2) list_ex_iff)
  with l(1) show ?thesis by (simp add: GetReadyTasks_def Let_def)
qed

text \<open>A plan of two independent tasks and an open question about the first: in memory the second task is
  dispatched, after a save and load nothing is.\<close>

definition asked_state :: State where
  "asked_state = (mk_state [mk_task ''T1'' ''Parser'' TaskPending, mk_task ''T2'' ''Printer'' TaskPending])
     \<lparr>st_ID := ''s1'', st_Clarifications := [\<lparr>clar_ID = ''q'', clar_Question = ''which format?'', clar_Answer = [],
        clar_Resolved = False, clar_AskedAt = 1, clar_TaskID = ''T1''\<rparr>]\<rparr>"

theorem reloaded_clarification_blocks_all_witness:
  "map task_ID (fst (GetReadyTasks asked_state 4 Map.empty)) = [''T2'']
   \<and> (\<exists>l. LoadByID (\<lambda>d x. x) (repo_db (fst (Save sample_env new_repo asked_state))) ''s1'' = Inr l
        \<and> GetReadyTasks l 4 Map.empty = ([], Map.empty))"
proof -
  have "Save sample_env new_repo asked_state
     = (fst (Save sample_env new_repo asked_state), Inr (asked_state\<lparr>st_Version := 1\<rparr>))"
    by (simp add: save_defs sample_defs asked_state_def wrap64_def clarification_columns_def)
  from reloaded_clarification_blocks_all [OF this, of 4 Map.empty] have
    "\<exists>l. LoadByID (\<lambda>d x. x) (repo_db (fst (Save sample_env new_repo asked_state))) ''s1'' = Inr l
        \<and> GetReadyTasks l 4 Map.empty = ([], Map.empty)"
    by (simp add: new_repo_def asked_state_def)
  moreover have "map task_ID (fst (GetReadyTasks asked_state 4 Map.empty)) = [''T2'']"
    by code_simp
  ultimately show ?thesis by blast
qed

text \<open>C27: The repository does not store how often a task's model was upgraded, so for a task that was loaded from
  a database that only saves have filled, the escalator with a default or larger upgrade limit never
  decides to split it, whatever happened to it before the last save.\<close>

theorem reloaded_task_never_splits:
  assumes "LoadByID (\<lambda>d x. x) (repo_db (sqlite.run \<lparr>repo_db = empty_db, repo_cache = Map.empty\<rparr> es)) i = Inr l"
    and "t \<in> set (st_Tasks l)"
  shows "task_ModelUpgrades t = 0
    \<and> (case EvaluateEscalation e (Some t) turn of None \<Rightarrow> True | Some d \<Rightarrow> \<not> dec_ShouldSplit d)"
proof -
  have "task_columns t = t"
    by (rule loaded_task_stored [OF run_stored assms(1) _ assms(2)]) (simp_all add: tasks_stored_def empty_db_def)
  moreover have "task_ModelUpgrades (task_columns t) = 0" by (simp add: task_columns_def)
  ultimately have "task_ModelUpgrades t = 0" by simp
  then show ?thesis
    by (auto simp: EvaluateEscalation_def Let_def GetMaxModelUpgrades_def split: option.splits)
qed

theorem reloaded_task_never_splits_witness:
  "\<exists>l. LoadByID (\<lambda>d x. x) (repo_db (sqlite.run new_repo [(sample_env, plan_state ''s1'')])) ''s1'' = Inr l
     \<and> st_Tasks l \<noteq> [] \<and> task_ModelUpgrades (hd (st_Tasks l)) = 0"
proof -
  obtain l where l: "LoadByID (\<lambda>d x. x) (repo_db (sqlite.run new_repo [(sample_env, plan_state ''s1'')])) ''s1'' = Inr l"
    "st_Tasks l \<noteq> []"
    by (simp add: save_defs sample_defs LoadByID_def load_relations_defs Let_def rows_of_def)
  with reloaded_task_never_splits [of "[(sample_env, plan_state ''s1'')]" "''s1''" l "hd (st_Tasks l)"] show ?thesis
    by (simp add: new_repo_def)
qed

end
